(* ===== verification/Prelude.thy ===== *)
theory Prelude
  imports Main "HOL-Library.AList" "HOL-Library.Multiset"
begin

text \<open>
  Shared vocabulary of the development: the ways in which a C++ execution can go wrong
  (\<open>fault\<close>), results that are either a fault or a value, the total-correctness predicate
  \<open>okr\<close> with its calculus, C++ \<open>int\<close> increments, and generic facts on association lists,
  which model \<open>std::unordered_map\<close> (the position of an entry stands for nothing: every loop
  over a map goes through an explicit iteration order).
\<close>

named_theorems wp \<open>rules that push \<open>okr\<close> through a program\<close>
named_theorems umap_simps \<open>facts on the association lists that model unordered maps\<close>

section \<open>Faults and results\<close>

text \<open>
  The undefined behaviours and aborts that the modelled code can run into. A function that
  may reach one returns \<open>Inl\<close> of it instead of a result.
  \<open>NullDeref\<close>: a null pointer (or null \<open>shared_ptr\<close>) is dereferenced.
  \<open>UseAfterFree\<close>: memory that is not allocated is read or written.
  \<open>InvalidFree\<close>: memory that is not allocated is freed (a double free).
  \<open>UninitRead\<close>: an indeterminate value is used.
  \<open>OutOfBounds\<close>: a read or write past the end of a block.
  \<open>EmptyContainer\<close>: \<open>front()\<close> or \<open>pop()\<close> on an empty \<open>std::queue\<close>.
  \<open>Terminate\<close>: the C++ runtime calls \<open>std::terminate\<close>.
\<close>

datatype fault =
    NullDeref
  | UseAfterFree
  | InvalidFree
  | UninitRead
  | OutOfBounds
  | EmptyContainer
  | Terminate

type_synonym 'a res = "fault + 'a"

definition bindr :: "'e + 'a \<Rightarrow> ('a \<Rightarrow> 'e + 'b) \<Rightarrow> 'e + 'b" where
  "bindr r f = (case r of Inl e \<Rightarrow> Inl e | Inr x \<Rightarrow> f x)"

lemma bindr_simps [simp]:
  "bindr (Inl e) f = Inl e"
  "bindr (Inr x) f = f x"
  by (simp_all add: bindr_def)

lemma bindr_eq_Inr_iff: "bindr r f = Inr y \<longleftrightarrow> (\<exists>x. r = Inr x \<and> f x = Inr y)"
  by (cases r) simp_all

lemma bindr_eq_Inl_iff: "bindr r f = Inl e \<longleftrightarrow> r = Inl e \<or> (\<exists>x. r = Inr x \<and> f x = Inl e)"
  by (cases r) simp_all

lemma bindr_assoc: "bindr (bindr r f) g = bindr r (\<lambda>x. bindr (f x) g)"
  by (cases r) simp_all

lemma bindr_cong [fundef_cong]:
  "r = r' \<Longrightarrow> (\<And>x. r' = Inr x \<Longrightarrow> f x = f' x) \<Longrightarrow> bindr r f = bindr r' f'"
  by (cases r') simp_all

text \<open>Total correctness: the computation runs into no fault and its result satisfies \<open>Q\<close>.\<close>

definition okr :: "'e + 'a \<Rightarrow> ('a \<Rightarrow> bool) \<Rightarrow> bool" where
  "okr r Q \<longleftrightarrow> (\<exists>x. r = Inr x \<and> Q x)"

lemma okr_Inr [wp, simp]: "okr (Inr x) Q \<longleftrightarrow> Q x"
  by (simp add: okr_def)

lemma okr_Inl [wp, simp]: "\<not> okr (Inl e) Q"
  by (simp add: okr_def)

lemma okr_bindr [wp]: "okr (bindr r f) Q \<longleftrightarrow> okr r (\<lambda>x. okr (f x) Q)"
  by (cases r) simp_all

lemma okr_if [wp]: "okr (if b then r else s) Q \<longleftrightarrow> (b \<longrightarrow> okr r Q) \<and> (\<not> b \<longrightarrow> okr s Q)"
  by simp

lemma okrI: "r = Inr x \<Longrightarrow> Q x \<Longrightarrow> okr r Q"
  by (simp add: okr_def)

lemma okrE: "okr r Q \<Longrightarrow> (\<And>x. r = Inr x \<Longrightarrow> Q x \<Longrightarrow> P) \<Longrightarrow> P"
  by (auto simp: okr_def)

lemma okr_mono: "okr r Q \<Longrightarrow> (\<And>x. Q x \<Longrightarrow> Q' x) \<Longrightarrow> okr r Q'"
  by (auto simp: okr_def)

lemma okr_conj: "okr r Q \<Longrightarrow> okr r Q' \<Longrightarrow> okr r (\<lambda>x. Q x \<and> Q' x)"
  by (auto simp: okr_def)

lemma okr_bindI:
  "okr r (\<lambda>(a, b). Q a b) \<Longrightarrow> (\<And>a b. Q a b \<Longrightarrow> okr (f (a, b)) Q') \<Longrightarrow> okr (bindr r f) Q'"
  by (auto simp: okr_def)

lemma okr_pairI:
  "okr r (\<lambda>(a, b). Q a b) \<Longrightarrow> (\<And>a b. Q a b \<Longrightarrow> Q' a b) \<Longrightarrow> okr r (\<lambda>(a, b). Q' a b)"
  by (auto simp: okr_def)

section \<open>C++ integers\<close>

text \<open>
  A C++ \<open>int\<close> is modelled by the HOL integer it denotes. The counters of the program are only
  incremented; the increment wraps around at \<open>INT_MAX\<close>, which is what the compilers the
  project names do with a signed overflow that the standard leaves undefined.
\<close>

abbreviation INT_MAX :: int where
  "INT_MAX \<equiv> 2147483647"

definition int_incr :: "int \<Rightarrow> int" where
  "int_incr x = (x + 1 + 2147483648) mod 4294967296 - 2147483648"

lemma int_incr_below: "- 2147483648 \<le> x \<Longrightarrow> x < INT_MAX \<Longrightarrow> int_incr x = x + 1"
  by (simp add: int_incr_def)

lemma int_incr_wraps: "int_incr INT_MAX = - 2147483648"
  by (simp add: int_incr_def)

text \<open>A channel number reaches the wire as an unsigned 16-bit \<open>amqp_channel_t\<close>.\<close>

definition wire_channel :: "int \<Rightarrow> nat" where
  "wire_channel c = nat (c mod 65536)"

lemma wire_channel_id: "0 \<le> c \<Longrightarrow> c < 65536 \<Longrightarrow> wire_channel c = nat c"
  by (simp add: wire_channel_def)

lemma wire_channel_inj:
  "0 \<le> c \<Longrightarrow> c < 65536 \<Longrightarrow> 0 \<le> d \<Longrightarrow> d < 65536 \<Longrightarrow> wire_channel c = wire_channel d \<Longrightarrow> c = d"
  by (simp add: wire_channel_id)

section \<open>Unordered maps as association lists\<close>

abbreviation keys :: "('k \<times> 'v) list \<Rightarrow> 'k list" where
  "keys m \<equiv> map fst m"

lemma map_of_update [umap_simps]: "map_of (AList.update k v m) = (map_of m)(k \<mapsto> v)"
  by (rule update_conv')

lemma distinct_keys_update [umap_simps]:
  "distinct (keys m) \<Longrightarrow> distinct (keys (AList.update k v m))"
  by (rule distinct_update)

lemma set_keys_update [umap_simps]: "set (keys (AList.update k v m)) = insert k (set (keys m))"
  by (simp add: dom_map_of_conv_image_fst [symmetric] map_of_update)

lemma map_of_None_iff_keys: "map_of m k = None \<longleftrightarrow> k \<notin> set (keys m)"
  by (simp add: map_of_eq_None_iff)

lemma map_of_Some_keys: "map_of m k = Some v \<Longrightarrow> k \<in> set (keys m)"
  by (force dest: map_of_SomeD)

lemma update_fresh [umap_simps]: "k \<notin> set (keys m) \<Longrightarrow> AList.update k v m = m @ [(k, v)]"
  by (induction m) auto

text \<open>The iteration order of a hash map is unspecified: any permutation of its keys.\<close>

definition permuting :: "('k list \<Rightarrow> 'k list) \<Rightarrow> bool" where
  "permuting ord \<longleftrightarrow> (\<forall>ks. mset (ord ks) = mset ks)"

lemma permuting_set: "permuting ord \<Longrightarrow> set (ord ks) = set ks"
  by (metis permuting_def set_mset_mset)

lemma permuting_distinct: "permuting ord \<Longrightarrow> distinct (ord ks) \<longleftrightarrow> distinct ks"
  by (metis permuting_def mset_eq_imp_distinct_iff)

lemma permuting_id: "permuting (\<lambda>ks. ks)"
  by (simp add: permuting_def)

section \<open>Removing an element\<close>

definition remove_nth :: "nat \<Rightarrow> 'a list \<Rightarrow> 'a list" where
  "remove_nth i xs = take i xs @ drop (Suc i) xs"

lemma set_remove_nth:
  "i < length xs \<Longrightarrow> set xs = insert (xs ! i) (set (remove_nth i xs))"
  by (metis id_take_nth_drop insert_is_Un list.simps(15) remove_nth_def set_append Un_insert_right)

lemma remove_last [simp]: "remove_nth (length xs) (xs @ [x]) = xs"
  by (simp add: remove_nth_def)

end
