(* ===== verification/Memory.thy ===== *)
theory Memory
  imports Prelude
begin

text \<open>
  The part of the C memory model the program relies on: blocks handed out by \<open>malloc\<close>,
  \<open>free\<close>, \<open>memcpy\<close> and \<open>strlen\<close>, with their failures as faults. A pointer is null or the
  start of a block; a byte is indeterminate (\<open>None\<close>) until it is written. Whether an
  allocation succeeds is decided by the environment: \<open>h_oom\<close> says which allocation requests
  fail, and the lemmas hold for every choice of it.
\<close>

section \<open>Pointers, bytes, heaps\<close>

datatype ptr = Null | Ptr nat

type_synonym byte = "char option"

record heap =
  h_next :: nat
  h_blocks :: "nat \<rightharpoonup> byte list"
  h_oom :: "nat \<Rightarrow> bool"

definition empty_heap :: heap where
  "empty_heap = \<lparr>h_next = 0, h_blocks = Map.empty, h_oom = (\<lambda>_. False)\<rparr>"

definition NUL :: char where
  "NUL = CHR 0x00"

definition heap_wf :: "heap \<Rightarrow> bool" where
  "heap_wf h \<longleftrightarrow> (\<forall>a. h_blocks h a \<noteq> None \<longrightarrow> a < h_next h)"

section \<open>Operations\<close>

definition malloc :: "nat \<Rightarrow> heap \<Rightarrow> ptr \<times> heap" where
  "malloc n h =
     (if h_oom h (h_next h) then (Null, h\<lparr>h_next := Suc (h_next h)\<rparr>)
      else (Ptr (h_next h),
            h\<lparr>h_next := Suc (h_next h),
              h_blocks := (h_blocks h)(h_next h \<mapsto> replicate n None)\<rparr>))"

fun free :: "ptr \<Rightarrow> heap \<Rightarrow> heap res" where
  "free Null h = Inr h"
| "free (Ptr a) h =
     (case h_blocks h a of
        None \<Rightarrow> Inl InvalidFree
      | Some _ \<Rightarrow> Inr (h\<lparr>h_blocks := (h_blocks h)(a := None)\<rparr>))"

text \<open>Reading the first \<open>n\<close> bytes behind a pointer; nothing is touched when \<open>n\<close> is 0.\<close>

fun load :: "heap \<Rightarrow> ptr \<Rightarrow> nat \<Rightarrow> byte list res" where
  "load h Null n = (if n = 0 then Inr [] else Inl NullDeref)"
| "load h (Ptr a) n =
     (if n = 0 then Inr []
      else case h_blocks h a of
        None \<Rightarrow> Inl UseAfterFree
      | Some bs \<Rightarrow> if n \<le> length bs then Inr (take n bs) else Inl OutOfBounds)"

text \<open>Writing a run of bytes at the start of a block (the destination of a \<open>memcpy\<close>).\<close>

fun store :: "ptr \<Rightarrow> byte list \<Rightarrow> heap \<Rightarrow> heap res" where
  "store Null bs h = (if bs = [] then Inr h else Inl NullDeref)"
| "store (Ptr a) bs h =
     (if bs = [] then Inr h
      else case h_blocks h a of
        None \<Rightarrow> Inl UseAfterFree
      | Some old \<Rightarrow>
          if length bs \<le> length old
          then Inr (h\<lparr>h_blocks := (h_blocks h)(a \<mapsto> bs @ drop (length bs) old)\<rparr>)
          else Inl OutOfBounds)"

text \<open>
  The memory readable from a pointer on, up to the end of its block: what a C function that
  takes a \<open>const char*\<close> can see.
\<close>

fun mem_at :: "heap \<Rightarrow> ptr \<Rightarrow> byte list res" where
  "mem_at h Null = Inl NullDeref"
| "mem_at h (Ptr a) =
     (case h_blocks h a of None \<Rightarrow> Inl UseAfterFree | Some bs \<Rightarrow> Inr bs)"

text \<open>\<open>strlen\<close> scans for the terminator.\<close>

fun strlen :: "byte list \<Rightarrow> nat res" where
  "strlen [] = Inl OutOfBounds"
| "strlen (None # bs) = Inl UninitRead"
| "strlen (Some c # bs) = (if c = NUL then Inr 0 else bindr (strlen bs) (\<lambda>n. Inr (Suc n)))"

text \<open>A \<open>std::string\<close> and the buffer its \<open>c_str()\<close> points to.\<close>

definition c_str :: "string \<Rightarrow> byte list" where
  "c_str s = map Some s @ [Some NUL]"

text \<open>The constructor \<open>std::string(const char*, size_t)\<close>: every byte must have a value.\<close>

fun chars :: "byte list \<Rightarrow> string res" where
  "chars [] = Inr []"
| "chars (None # bs) = Inl UninitRead"
| "chars (Some c # bs) = bindr (chars bs) (\<lambda>s. Inr (c # s))"

text \<open>The longest prefix of a string that C string functions see.\<close>

definition upto_NUL :: "string \<Rightarrow> string" where
  "upto_NUL s = takeWhile (\<lambda>c. c \<noteq> NUL) s"

section \<open>Laws\<close>

lemma heap_wf_empty [simp]: "heap_wf empty_heap"
  by (simp add: heap_wf_def empty_heap_def)

lemma heap_wf_fresh: "heap_wf h \<Longrightarrow> h_next h \<le> a \<Longrightarrow> h_blocks h a = None"
  using linorder_not_less by (force simp: heap_wf_def)

lemma heap_wf_malloc: "heap_wf h \<Longrightarrow> heap_wf (snd (malloc n h))"
  by (auto simp: heap_wf_def malloc_def less_Suc_eq)

lemma heap_wf_free: "free p h = Inr h' \<Longrightarrow> heap_wf h \<Longrightarrow> heap_wf h'"
  by (cases p) (auto simp: heap_wf_def split: option.splits if_splits)

lemma chars_map_Some [simp]: "chars (map Some s) = Inr s"
  by (induction s) simp_all

lemma chars_eq: "chars bs = Inr s \<Longrightarrow> bs = map Some s"
  by (induction bs arbitrary: s rule: chars.induct) (auto simp: bindr_eq_Inr_iff)

lemma strlen_append_NUL: "strlen (map Some s @ Some NUL # bs) = Inr (length (upto_NUL s))"
  by (induction s) (simp_all add: upto_NUL_def)

text \<open>Without a terminator \<open>strlen\<close> runs past the end of the block.\<close>

lemma strlen_unterminated: "NUL \<notin> set s \<Longrightarrow> strlen (map Some s) = Inl OutOfBounds"
  by (induction s) auto

lemma strlen_c_str [simp]: "strlen (c_str s) = Inr (length (upto_NUL s))"
  by (simp add: c_str_def strlen_append_NUL)

lemma length_upto_NUL: "length (upto_NUL s) \<le> length s"
  by (simp add: upto_NUL_def length_takeWhile_le)

lemma take_upto_NUL: "take (length (upto_NUL s)) s = upto_NUL s"
  by (simp add: upto_NUL_def takeWhile_eq_take [symmetric])

lemma upto_NUL_id: "NUL \<notin> set s \<Longrightarrow> upto_NUL s = s"
  by (auto simp: upto_NUL_def)

lemma upto_NUL_iff: "upto_NUL s = s \<longleftrightarrow> NUL \<notin> set s"
  by (auto simp: upto_NUL_def)

lemma NUL_notin_upto_NUL: "NUL \<notin> set (upto_NUL s)"
  by (auto simp: upto_NUL_def dest: set_takeWhileD)

text \<open>What \<open>memcpy\<close> copies out of a string buffer: the C string and its terminator.\<close>

lemma take_c_str: "take (Suc (length (upto_NUL s))) (c_str s) = c_str (upto_NUL s)"
  by (induction s) (simp_all add: c_str_def upto_NUL_def)

lemma length_c_str [simp]: "length (c_str s) = Suc (length s)"
  by (simp add: c_str_def)

lemma take_length_c_str: "take (length s) (c_str s) = map Some s"
  by (simp add: c_str_def)

lemma take_c_str_upto: "take (length (upto_NUL s)) (c_str s) = map Some (upto_NUL s)"
  by (induction s) (simp_all add: c_str_def upto_NUL_def)

end
