(* ===== verification/Amqp.thy ===== *)
theory Amqp
  imports Memory "HOL-Library.Word"
begin

unbundle bit_operations_syntax

text \<open>
  The boundary to rabbitmq-c and to the C++ runtime. rabbitmq-c is not part of the repository,
  so nothing of it is defined here: its data types are given the fields the program reads and
  writes, its constants and functions are the fields of three parameter records
  (\<open>basic_flags\<close> and \<open>amqp_codes\<close> for constants, \<open>bytes_api\<close> for the byte-string helpers,
  \<open>'w amqp_api\<close> for everything that talks to a connection), and what the program relies on is
  stated as named hypotheses (\<open>basic_flags_ok\<close>, \<open>amqp_codes_ok\<close>, \<open>bytes_api_ok\<close>). The type
  \<open>'w\<close> is the state of the world behind the library: sockets, broker, buffers. Pointer
  arguments that the library only reads are dereferenced by the caller's model
  (\<open>deref_bytes\<close>), so a dangling pointer handed to the library is a fault.
\<close>

section \<open>Data types\<close>

record amqp_bytes =
  ab_len :: nat
  ab_bytes :: ptr

record amqp_table =
  tb_num_entries :: int
  tb_entries :: ptr

text \<open>Fields other than the flags hold an indeterminate value (\<open>None\<close>) until they are set.\<close>

record amqp_basic_properties =
  p_flags :: "32 word"
  p_content_type :: "amqp_bytes option"
  p_content_encoding :: "amqp_bytes option"
  p_headers :: "amqp_table option"
  p_delivery_mode :: "8 word option"
  p_priority :: "8 word option"
  p_correlation_id :: "amqp_bytes option"
  p_reply_to :: "amqp_bytes option"
  p_expiration :: "amqp_bytes option"
  p_message_id :: "amqp_bytes option"
  p_timestamp :: "64 word option"
  p_type :: "amqp_bytes option"
  p_user_id :: "amqp_bytes option"
  p_app_id :: "amqp_bytes option"
  p_cluster_id :: "amqp_bytes option"

text \<open>An object of the type before anything is assigned to it (its flags are set at once).\<close>

definition indeterminate_properties :: amqp_basic_properties where
  "indeterminate_properties =
     \<lparr>p_flags = 0, p_content_type = None, p_content_encoding = None, p_headers = None,
      p_delivery_mode = None, p_priority = None, p_correlation_id = None, p_reply_to = None,
      p_expiration = None, p_message_id = None, p_timestamp = None, p_type = None,
      p_user_id = None, p_app_id = None, p_cluster_id = None\<rparr>"

record amqp_envelope =
  env_exchange :: amqp_bytes
  env_routing_key :: amqp_bytes
  env_properties :: amqp_basic_properties
  env_body :: amqp_bytes

text \<open>The decoded \<open>connection.close\<close> and \<open>channel.close\<close> methods have these fields.\<close>

record amqp_close =
  cl_reply_code :: int
  cl_reply_text :: amqp_bytes

record amqp_rpc_reply =
  reply_type :: int
  reply_id :: int
  reply_decoded :: "amqp_close option"
  library_error :: int

section \<open>Constants\<close>

record basic_flags =
  AMQP_BASIC_CONTENT_TYPE_FLAG :: "32 word"
  AMQP_BASIC_CONTENT_ENCODING_FLAG :: "32 word"
  AMQP_BASIC_CORRELATION_ID_FLAG :: "32 word"
  AMQP_BASIC_REPLY_TO_FLAG :: "32 word"
  AMQP_BASIC_EXPIRATION_FLAG :: "32 word"
  AMQP_BASIC_MESSAGE_ID_FLAG :: "32 word"
  AMQP_BASIC_TIMESTAMP_FLAG :: "32 word"
  AMQP_BASIC_TYPE_FLAG :: "32 word"
  AMQP_BASIC_USER_ID_FLAG :: "32 word"
  AMQP_BASIC_APP_ID_FLAG :: "32 word"
  AMQP_BASIC_CLUSTER_ID_FLAG :: "32 word"

definition flag_list :: "basic_flags \<Rightarrow> 32 word list" where
  "flag_list F =
     [AMQP_BASIC_CONTENT_TYPE_FLAG F, AMQP_BASIC_CONTENT_ENCODING_FLAG F,
      AMQP_BASIC_CORRELATION_ID_FLAG F, AMQP_BASIC_REPLY_TO_FLAG F,
      AMQP_BASIC_EXPIRATION_FLAG F, AMQP_BASIC_MESSAGE_ID_FLAG F,
      AMQP_BASIC_TIMESTAMP_FLAG F, AMQP_BASIC_TYPE_FLAG F, AMQP_BASIC_USER_ID_FLAG F,
      AMQP_BASIC_APP_ID_FLAG F, AMQP_BASIC_CLUSTER_ID_FLAG F]"

text \<open>The flags are non-empty masks that do not overlap.\<close>

definition basic_flags_ok :: "basic_flags \<Rightarrow> bool" where
  "basic_flags_ok F \<longleftrightarrow>
     list_all (\<lambda>f. f \<noteq> 0) (flag_list F) \<and> sorted_wrt (\<lambda>f g. f AND g = 0) (flag_list F)"

record amqp_codes =
  AMQP_RESPONSE_NONE :: int
  AMQP_RESPONSE_NORMAL :: int
  AMQP_RESPONSE_LIBRARY_EXCEPTION :: int
  AMQP_RESPONSE_SERVER_EXCEPTION :: int
  AMQP_CONNECTION_CLOSE_METHOD :: int
  AMQP_CHANNEL_CLOSE_METHOD :: int
  AMQP_CHANNEL_CLOSE_OK_METHOD :: int
  AMQP_STATUS_OK :: int
  AMQP_STATUS_INCOMPATIBLE_AMQP_VERSION :: int
  AMQP_STATUS_CONNECTION_CLOSED :: int
  AMQP_STATUS_INVALID_PARAMETER :: int
  AMQP_STATUS_SOCKET_ERROR :: int
  AMQP_STATUS_TIMEOUT :: int
  AMQP_STATUS_SOCKET_CLOSED :: int
  AMQP_STATUS_SSL_CONNECTION_FAILED :: int
  AMQP_STATUS_SSL_HOSTNAME_VERIFY_FAILED :: int
  AMQP_STATUS_UNEXPECTED_STATE :: int
  AMQP_REPLY_SUCCESS :: int
  AMQP_SASL_METHOD_PLAIN :: int

text \<open>
  The constants are the distinct labels of the program's \<open>switch\<close> statements (with equal labels
  it would not compile), a normal response is the enumerator 1 and status codes other than
  \<open>AMQP_STATUS_OK\<close>, which is 0, are negative.
\<close>

definition response_list :: "amqp_codes \<Rightarrow> int list" where
  "response_list K =
     [AMQP_RESPONSE_NONE K, AMQP_RESPONSE_NORMAL K, AMQP_RESPONSE_LIBRARY_EXCEPTION K,
      AMQP_RESPONSE_SERVER_EXCEPTION K]"

definition status_list :: "amqp_codes \<Rightarrow> int list" where
  "status_list K =
     [AMQP_STATUS_INCOMPATIBLE_AMQP_VERSION K, AMQP_STATUS_CONNECTION_CLOSED K,
      AMQP_STATUS_INVALID_PARAMETER K, AMQP_STATUS_SOCKET_ERROR K, AMQP_STATUS_TIMEOUT K,
      AMQP_STATUS_SOCKET_CLOSED K, AMQP_STATUS_SSL_CONNECTION_FAILED K,
      AMQP_STATUS_SSL_HOSTNAME_VERIFY_FAILED K, AMQP_STATUS_UNEXPECTED_STATE K]"

definition amqp_codes_ok :: "amqp_codes \<Rightarrow> bool" where
  "amqp_codes_ok K \<longleftrightarrow>
     distinct (response_list K) \<and> AMQP_RESPONSE_NORMAL K = 1 \<and>
     AMQP_CONNECTION_CLOSE_METHOD K \<noteq> AMQP_CHANNEL_CLOSE_METHOD K \<and>
     distinct (status_list K) \<and> AMQP_STATUS_OK K = 0 \<and> list_all (\<lambda>s. s < 0) (status_list K)"

section \<open>Byte-string helpers\<close>

record bytes_api =
  amqp_bytes_malloc_dup :: "amqp_bytes \<Rightarrow> heap \<Rightarrow> (amqp_bytes \<times> heap) res"
  amqp_bytes_free :: "amqp_bytes \<Rightarrow> heap \<Rightarrow> heap res"
  amqp_cstring_bytes :: "ptr \<Rightarrow> heap \<Rightarrow> amqp_bytes res"
  amqp_empty_bytes :: amqp_bytes
  amqp_empty_table :: amqp_table

text \<open>The contents of a byte string.\<close>

definition load_bytes :: "heap \<Rightarrow> amqp_bytes \<Rightarrow> byte list res" where
  "load_bytes h b = load h (ab_bytes b) (ab_len b)"

definition deref_bytes :: "heap \<Rightarrow> amqp_bytes \<Rightarrow> string res" where
  "deref_bytes h b = bindr (load_bytes h b) chars"

text \<open>A heap that has grown: no block of the old one has changed or gone.\<close>

definition heap_le :: "heap \<Rightarrow> heap \<Rightarrow> bool" where
  "heap_le h h' \<longleftrightarrow>
     h_next h \<le> h_next h' \<and> (\<forall>a bs. h_blocks h a = Some bs \<longrightarrow> h_blocks h' a = Some bs)"

text \<open>
  The outcome of an allocation that is filled with \<open>c\<close>: a null pointer when it failed, and
  otherwise a new block that holds \<open>c\<close>. Nothing else on the heap changes.
\<close>

definition alloc_spec :: "heap \<Rightarrow> byte list \<Rightarrow> ptr \<Rightarrow> heap \<Rightarrow> bool" where
  "alloc_spec h c p h' \<longleftrightarrow>
     h_next h < h_next h' \<and>
     (p = Null \<and> h_blocks h' = h_blocks h \<or>
      (\<exists>a. p = Ptr a \<and> h_next h \<le> a \<and> a < h_next h' \<and> h_blocks h' = (h_blocks h)(a \<mapsto> c)))"

text \<open>What \<open>amqp_bytes_malloc_dup\<close> promises on a byte string with the readable contents \<open>c\<close>.\<close>

definition dup_spec :: "heap \<Rightarrow> amqp_bytes \<Rightarrow> byte list \<Rightarrow> amqp_bytes \<Rightarrow> heap \<Rightarrow> bool" where
  "dup_spec h b c b' h' \<longleftrightarrow> ab_len b' = ab_len b \<and> alloc_spec h c (ab_bytes b') h'"

definition bytes_api_ok :: "bytes_api \<Rightarrow> bool" where
  "bytes_api_ok B \<longleftrightarrow>
     (\<forall>b h c. load_bytes h b = Inr c \<longrightarrow>
        okr (amqp_bytes_malloc_dup B b h) (\<lambda>(b', h'). dup_spec h b c b' h')) \<and>
     (\<forall>b h. amqp_bytes_free B b h = free (ab_bytes b) h) \<and>
     (\<forall>p h. amqp_cstring_bytes B p h =
        bindr (mem_at h p) (\<lambda>m. bindr (strlen m) (\<lambda>n. Inr \<lparr>ab_len = n, ab_bytes = p\<rparr>))) \<and>
     amqp_empty_bytes B = \<lparr>ab_len = 0, ab_bytes = Null\<rparr>"

lemma bytes_api_dup:
  "bytes_api_ok B \<Longrightarrow> load_bytes h b = Inr c \<Longrightarrow>
     okr (amqp_bytes_malloc_dup B b h) (\<lambda>(b', h'). dup_spec h b c b' h')"
  by (simp add: bytes_api_ok_def)

lemma bytes_api_free: "bytes_api_ok B \<Longrightarrow> amqp_bytes_free B b h = free (ab_bytes b) h"
  by (simp add: bytes_api_ok_def)

lemma bytes_api_cstring:
  "bytes_api_ok B \<Longrightarrow> amqp_cstring_bytes B p h =
     bindr (mem_at h p) (\<lambda>m. bindr (strlen m) (\<lambda>n. Inr \<lparr>ab_len = n, ab_bytes = p\<rparr>))"
  by (simp add: bytes_api_ok_def)

lemma heap_le_refl [simp]: "heap_le h h"
  by (simp add: heap_le_def)

lemma heap_le_trans: "heap_le h h' \<Longrightarrow> heap_le h' h'' \<Longrightarrow> heap_le h h''"
  by (fastforce simp: heap_le_def)

lemma heap_le_load: "heap_le h h' \<Longrightarrow> load h p n = Inr c \<Longrightarrow> load h' p n = Inr c"
  by (cases p) (auto simp: heap_le_def split: option.splits if_splits)

lemma heap_le_load_bytes: "heap_le h h' \<Longrightarrow> load_bytes h b = Inr c \<Longrightarrow> load_bytes h' b = Inr c"
  by (simp add: load_bytes_def heap_le_load)

lemma heap_le_deref_bytes: "heap_le h h' \<Longrightarrow> deref_bytes h b = Inr s \<Longrightarrow> deref_bytes h' b = Inr s"
  by (auto simp: deref_bytes_def bindr_eq_Inr_iff dest: heap_le_load_bytes)

lemma alloc_spec_ext: "heap_wf h \<Longrightarrow> alloc_spec h c p h' \<Longrightarrow> heap_le h h'"
  by (auto simp: alloc_spec_def heap_le_def heap_wf_fresh)

lemma alloc_spec_wf: "heap_wf h \<Longrightarrow> alloc_spec h c p h' \<Longrightarrow> heap_wf h'"
  unfolding alloc_spec_def heap_wf_def
  by (elim conjE disjE exE) (auto dest: spec intro: less_trans)

lemma alloc_spec_malloc_store:
  assumes "malloc (length c) h = (p, h1)" and "p \<noteq> Null"
  shows "okr (store p c h1) (\<lambda>h2. alloc_spec h c p h2)"
  using assms by (auto simp: malloc_def alloc_spec_def split: if_splits)

lemma alloc_spec_malloc_Null: "malloc n h = (Null, h1) \<Longrightarrow> alloc_spec h c Null h1"
  by (auto simp: malloc_def alloc_spec_def split: if_splits)

lemma dup_spec_ext: "heap_wf h \<Longrightarrow> dup_spec h b c b' h' \<Longrightarrow> heap_le h h'"
  by (auto simp: dup_spec_def dest: alloc_spec_ext)

lemma dup_spec_wf: "heap_wf h \<Longrightarrow> dup_spec h b c b' h' \<Longrightarrow> heap_wf h'"
  by (auto simp: dup_spec_def dest: alloc_spec_wf)

lemma load_bytes_length: "load_bytes h b = Inr c \<Longrightarrow> length c = ab_len b"
  by (cases "ab_bytes b") (auto simp: load_bytes_def split: option.splits if_splits)

lemma dup_spec_load:
  "load_bytes h b = Inr c \<Longrightarrow> dup_spec h b c b' h' \<Longrightarrow> ab_bytes b' \<noteq> Null \<Longrightarrow>
     load_bytes h' b' = Inr c"
  using load_bytes_length [of h b c]
  by (auto simp: dup_spec_def alloc_spec_def load_bytes_def)

section \<open>Connection functions\<close>

text \<open>
  Handles are pointers the program passes on without looking behind them. Channel arguments
  are the 16-bit \<open>amqp_channel_t\<close>. Functions that hand memory to the caller
  (\<open>amqp_consume_message\<close>, \<open>amqp_queue_declare\<close>) or take it back also transform the heap;
  an absent envelope or queue name is one the call has not filled in.
\<close>

record 'w amqp_api =
  amqp_new_connection :: "'w \<Rightarrow> ptr \<times> 'w"
  amqp_tcp_socket_new :: "ptr \<Rightarrow> 'w \<Rightarrow> ptr \<times> 'w"
  amqp_socket_open_noblock :: "ptr \<Rightarrow> string \<Rightarrow> int \<Rightarrow> int \<Rightarrow> 'w \<Rightarrow> int \<times> 'w"
  amqp_login :: "ptr \<Rightarrow> string \<Rightarrow> int \<Rightarrow> int \<Rightarrow> int \<Rightarrow> int \<Rightarrow> string \<Rightarrow> string \<Rightarrow> 'w \<Rightarrow>
     amqp_rpc_reply \<times> 'w"
  amqp_connection_close :: "ptr \<Rightarrow> int \<Rightarrow> 'w \<Rightarrow> amqp_rpc_reply \<times> 'w"
  amqp_destroy_connection :: "ptr \<Rightarrow> 'w \<Rightarrow> 'w"
  amqp_exchange_declare :: "ptr \<Rightarrow> nat \<Rightarrow> string \<Rightarrow> string \<Rightarrow> int \<Rightarrow> int \<Rightarrow> int \<Rightarrow> int \<Rightarrow>
     amqp_table \<Rightarrow> 'w \<Rightarrow> 'w"
  amqp_get_rpc_reply :: "ptr \<Rightarrow> 'w \<Rightarrow> amqp_rpc_reply \<times> 'w"
  amqp_channel_open :: "ptr \<Rightarrow> nat \<Rightarrow> 'w \<Rightarrow> 'w"
  amqp_send_method :: "ptr \<Rightarrow> nat \<Rightarrow> int \<Rightarrow> 'w \<Rightarrow> int \<times> 'w"
  amqp_channel_close :: "ptr \<Rightarrow> nat \<Rightarrow> int \<Rightarrow> 'w \<Rightarrow> 'w"
  amqp_basic_publish :: "ptr \<Rightarrow> nat \<Rightarrow> string \<Rightarrow> string \<Rightarrow> int \<Rightarrow> int \<Rightarrow>
     amqp_basic_properties \<Rightarrow> string option list \<Rightarrow> string \<Rightarrow> 'w \<Rightarrow> int \<times> 'w"
  amqp_consume_message :: "ptr \<Rightarrow> int \<Rightarrow> int \<Rightarrow> heap \<Rightarrow> 'w \<Rightarrow>
     amqp_rpc_reply \<times> amqp_envelope option \<times> heap \<times> 'w"
  amqp_basic_consume :: "ptr \<Rightarrow> nat \<Rightarrow> string \<Rightarrow> amqp_bytes \<Rightarrow> int \<Rightarrow> int \<Rightarrow> int \<Rightarrow>
     amqp_table \<Rightarrow> 'w \<Rightarrow> 'w"
  amqp_queue_declare :: "ptr \<Rightarrow> nat \<Rightarrow> amqp_bytes \<Rightarrow> int \<Rightarrow> int \<Rightarrow> int \<Rightarrow> int \<Rightarrow>
     amqp_table \<Rightarrow> heap \<Rightarrow> 'w \<Rightarrow> amqp_bytes option \<times> heap \<times> 'w"
  amqp_queue_bind :: "ptr \<Rightarrow> nat \<Rightarrow> string \<Rightarrow> string \<Rightarrow> string \<Rightarrow> amqp_table \<Rightarrow> 'w \<Rightarrow> 'w"
  amqp_maybe_release_buffers :: "ptr \<Rightarrow> heap \<Rightarrow> 'w \<Rightarrow> heap \<times> 'w"
  amqp_destroy_envelope :: "amqp_envelope \<Rightarrow> heap \<Rightarrow> 'w \<Rightarrow> heap \<times> 'w"

text \<open>
  The C++ runtime: the system clock, in microseconds, and the order in which a loop visits the
  entries of an \<open>unordered_map\<close>. Both may depend on anything, so they read the world.
\<close>

record 'w runtime =
  system_clock_now :: "'w \<Rightarrow> 64 word"
  channel_order :: "'w \<Rightarrow> int list \<Rightarrow> int list"
  exchange_order :: "'w \<Rightarrow> string list \<Rightarrow> string list"

definition runtime_ok :: "'w runtime \<Rightarrow> bool" where
  "runtime_ok R \<longleftrightarrow> (\<forall>w. permuting (channel_order R w)) \<and> (\<forall>w. permuting (exchange_order R w))"

text \<open>Everything the program is compiled and linked against.\<close>

record 'w platform =
  flags :: basic_flags
  codes :: amqp_codes
  bapi :: bytes_api
  api :: "'w amqp_api"
  runtime :: "'w runtime"

definition platform_ok :: "'w platform \<Rightarrow> bool" where
  "platform_ok P \<longleftrightarrow>
     basic_flags_ok (flags P) \<and> amqp_codes_ok (codes P) \<and> bytes_api_ok (bapi P) \<and>
     runtime_ok (runtime P)"

text \<open>The state shared by the objects of the program: the heap and the world.\<close>

record 'w rt =
  rt_heap :: heap
  rt_world :: 'w

section \<open>Flag tests\<close>

definition has_flag :: "32 word \<Rightarrow> 32 word \<Rightarrow> bool" where
  "has_flag f w \<longleftrightarrow> f = w AND f"

lemma has_flag_set [simp]: "has_flag f (w OR f)"
  by (simp add: has_flag_def bit.conj_disj_distrib2)

lemma has_flag_other: "f AND g = 0 \<Longrightarrow> has_flag g (w OR f) \<longleftrightarrow> has_flag g w"
  by (simp add: has_flag_def bit.conj_disj_distrib2)

lemma has_flag_zero [simp]: "has_flag f 0 \<longleftrightarrow> f = 0"
  by (simp add: has_flag_def)

end
