(* ===== verification/Utils.thy ===== *)
theory Utils
  imports Amqp
begin

text \<open>
  The helpers of \<open>include/Utils.hpp\<close>: building byte strings out of C strings and raw buffers,
  turning them back into strings, cloning message properties, and the exception texts. The
  lemmas show that a built byte string reads back as what it was built from, and that a clone
  of properties owns fresh memory with the same contents for exactly the flagged fields.
\<close>

section \<open>Byte strings\<close>

definition hare_cstring_bytes :: "byte list \<Rightarrow> heap \<Rightarrow> (amqp_bytes \<times> heap) res" where
  "hare_cstring_bytes str h =
     bindr (strlen str) (\<lambda>n.
     case malloc (n + 1) h of (p, h1) \<Rightarrow>
       if p \<noteq> Null
       then bindr (store p (take (n + 1) str) h1) (\<lambda>h2. Inr (\<lparr>ab_len = n, ab_bytes = p\<rparr>, h2))
       else Inr (\<lparr>ab_len = n, ab_bytes = p\<rparr>, h1))"

text \<open>The conversion of an \<open>int\<close> to \<open>size_t\<close>.\<close>

definition size_of_int :: "int \<Rightarrow> nat" where
  "size_of_int n = nat (n mod 18446744073709551616)"

definition hare_void_bytes :: "byte list \<Rightarrow> int \<Rightarrow> heap \<Rightarrow> (amqp_bytes \<times> heap) res" where
  "hare_void_bytes data sz h =
     (let n = size_of_int sz in
      case malloc n h of (p, h1) \<Rightarrow>
        if p \<noteq> Null
        then if n \<le> length data
             then bindr (store p (take n data) h1) (\<lambda>h2. Inr (\<lparr>ab_len = n, ab_bytes = p\<rparr>, h2))
             else Inl OutOfBounds
        else Inr (\<lparr>ab_len = n, ab_bytes = p\<rparr>, h1))"

definition hare_bytes_to_string :: "heap \<Rightarrow> amqp_bytes \<Rightarrow> string res" where
  "hare_bytes_to_string h b = bindr (load h (ab_bytes b) (ab_len b)) chars"

section \<open>Cloning of properties\<close>

text \<open>
  One guarded assignment of the clone: \<open>if (flag set) cloned.f = amqp_bytes_malloc_dup(p.f)\<close>.
\<close>

definition dup_field ::
    "bytes_api \<Rightarrow> bool \<Rightarrow> amqp_bytes option \<Rightarrow> amqp_bytes option \<Rightarrow> heap \<Rightarrow>
     (amqp_bytes option \<times> heap) res" where
  "dup_field B on src dst h =
     (if on
      then case src of
             None \<Rightarrow> Inl UninitRead
           | Some b \<Rightarrow> bindr (amqp_bytes_malloc_dup B b h) (\<lambda>(b', h'). Inr (Some b', h'))
      else Inr (dst, h))"

definition hare_basic_properties_malloc_dup ::
    "basic_flags \<Rightarrow> bytes_api \<Rightarrow> amqp_basic_properties \<Rightarrow> amqp_basic_properties \<Rightarrow> heap \<Rightarrow>
     (amqp_basic_properties \<times> heap) res" where
  "hare_basic_properties_malloc_dup F B p cl h0 =
     (let on = (\<lambda>f. has_flag f (p_flags p)) in
      bindr (dup_field B (on (AMQP_BASIC_CONTENT_TYPE_FLAG F))
               (p_content_type p) (p_content_type cl) h0) (\<lambda>(ct, h1).
      bindr (dup_field B (on (AMQP_BASIC_CONTENT_ENCODING_FLAG F))
               (p_content_encoding p) (p_content_encoding cl) h1) (\<lambda>(ce, h2).
      bindr (dup_field B (on (AMQP_BASIC_CORRELATION_ID_FLAG F))
               (p_correlation_id p) (p_correlation_id cl) h2) (\<lambda>(ci, h3).
      bindr (dup_field B (on (AMQP_BASIC_REPLY_TO_FLAG F))
               (p_reply_to p) (p_reply_to cl) h3) (\<lambda>(rt, h4).
      bindr (dup_field B (on (AMQP_BASIC_EXPIRATION_FLAG F))
               (p_expiration p) (p_expiration cl) h4) (\<lambda>(ex, h5).
      bindr (dup_field B (on (AMQP_BASIC_MESSAGE_ID_FLAG F))
               (p_message_id p) (p_message_id cl) h5) (\<lambda>(mi, h6).
      bindr (dup_field B (on (AMQP_BASIC_TYPE_FLAG F))
               (p_type p) (p_type cl) h6) (\<lambda>(ty, h7).
      bindr (dup_field B (on (AMQP_BASIC_USER_ID_FLAG F))
               (p_user_id p) (p_user_id cl) h7) (\<lambda>(ui, h8).
      bindr (dup_field B (on (AMQP_BASIC_APP_ID_FLAG F))
               (p_app_id p) (p_app_id cl) h8) (\<lambda>(ai, h9).
      bindr (dup_field B (on (AMQP_BASIC_CLUSTER_ID_FLAG F))
               (p_cluster_id p) (p_cluster_id cl) h9) (\<lambda>(cu, h10).
        Inr (\<lparr>p_flags = p_flags p, p_content_type = ct, p_content_encoding = ce,
               p_headers = p_headers p, p_delivery_mode = p_delivery_mode p,
               p_priority = p_priority p, p_correlation_id = ci, p_reply_to = rt,
               p_expiration = ex, p_message_id = mi, p_timestamp = p_timestamp p,
               p_type = ty, p_user_id = ui, p_app_id = ai, p_cluster_id = cu\<rparr>,
             h10))))))))))))"

text \<open>The byte-string fields with their flags, in the order of the record.\<close>

definition byte_fields ::
    "basic_flags \<Rightarrow> (32 word \<times> (amqp_basic_properties \<Rightarrow> amqp_bytes option)) list" where
  "byte_fields F =
     [(AMQP_BASIC_CONTENT_TYPE_FLAG F, p_content_type),
      (AMQP_BASIC_CONTENT_ENCODING_FLAG F, p_content_encoding),
      (AMQP_BASIC_CORRELATION_ID_FLAG F, p_correlation_id),
      (AMQP_BASIC_REPLY_TO_FLAG F, p_reply_to),
      (AMQP_BASIC_EXPIRATION_FLAG F, p_expiration),
      (AMQP_BASIC_MESSAGE_ID_FLAG F, p_message_id),
      (AMQP_BASIC_TYPE_FLAG F, p_type),
      (AMQP_BASIC_USER_ID_FLAG F, p_user_id),
      (AMQP_BASIC_APP_ID_FLAG F, p_app_id),
      (AMQP_BASIC_CLUSTER_ID_FLAG F, p_cluster_id)]"

text \<open>Properties whose flagged fields can all be read.\<close>

definition readable_field :: "heap \<Rightarrow> amqp_bytes option \<Rightarrow> bool" where
  "readable_field h f = (case f of None \<Rightarrow> False | Some b \<Rightarrow> okr (load_bytes h b) (\<lambda>_. True))"

definition props_readable :: "basic_flags \<Rightarrow> heap \<Rightarrow> amqp_basic_properties \<Rightarrow> bool" where
  "props_readable F h p \<longleftrightarrow>
     list_all (\<lambda>(f, sel). has_flag f (p_flags p) \<longrightarrow> readable_field h (sel p)) (byte_fields F)"

text \<open>A cloned field: a fresh block with the same contents, or a failed allocation.\<close>

definition dup_of :: "heap \<Rightarrow> amqp_bytes option \<Rightarrow> heap \<Rightarrow> amqp_bytes option \<Rightarrow> bool" where
  "dup_of h src h' dst \<longleftrightarrow>
     (\<exists>b b' c. src = Some b \<and> dst = Some b' \<and> load_bytes h b = Inr c \<and> ab_len b' = ab_len b \<and>
        (ab_bytes b' = Null \<or>
         (\<exists>a. ab_bytes b' = Ptr a \<and> h_next h \<le> a \<and> h_blocks h' a = Some c)))"

definition props_clone ::
    "basic_flags \<Rightarrow> heap \<Rightarrow> amqp_basic_properties \<Rightarrow> amqp_basic_properties \<Rightarrow>
     heap \<Rightarrow> amqp_basic_properties \<Rightarrow> bool" where
  "props_clone F h p cl h' q \<longleftrightarrow>
     p_flags q = p_flags p \<and> p_headers q = p_headers p \<and>
     p_delivery_mode q = p_delivery_mode p \<and> p_priority q = p_priority p \<and>
     p_timestamp q = p_timestamp p \<and>
     list_all (\<lambda>(f, sel). if has_flag f (p_flags p) then dup_of h (sel p) h' (sel q)
                          else sel q = sel cl) (byte_fields F)"

section \<open>Exception texts\<close>

text \<open>
  \<open>snprintf\<close> into a buffer of \<open>sz\<close> bytes: the number of characters of the full text and
  what fits in front of the terminator.
\<close>

definition snprintf :: "nat \<Rightarrow> string \<Rightarrow> int \<times> string" where
  "snprintf sz txt = (int (length txt), take (sz - 1) txt)"

fun decimal :: "nat \<Rightarrow> string" where
  "decimal n = (if n < 10 then [char_of (48 + n)] else decimal (n div 10) @ [char_of (48 + n mod 10)])"

declare decimal.simps [simp del]

definition fmt_d :: "int \<Rightarrow> string" where
  "fmt_d n = (if n < 0 then ''-'' @ decimal (nat (- n)) else decimal (nat n))"

definition hex_digit :: "nat \<Rightarrow> char" where
  "hex_digit d = (if d < 10 then char_of (48 + d) else char_of (55 + d))"

text \<open>\<open>%08X\<close> of a 32-bit value.\<close>

definition fmt_08X :: "int \<Rightarrow> string" where
  "fmt_08X n = map (\<lambda>i. hex_digit (nat (n div 16 ^ i mod 16))) [7, 6, 5, 4, 3, 2, 1, 0]"

definition amqp_server_exception_string ::
    "amqp_codes \<Rightarrow> heap \<Rightarrow> amqp_rpc_reply \<Rightarrow> string option res" where
  "amqp_server_exception_string K h r =
     (let finish = (\<lambda>(res, s). if res \<ge> 0 then Some s else None);
          close_text = (\<lambda>prefix.
            case reply_decoded r of
              None \<Rightarrow> Inl NullDeref
            | Some m \<Rightarrow>
                bindr (deref_bytes h (cl_reply_text m)) (\<lambda>txt.
                Inr (finish (snprintf 512
                  (prefix @ fmt_d (cl_reply_code m) @ '', message: '' @ upto_NUL txt))))) in
      if reply_id r = AMQP_CONNECTION_CLOSE_METHOD K then close_text ''server connection error ''
      else if reply_id r = AMQP_CHANNEL_CLOSE_METHOD K then close_text ''server channel error ''
      else Inr (finish (snprintf 512 (''unknown server error, method id 0x'' @ fmt_08X (reply_id r)))))"

definition amqp_rpc_reply_string ::
    "amqp_codes \<Rightarrow> (int \<Rightarrow> string) \<Rightarrow> heap \<Rightarrow> amqp_rpc_reply \<Rightarrow> string option res" where
  "amqp_rpc_reply_string K amqp_error_string2 h r =
     (if reply_type r = AMQP_RESPONSE_NORMAL K then Inr (Some ''normal response'')
      else if reply_type r = AMQP_RESPONSE_NONE K then Inr (Some ''missing RPC reply Type'')
      else if reply_type r = AMQP_RESPONSE_LIBRARY_EXCEPTION K
        then Inr (Some (amqp_error_string2 (library_error r)))
      else if reply_type r = AMQP_RESPONSE_SERVER_EXCEPTION K
        then amqp_server_exception_string K h r
      else Inr (Some ''''))"

section \<open>Building byte strings\<close>

lemma malloc_Null_iff: "malloc n h = (p, h1) \<Longrightarrow> p = Null \<longleftrightarrow> h_oom h (h_next h)"
  by (auto simp: malloc_def split: if_splits)

lemma hare_cstring_bytes_ok:
  "okr (hare_cstring_bytes (c_str s) h)
     (\<lambda>(b, h'). ab_len b = length (upto_NUL s) \<and>
        alloc_spec h (c_str (upto_NUL s)) (ab_bytes b) h' \<and>
        (ab_bytes b = Null \<longleftrightarrow> h_oom h (h_next h)))"
proof -
  obtain p h1 where m: "malloc (Suc (length (upto_NUL s))) h = (p, h1)" by fastforce
  show ?thesis
  proof (cases "p = Null")
    case True
    with m malloc_Null_iff [OF m] show ?thesis
      by (simp add: hare_cstring_bytes_def alloc_spec_malloc_Null)
  next
    case False
    with m obtain h2 where "store p (c_str (upto_NUL s)) h1 = Inr h2"
        "alloc_spec h (c_str (upto_NUL s)) p h2"
      using alloc_spec_malloc_store [of "c_str (upto_NUL s)" h p h1] by (auto elim: okrE)
    with m False malloc_Null_iff [OF m] show ?thesis
      by (simp add: hare_cstring_bytes_def take_c_str)
  qed
qed

lemma hare_void_bytes_ok:
  assumes "0 \<le> sz" and "nat sz \<le> length data" and "sz \<le> INT_MAX"
  shows "okr (hare_void_bytes data sz h)
     (\<lambda>(b, h'). ab_len b = nat sz \<and> alloc_spec h (take (nat sz) data) (ab_bytes b) h' \<and>
        (ab_bytes b = Null \<longleftrightarrow> h_oom h (h_next h)))"
proof -
  have sz: "size_of_int sz = nat sz" using assms by (simp add: size_of_int_def)
  obtain p h1 where m: "malloc (nat sz) h = (p, h1)" by fastforce
  show ?thesis
  proof (cases "p = Null")
    case True
    with m malloc_Null_iff [OF m] show ?thesis
      by (simp add: hare_void_bytes_def sz alloc_spec_malloc_Null)
  next
    case False
    with m assms obtain h2 where "store p (take (nat sz) data) h1 = Inr h2"
        "alloc_spec h (take (nat sz) data) p h2"
      using alloc_spec_malloc_store [of "take (nat sz) data" h p h1]
      by (auto simp: min_absorb2 elim: okrE)
    with m False assms malloc_Null_iff [OF m] show ?thesis
      by (simp add: hare_void_bytes_def sz)
  qed
qed

text \<open>A block built from a C string reads back as the string up to its first terminator.\<close>

lemma alloc_spec_load_c_str:
  assumes "alloc_spec h (c_str s) p h'" and "p \<noteq> Null"
  shows "load h' p (length s) = Inr (map Some s)"
  using assms by (auto simp: alloc_spec_def take_length_c_str)

lemma hare_bytes_to_string_deref: "hare_bytes_to_string h b = deref_bytes h b"
  by (simp add: hare_bytes_to_string_def deref_bytes_def load_bytes_def)

section \<open>Cloning properties\<close>

lemma dup_of_ext: "dup_of h s h' d \<Longrightarrow> heap_le h' h'' \<Longrightarrow> dup_of h s h'' d"
  by (fastforce simp: dup_of_def heap_le_def)

lemma readable_field_ext: "readable_field h f \<Longrightarrow> heap_le h h' \<Longrightarrow> readable_field h' f"
  by (auto simp: readable_field_def okr_def split: option.splits dest: heap_le_load_bytes)

lemma dup_field_step:
  assumes B: "bytes_api_ok B" and wf: "heap_wf h" and ext: "heap_le h0 h"
    and rd: "b \<Longrightarrow> readable_field h0 src"
    and cont: "\<And>d h'. heap_wf h' \<Longrightarrow> heap_le h0 h' \<Longrightarrow> heap_le h h' \<Longrightarrow>
       (if b then dup_of h0 src h' d else d = dst) \<Longrightarrow> okr (f (d, h')) Q"
  shows "okr (bindr (dup_field B b src dst h) f) Q"
proof (cases b)
  case False
  with cont [OF wf ext heap_le_refl] show ?thesis by (simp add: dup_field_def)
next
  case True
  with rd obtain x c where src: "src = Some x" and x: "load_bytes h0 x = Inr c"
    by (auto simp: readable_field_def okr_def split: option.splits)
  from x ext have "load_bytes h x = Inr c" by (rule heap_le_load_bytes [rotated])
  with B obtain y h' where y: "amqp_bytes_malloc_dup B x h = Inr (y, h')" "dup_spec h x c y h'"
    by (auto dest: bytes_api_dup elim!: okrE)
  have e: "heap_le h h'" and w: "heap_wf h'" using wf y(2) by (rule dup_spec_ext, rule dup_spec_wf)
  from y(2) ext have "dup_of h0 src h' (Some y)"
    by (auto simp: dup_of_def src x dup_spec_def alloc_spec_def heap_le_def)
  with cont [OF w heap_le_trans [OF ext e] e, of "Some y"] True y(1) src show ?thesis
    by (simp add: dup_field_def)
qed

lemma dup_choice_ext:
  "(if b then dup_of h s h' d else d = e) \<Longrightarrow> heap_le h' h'' \<Longrightarrow>
     (if b then dup_of h s h'' d else d = e)"
  by (auto intro: dup_of_ext)

lemma props_dup_ok:
  assumes B: "bytes_api_ok B" and wf: "heap_wf h" and "props_readable F h p"
  shows "okr (hare_basic_properties_malloc_dup F B p cl h)
     (\<lambda>(q, h'). heap_wf h' \<and> heap_le h h' \<and> props_clone F h p cl h' q)"
proof -
  note flds = byte_fields_def [of F]
  note rd = assms(3) [unfolded props_readable_def flds, simplified]
  show ?thesis
    unfolding hare_basic_properties_malloc_dup_def Let_def
    apply (insert wf heap_le_refl [of h])
    apply ((rule dup_field_step [OF B], assumption, assumption, simp add: rd,
            simp only: prod.case)+)
    apply (simp only: okr_Inr prod.case props_clone_def flds list.pred_inject simp_thms
        amqp_basic_properties.simps)
    apply (intro conjI)
               apply (assumption | erule dup_choice_ext | erule heap_le_trans)+
    done
qed

section \<open>Texts\<close>

text \<open>The text of a byte string that can be read.\<close>

definition text_at :: "heap \<Rightarrow> amqp_bytes \<Rightarrow> string" where
  "text_at hp b = (case deref_bytes hp b of Inl _ \<Rightarrow> [] | Inr t \<Rightarrow> t)"

lemma chars_length: "chars bs = Inr t \<Longrightarrow> length t = length bs"
  by (induction bs arbitrary: t rule: chars.induct) (auto simp: bindr_eq_Inr_iff)

lemma deref_bytes_length: "deref_bytes h b = Inr t \<Longrightarrow> length t = ab_len b"
  by (auto simp: deref_bytes_def bindr_eq_Inr_iff dest!: chars_length load_bytes_length)

end
