(* ===== verification/Reference_Platform.thy ===== *)
theory Reference_Platform
  imports Amqp
begin

text \<open>
  A concrete instance of the constants and the byte-string helpers that theory \<open>Amqp\<close> leaves
  open, with the values of rabbitmq-c 0.10, on which the hypotheses \<open>basic_flags_ok\<close>,
  \<open>amqp_codes_ok\<close> and \<open>bytes_api_ok\<close> hold. The witnesses evaluate the model on it.
\<close>

definition ref_flags :: basic_flags where
  "ref_flags =
     \<lparr>AMQP_BASIC_CONTENT_TYPE_FLAG = 32768, AMQP_BASIC_CONTENT_ENCODING_FLAG = 16384,
      AMQP_BASIC_CORRELATION_ID_FLAG = 1024, AMQP_BASIC_REPLY_TO_FLAG = 512,
      AMQP_BASIC_EXPIRATION_FLAG = 256, AMQP_BASIC_MESSAGE_ID_FLAG = 128,
      AMQP_BASIC_TIMESTAMP_FLAG = 64, AMQP_BASIC_TYPE_FLAG = 32,
      AMQP_BASIC_USER_ID_FLAG = 16, AMQP_BASIC_APP_ID_FLAG = 8,
      AMQP_BASIC_CLUSTER_ID_FLAG = 4\<rparr>"

definition ref_codes :: amqp_codes where
  "ref_codes =
     \<lparr>AMQP_RESPONSE_NONE = 0, AMQP_RESPONSE_NORMAL = 1,
      AMQP_RESPONSE_LIBRARY_EXCEPTION = 2, AMQP_RESPONSE_SERVER_EXCEPTION = 3,
      AMQP_CONNECTION_CLOSE_METHOD = 655410, AMQP_CHANNEL_CLOSE_METHOD = 1310760,
      AMQP_CHANNEL_CLOSE_OK_METHOD = 1310761, AMQP_STATUS_OK = 0,
      AMQP_STATUS_INCOMPATIBLE_AMQP_VERSION = - 6, AMQP_STATUS_CONNECTION_CLOSED = - 7,
      AMQP_STATUS_INVALID_PARAMETER = - 10, AMQP_STATUS_SOCKET_ERROR = - 9,
      AMQP_STATUS_TIMEOUT = - 13, AMQP_STATUS_SOCKET_CLOSED = - 17,
      AMQP_STATUS_SSL_CONNECTION_FAILED = - 515,
      AMQP_STATUS_SSL_HOSTNAME_VERIFY_FAILED = - 513, AMQP_STATUS_UNEXPECTED_STATE = - 16,
      AMQP_REPLY_SUCCESS = 200, AMQP_SASL_METHOD_PLAIN = 0\<rparr>"

definition ref_malloc_dup :: "amqp_bytes \<Rightarrow> heap \<Rightarrow> (amqp_bytes \<times> heap) res" where
  "ref_malloc_dup b h =
     bindr (load_bytes h b) (\<lambda>c.
     case malloc (ab_len b) h of (p, h1) \<Rightarrow>
       if p = Null then Inr (b\<lparr>ab_bytes := Null\<rparr>, h1)
       else bindr (store p c h1) (\<lambda>h2. Inr (b\<lparr>ab_bytes := p\<rparr>, h2)))"

definition ref_bapi :: bytes_api where
  "ref_bapi =
     \<lparr>amqp_bytes_malloc_dup = ref_malloc_dup,
      amqp_bytes_free = (\<lambda>b h. free (ab_bytes b) h),
      amqp_cstring_bytes = (\<lambda>p h. bindr (mem_at h p) (\<lambda>m. bindr (strlen m) (\<lambda>n.
        Inr \<lparr>ab_len = n, ab_bytes = p\<rparr>))),
      amqp_empty_bytes = \<lparr>ab_len = 0, ab_bytes = Null\<rparr>,
      amqp_empty_table = \<lparr>tb_num_entries = 0, tb_entries = Null\<rparr>\<rparr>"

lemma ref_flags_ok: "basic_flags_ok ref_flags"
  by (simp add: basic_flags_ok_def flag_list_def ref_flags_def)

lemma ref_codes_ok: "amqp_codes_ok ref_codes"
  by (simp add: amqp_codes_ok_def response_list_def status_list_def ref_codes_def)

lemma ref_malloc_dup_ok:
  assumes c: "load_bytes h b = Inr c"
  shows "okr (ref_malloc_dup b h) (\<lambda>(b', h'). dup_spec h b c b' h')"
proof -
  obtain p h1 where m: "malloc (ab_len b) h = (p, h1)" by fastforce
  show ?thesis
  proof (cases "p = Null")
    case True
    with m c show ?thesis by (simp add: ref_malloc_dup_def dup_spec_def alloc_spec_malloc_Null)
  next
    case False
    with m load_bytes_length [OF c] obtain h2 where "store p c h1 = Inr h2" "alloc_spec h c p h2"
      using alloc_spec_malloc_store [of c h p h1] by (auto elim: okrE)
    with m False c show ?thesis by (simp add: ref_malloc_dup_def dup_spec_def)
  qed
qed

lemma ref_bapi_ok: "bytes_api_ok ref_bapi"
  by (simp add: bytes_api_ok_def ref_bapi_def ref_malloc_dup_ok)

section \<open>A scripted broker\<close>

text \<open>
  A small instance of the connection functions: replies, status codes and deliveries come from
  scripts in the world (a normal reply, success and a timeout when a script is used up), and
  what is published is recorded.
\<close>

record ref_world =
  rw_replies :: "amqp_rpc_reply list"
  rw_statuses :: "int list"
  rw_inbox :: "amqp_envelope list"
  rw_published :: "(nat \<times> string \<times> string \<times> string) list"

definition normal_reply :: amqp_rpc_reply where
  "normal_reply = \<lparr>reply_type = 1, reply_id = 0, reply_decoded = None, library_error = 0\<rparr>"

definition library_reply :: "int \<Rightarrow> amqp_rpc_reply" where
  "library_reply e = \<lparr>reply_type = 2, reply_id = 0, reply_decoded = None, library_error = e\<rparr>"

definition server_reply :: "int \<Rightarrow> amqp_rpc_reply" where
  "server_reply i = \<lparr>reply_type = 3, reply_id = i, reply_decoded = None, library_error = 0\<rparr>"

definition next_reply :: "ref_world \<Rightarrow> amqp_rpc_reply \<times> ref_world" where
  "next_reply w =
     (case rw_replies w of
        [] \<Rightarrow> (normal_reply, w)
      | r # rs \<Rightarrow> (r, w\<lparr>rw_replies := rs\<rparr>))"

definition next_status :: "ref_world \<Rightarrow> int \<times> ref_world" where
  "next_status w =
     (case rw_statuses w of [] \<Rightarrow> (0, w) | x # xs \<Rightarrow> (x, w\<lparr>rw_statuses := xs\<rparr>))"

definition ref_queue_declare :: "heap \<Rightarrow> ref_world \<Rightarrow> amqp_bytes option \<times> heap \<times> ref_world" where
  "ref_queue_declare h w =
     (let h1 = h\<lparr>h_next := Suc (h_next h), h_blocks := (h_blocks h)(h_next h \<mapsto> map Some ''amq.gen'')\<rparr> in
      (Some \<lparr>ab_len = 7, ab_bytes = Ptr (h_next h)\<rparr>, h1, w))"

definition ref_api :: "ref_world amqp_api" where
  "ref_api =
     \<lparr>amqp_new_connection = (\<lambda>w. (Ptr 1, w)),
      amqp_tcp_socket_new = (\<lambda>c w. (Ptr 2, w)),
      amqp_socket_open_noblock = (\<lambda>k host port t w. next_status w),
      amqp_login = (\<lambda>c vhost cm fm hb sasl user pw w. next_reply w),
      amqp_connection_close = (\<lambda>c code w. next_reply w),
      amqp_destroy_connection = (\<lambda>c w. w),
      amqp_exchange_declare = (\<lambda>c ch ex ty p d a i tb w. w),
      amqp_get_rpc_reply = (\<lambda>c w. next_reply w),
      amqp_channel_open = (\<lambda>c ch w. w),
      amqp_send_method = (\<lambda>c ch m w. (0, w)),
      amqp_channel_close = (\<lambda>c ch code w. w),
      amqp_basic_publish = (\<lambda>c ch ex rk ma im p fs body w.
        let (r, w1) = next_status w in
        (r, if r < 0 then w1 else w1\<lparr>rw_published := rw_published w1 @ [(ch, ex, rk, body)]\<rparr>)),
      amqp_consume_message = (\<lambda>c t fl h w.
        case rw_inbox w of
          [] \<Rightarrow> (library_reply (- 13), None, h, w)
        | e # es \<Rightarrow> (normal_reply, Some e, h, w\<lparr>rw_inbox := es\<rparr>)),
      amqp_basic_consume = (\<lambda>c ch q tag nl na ex tb w. w),
      amqp_queue_declare = (\<lambda>c ch q p d e a tb h w. ref_queue_declare h w),
      amqp_queue_bind = (\<lambda>c ch q ex bk tb w. w),
      amqp_maybe_release_buffers = (\<lambda>c h w. (h, w)),
      amqp_destroy_envelope = (\<lambda>e h w. (h, w))\<rparr>"

definition ref_runtime :: "'w runtime" where
  "ref_runtime =
     \<lparr>system_clock_now = (\<lambda>w. 1000), channel_order = (\<lambda>w ks. ks), exchange_order = (\<lambda>w ks. ks)\<rparr>"

definition ref_platform :: "ref_world platform" where
  "ref_platform =
     \<lparr>flags = ref_flags, codes = ref_codes, bapi = ref_bapi, api = ref_api, runtime = ref_runtime\<rparr>"

lemma ref_platform_sel [simp]:
  "flags ref_platform = ref_flags" "codes ref_platform = ref_codes" "bapi ref_platform = ref_bapi"
  "api ref_platform = ref_api" "runtime ref_platform = ref_runtime"
  by (simp_all add: ref_platform_def)

lemma ref_platform_ok: "platform_ok ref_platform"
  by (simp add: platform_ok_def ref_flags_ok ref_codes_ok ref_bapi_ok runtime_ok_def
      ref_runtime_def permuting_def)

text \<open>An empty heap and a broker that answers everything normally.\<close>

definition quiet_world :: ref_world where
  "quiet_world = \<lparr>rw_replies = [], rw_statuses = [], rw_inbox = [], rw_published = []\<rparr>"

definition quiet_rt :: "ref_world rt" where
  "quiet_rt = \<lparr>rt_heap = empty_heap, rt_world = quiet_world\<rparr>"

end
