(* ===== verification/Message.thy ===== *)
theory Message
  imports Utils Reference_Platform
begin

text \<open>
  The class \<open>Message\<close> (\<open>include/Message.hpp\<close>, \<open>src/Message.cpp\<close>): a body and AMQP properties
  over explicitly managed memory. The body and the byte-string properties are pointers into the
  heap of theory \<open>Memory\<close>, so that ownership, aliasing and lifetime are visible. A
  \<open>const char*\<close> that is only read is the memory readable behind it (\<open>byte list\<close>); one that
  is stored is a pointer.
\<close>

section \<open>State\<close>

text \<open>A body that was never assigned is indeterminate.\<close>

record Message =
  m_body :: "amqp_bytes option"
  m_bodyHasBeenSet :: bool
  m_properties :: amqp_basic_properties

section \<open>Construction, assignment, destruction\<close>

definition Message_default :: Message where
  "Message_default =
     \<lparr>m_body = None, m_bodyHasBeenSet = False,
      m_properties = indeterminate_properties\<lparr>p_flags := 0\<rparr>\<rparr>"

definition Message_move_string :: "string \<Rightarrow> heap \<Rightarrow> (Message \<times> heap) res" where
  "Message_move_string message h =
     bindr (hare_cstring_bytes (c_str message) h) (\<lambda>(b, h').
     Inr (\<lparr>m_body = Some b, m_bodyHasBeenSet = True,
           m_properties = indeterminate_properties\<lparr>p_flags := 0\<rparr>\<rparr>, h'))"

definition Message_string :: "string \<Rightarrow> heap \<Rightarrow> (Message \<times> heap) res" where
  "Message_string message h =
     bindr (hare_cstring_bytes (c_str message) h) (\<lambda>(b, h').
     Inr (\<lparr>m_body = Some b, m_bodyHasBeenSet = True,
           m_properties = indeterminate_properties\<lparr>p_flags := 0\<rparr>\<rparr>, h'))"

definition Message_envelope ::
    "basic_flags \<Rightarrow> bytes_api \<Rightarrow> amqp_envelope \<Rightarrow> heap \<Rightarrow> (Message \<times> heap) res" where
  "Message_envelope F B envelope h =
     bindr (amqp_bytes_malloc_dup B (env_body envelope) h) (\<lambda>(b, h1).
     bindr (hare_basic_properties_malloc_dup F B (env_properties envelope)
              indeterminate_properties h1) (\<lambda>(q, h2).
     Inr (\<lparr>m_body = Some b, m_bodyHasBeenSet = True, m_properties = q\<rparr>, h2)))"

definition Message_copy ::
    "basic_flags \<Rightarrow> bytes_api \<Rightarrow> Message \<Rightarrow> heap \<Rightarrow> (Message \<times> heap) res" where
  "Message_copy F B copiedFrom h =
     bindr (hare_basic_properties_malloc_dup F B (m_properties copiedFrom)
              indeterminate_properties h) (\<lambda>(q, h1).
     case m_body copiedFrom of
       None \<Rightarrow> Inl UninitRead
     | Some b \<Rightarrow>
         bindr (amqp_bytes_malloc_dup B b h1) (\<lambda>(b', h2).
         Inr (\<lparr>m_body = Some b', m_bodyHasBeenSet = m_bodyHasBeenSet copiedFrom,
               m_properties = q\<rparr>, h2)))"

text \<open>The defaulted copy assignment copies member by member.\<close>

definition Message_assign :: "Message \<Rightarrow> Message \<Rightarrow> Message" where
  "Message_assign this other =
     this\<lparr>m_body := m_body other, m_bodyHasBeenSet := m_bodyHasBeenSet other,
          m_properties := m_properties other\<rparr>"

definition Message_destroy :: "Message \<Rightarrow> heap \<Rightarrow> heap res" where
  "Message_destroy m h =
     (if m_bodyHasBeenSet m
      then case m_body m of None \<Rightarrow> Inl UninitRead | Some b \<Rightarrow> free (ab_bytes b) h
      else Inr h)"

section \<open>Accessors\<close>

definition AmqpProperties :: "Message \<Rightarrow> amqp_basic_properties" where
  "AmqpProperties m = m_properties m"

definition Message_String :: "heap \<Rightarrow> Message \<Rightarrow> string res" where
  "Message_String h m =
     (if m_bodyHasBeenSet m
      then case m_body m of
             None \<Rightarrow> Inl UninitRead
           | Some b \<Rightarrow> bindr (load h (ab_bytes b) (ab_len b)) chars
      else Inr '''')"

definition Payload :: "Message \<Rightarrow> ptr res" where
  "Payload m =
     (if m_bodyHasBeenSet m
      then case m_body m of None \<Rightarrow> Inl UninitRead | Some b \<Rightarrow> Inr (ab_bytes b)
      else Inr Null)"

definition Bytes :: "Message \<Rightarrow> amqp_bytes option" where
  "Bytes m = m_body m"

text \<open>The \<open>size_t\<close> length is returned as an \<open>unsigned int\<close>.\<close>

definition Length :: "Message \<Rightarrow> 32 word res" where
  "Length m =
     (if m_bodyHasBeenSet m
      then case m_body m of None \<Rightarrow> Inl UninitRead | Some b \<Rightarrow> Inr (word_of_nat (ab_len b))
      else Inr 0)"

section \<open>Properties\<close>

text \<open>
  Both overloads of \<open>SetReplyTo\<close> and \<open>SetCorrelationId\<close> store the pointer they are given:
  \<open>p\<close> is the caller's C string, for the first overload the buffer of its \<open>std::string\<close>.
\<close>

definition SetReplyTo ::
    "basic_flags \<Rightarrow> bytes_api \<Rightarrow> heap \<Rightarrow> ptr \<Rightarrow> Message \<Rightarrow> Message res" where
  "SetReplyTo F B h p m =
     bindr (amqp_cstring_bytes B p h) (\<lambda>b.
     Inr (m\<lparr>m_properties := (m_properties m)
              \<lparr>p_flags := p_flags (m_properties m) OR AMQP_BASIC_REPLY_TO_FLAG F,
               p_reply_to := Some b\<rparr>\<rparr>))"

definition ReplyToIsSet :: "basic_flags \<Rightarrow> Message \<Rightarrow> bool" where
  "ReplyToIsSet F m \<longleftrightarrow> has_flag (AMQP_BASIC_REPLY_TO_FLAG F) (p_flags (m_properties m))"

definition ReplyTo :: "basic_flags \<Rightarrow> heap \<Rightarrow> Message \<Rightarrow> string res" where
  "ReplyTo F h m =
     (if ReplyToIsSet F m
      then case p_reply_to (m_properties m) of
             None \<Rightarrow> Inl UninitRead
           | Some b \<Rightarrow> hare_bytes_to_string h b
      else Inr '''')"

definition SetPayload :: "byte list \<Rightarrow> Message \<Rightarrow> heap \<Rightarrow> (Message \<times> heap) res" where
  "SetPayload payload m h =
     bindr (hare_cstring_bytes payload h) (\<lambda>(b, h').
     Inr (m\<lparr>m_bodyHasBeenSet := True, m_body := Some b\<rparr>, h'))"

definition SetPayload_void :: "byte list \<Rightarrow> int \<Rightarrow> Message \<Rightarrow> heap \<Rightarrow> (Message \<times> heap) res" where
  "SetPayload_void payload sz m h =
     bindr (hare_void_bytes payload sz h) (\<lambda>(b, h').
     Inr (m\<lparr>m_bodyHasBeenSet := True, m_body := Some b\<rparr>, h'))"

definition TimestampIsSet :: "basic_flags \<Rightarrow> Message \<Rightarrow> bool" where
  "TimestampIsSet F m \<longleftrightarrow> has_flag (AMQP_BASIC_TIMESTAMP_FLAG F) (p_flags (m_properties m))"

definition SetTimestamp :: "basic_flags \<Rightarrow> 64 word \<Rightarrow> Message \<Rightarrow> Message" where
  "SetTimestamp F timestamp m =
     m\<lparr>m_properties := (m_properties m)
         \<lparr>p_flags := p_flags (m_properties m) OR AMQP_BASIC_TIMESTAMP_FLAG F,
          p_timestamp := Some timestamp\<rparr>\<rparr>"

definition Timestamp :: "basic_flags \<Rightarrow> Message \<Rightarrow> 64 word res" where
  "Timestamp F m =
     (if TimestampIsSet F m
      then case p_timestamp (m_properties m) of None \<Rightarrow> Inl UninitRead | Some t \<Rightarrow> Inr t
      else Inr 0)"

definition SetCorrelationId ::
    "basic_flags \<Rightarrow> bytes_api \<Rightarrow> heap \<Rightarrow> ptr \<Rightarrow> Message \<Rightarrow> Message res" where
  "SetCorrelationId F B h p m =
     bindr (amqp_cstring_bytes B p h) (\<lambda>b.
     Inr (m\<lparr>m_properties := (m_properties m)
              \<lparr>p_flags := p_flags (m_properties m) OR AMQP_BASIC_CORRELATION_ID_FLAG F,
               p_correlation_id := Some b\<rparr>\<rparr>))"

definition HasCorrelationId :: "basic_flags \<Rightarrow> Message \<Rightarrow> bool" where
  "HasCorrelationId F m \<longleftrightarrow>
     has_flag (AMQP_BASIC_CORRELATION_ID_FLAG F) (p_flags (m_properties m))"

section \<open>Well-formed messages\<close>

text \<open>
  The body, when set, is a byte string that can be read, and so are the flagged properties.
  Without a body (or after a failed allocation of one) the accessors are still defined.
\<close>

definition body_readable :: "heap \<Rightarrow> Message \<Rightarrow> bool" where
  "body_readable h m =
     (case m_body m of None \<Rightarrow> False | Some b \<Rightarrow> okr (load_bytes h b) (\<lambda>_. True))"

definition message_wf :: "basic_flags \<Rightarrow> heap \<Rightarrow> Message \<Rightarrow> bool" where
  "message_wf F h m \<longleftrightarrow> body_readable h m \<and> props_readable F h (m_properties m)"

lemma body_readableE:
  assumes "body_readable h m"
  obtains b c where "m_body m = Some b" and "load_bytes h b = Inr c"
  using assms by (auto simp: body_readable_def okr_def split: option.splits)

lemma props_readable_le: "props_readable F h p \<Longrightarrow> heap_le h h' \<Longrightarrow> props_readable F h' p"
  by (auto simp: props_readable_def list_all_iff intro: readable_field_ext)

lemma body_readable_le: "body_readable h m \<Longrightarrow> heap_le h h' \<Longrightarrow> body_readable h' m"
  by (auto simp: body_readable_def okr_def split: option.splits dest: heap_le_load_bytes)

lemma message_wf_le: "message_wf F h m \<Longrightarrow> heap_le h h' \<Longrightarrow> message_wf F h' m"
  by (auto simp: message_wf_def intro: body_readable_le props_readable_le)

lemma Message_String_le:
  "heap_le h h' \<Longrightarrow> Message_String h m = Inr s \<Longrightarrow> Message_String h' m = Inr s"
  by (auto simp: Message_String_def bindr_eq_Inr_iff split: if_splits option.splits
      dest: heap_le_load)

lemma props_readable_no_flags: "basic_flags_ok F \<Longrightarrow> p_flags p = 0 \<Longrightarrow> props_readable F h p"
  by (auto simp: props_readable_def byte_fields_def basic_flags_ok_def flag_list_def)

section \<open>Bodies\<close>

text \<open>Everything the constructors from a string and \<open>SetPayload\<close> establish about the body.\<close>

definition holds_text :: "heap \<Rightarrow> string \<Rightarrow> heap \<Rightarrow> Message \<Rightarrow> bool" where
  "holds_text h s h' m \<longleftrightarrow>
     m_bodyHasBeenSet m \<and> heap_wf h' \<and> heap_le h h' \<and>
     (\<exists>b. m_body m = Some b \<and> ab_len b = length (upto_NUL s) \<and>
        alloc_spec h (c_str (upto_NUL s)) (ab_bytes b) h' \<and>
        (ab_bytes b = Null \<longleftrightarrow> h_oom h (h_next h)))"

lemma Message_string_ok:
  assumes "heap_wf h"
  shows "okr (Message_string s h)
     (\<lambda>(m, h'). holds_text h s h' m \<and> p_flags (m_properties m) = 0)"
  using hare_cstring_bytes_ok [of s h] assms
  by (fastforce simp: Message_string_def wp holds_text_def indeterminate_properties_def
      elim!: okr_mono dest: alloc_spec_ext alloc_spec_wf)

lemma SetPayload_ok:
  assumes "heap_wf h"
  shows "okr (SetPayload (c_str s) m h)
     (\<lambda>(m', h'). holds_text h s h' m' \<and> m_properties m' = m_properties m)"
  using hare_cstring_bytes_ok [of s h] assms
  by (fastforce simp: SetPayload_def wp holds_text_def elim!: okr_mono
      dest: alloc_spec_ext alloc_spec_wf)

lemma holds_text_available:
  assumes "holds_text h s h' m" and "\<not> h_oom h (h_next h)"
  obtains b a where "m_body m = Some b" and "ab_len b = length (upto_NUL s)"
    and "ab_bytes b = Ptr a" and "h_next h \<le> a" and "m_bodyHasBeenSet m"
    and "h_blocks h' = (h_blocks h)(a \<mapsto> c_str (upto_NUL s))"
  using assms by (auto simp: holds_text_def alloc_spec_def)

lemma holds_text_reads:
  assumes "holds_text h s h' m" and "\<not> h_oom h (h_next h)"
  shows "Message_String h' m = Inr (upto_NUL s)"
    and "Length m = Inr (word_of_nat (length (upto_NUL s)))"
    and "okr (Payload m) (\<lambda>p. mem_at h' p = Inr (c_str (upto_NUL s)))"
  by (rule holds_text_available [OF assms];
      simp add: Message_String_def Length_def Payload_def take_length_c_str)+

text \<open>
  C30. A message built from a string, when memory is available, reads back as that string up to
  its first NUL byte: \<open>String()\<close> and \<open>Length()\<close> agree with it, and the pointer that
  \<open>Payload()\<close> returns addresses a terminated C string with the same characters. The heap only
  grows.
\<close>

theorem message_string_roundtrip:
  assumes "heap_wf h" and "\<not> h_oom h (h_next h)"
  shows "okr (Message_string s h) (\<lambda>(m, h').
     Message_String h' m = Inr (upto_NUL s) \<and>
     Length m = Inr (word_of_nat (length (upto_NUL s))) \<and>
     okr (Payload m) (\<lambda>p. mem_at h' p = Inr (c_str (upto_NUL s))) \<and>
     heap_wf h' \<and> heap_le h h')"
  using Message_string_ok [OF assms(1), of s] holds_text_reads [OF _ assms(2), of s]
  by (auto elim!: okr_mono simp: holds_text_def)

theorem message_string_roundtrip_witness:
  "okr (Message_string ''hi'' empty_heap) (\<lambda>(m, h').
     Message_String h' m = Inr (upto_NUL ''hi'') \<and>
     Length m = Inr (word_of_nat (length (upto_NUL ''hi''))) \<and>
     okr (Payload m) (\<lambda>p. mem_at h' p = Inr (c_str (upto_NUL ''hi''))) \<and>
     heap_wf h' \<and> heap_le empty_heap h')"
  by (rule message_string_roundtrip) (simp_all add: empty_heap_def heap_wf_def)

text \<open>
  The error path of the constructor: when the allocation fails, the message still claims a
  body of the full length, \<open>Payload()\<close> is null and \<open>String()\<close> dereferences a null pointer.
\<close>

theorem message_string_out_of_memory:
  assumes "heap_wf h" and "h_oom h (h_next h)" and "upto_NUL s \<noteq> ''''"
  shows "okr (Message_string s h) (\<lambda>(m, h').
     Payload m = Inr Null \<and> Length m = Inr (word_of_nat (length (upto_NUL s))) \<and>
     Message_String h' m = Inl NullDeref)"
  using Message_string_ok [OF assms(1), of s] assms(2,3)
  by (auto elim!: okr_mono
      simp: holds_text_def Payload_def Length_def Message_String_def)

theorem message_string_out_of_memory_witness:
  "okr (Message_string ''hi'' (empty_heap\<lparr>h_oom := \<lambda>_. True\<rparr>)) (\<lambda>(m, h').
     Payload m = Inr Null \<and> Length m = Inr (word_of_nat (length (upto_NUL ''hi''))) \<and>
     Message_String h' m = Inl NullDeref)"
  by (rule message_string_out_of_memory)
     (simp_all add: empty_heap_def heap_wf_def upto_NUL_def NUL_def)

text \<open>
  Destroying a message built from a string frees its body and nothing else: the blocks of
  the heap are afterwards exactly those from before the construction.
\<close>

theorem message_string_destroy_restores:
  assumes "heap_wf h"
  shows "okr (bindr (Message_string s h) (\<lambda>(m, h'). Message_destroy m h'))
     (\<lambda>h''. h_blocks h'' = h_blocks h)"
proof -
  have "okr (Message_destroy m h') (\<lambda>h''. h_blocks h'' = h_blocks h)"
    if "holds_text h s h' m" for m h'
    using that heap_wf_fresh [OF assms]
    by (auto simp: holds_text_def Message_destroy_def alloc_spec_def fun_upd_idem)
  with Message_string_ok [OF assms, of s] show ?thesis
    by (auto simp: wp elim!: okr_mono)
qed

theorem message_string_destroy_restores_witness:
  "okr (bindr (Message_string ''hi'' empty_heap) (\<lambda>(m, h'). Message_destroy m h'))
     (\<lambda>h''. h_blocks h'' = h_blocks empty_heap)"
  by (rule message_string_destroy_restores) simp

text \<open>
  \<open>SetPayload\<close> on a message that already has a body drops the old block without freeing it:
  after the message is destroyed the old body is still allocated.
\<close>

theorem set_payload_leaks_old_body:
  assumes "heap_wf h" and "\<not> h_oom h (h_next h)"
  shows "okr (bindr (Message_string s h) (\<lambda>(m1, h1).
              bindr (SetPayload (c_str t) m1 h1) (\<lambda>(m2, h2). Message_destroy m2 h2)))
     (\<lambda>h3. \<exists>a. h_blocks h a = None \<and> h_blocks h3 = (h_blocks h)(a \<mapsto> c_str (upto_NUL s)))"
proof -
  have "okr (bindr (SetPayload (c_str t) m1 h1) (\<lambda>(m2, h2). Message_destroy m2 h2))
      (\<lambda>h3. \<exists>a. h_blocks h a = None \<and> h_blocks h3 = (h_blocks h)(a \<mapsto> c_str (upto_NUL s)))"
    if m1: "holds_text h s h1 m1" for m1 h1
  proof -
    from m1 assms(2) obtain a where a: "h_next h \<le> a"
        "h_blocks h1 = (h_blocks h)(a \<mapsto> c_str (upto_NUL s))" and wf: "heap_wf h1"
      by (auto simp: holds_text_def alloc_spec_def)
    have "okr (Message_destroy m2 h2) (\<lambda>h3. h_blocks h3 = h_blocks h1)"
      if "holds_text h1 t h2 m2" for m2 h2
      using that heap_wf_fresh [OF wf]
      by (auto simp: holds_text_def Message_destroy_def alloc_spec_def fun_upd_idem)
    then have "okr (Message_destroy m2 h2)
        (\<lambda>h3. \<exists>a. h_blocks h a = None \<and> h_blocks h3 = (h_blocks h)(a \<mapsto> c_str (upto_NUL s)))"
      if "holds_text h1 t h2 m2" for m2 h2
      using that a heap_wf_fresh [OF assms(1) a(1)] by (fastforce elim!: okr_mono)
    then show ?thesis by (intro okr_bindI [OF SetPayload_ok [OF wf]]) simp
  qed
  then show ?thesis by (intro okr_bindI [OF Message_string_ok [OF assms(1)]]) simp
qed

theorem set_payload_leaks_old_body_witness:
  "okr (bindr (Message_string ''a'' empty_heap) (\<lambda>(m1, h1).
        bindr (SetPayload (c_str ''b'') m1 h1) (\<lambda>(m2, h2). Message_destroy m2 h2)))
     (\<lambda>h3. \<exists>a. h_blocks empty_heap a = None \<and>
        h_blocks h3 = (h_blocks empty_heap)(a \<mapsto> c_str (upto_NUL ''a'')))"
  by (rule set_payload_leaks_old_body) (simp_all add: empty_heap_def heap_wf_def)

section \<open>Copies\<close>

lemma Message_copy_ok:
  assumes B: "bytes_api_ok B" and wf: "heap_wf h" and m: "message_wf F h m"
  shows "okr (Message_copy F B m h) (\<lambda>(m', h').
     heap_wf h' \<and> heap_le h h' \<and> m_bodyHasBeenSet m' = m_bodyHasBeenSet m \<and>
     (\<exists>h1. heap_le h h1 \<and> heap_le h1 h' \<and>
        props_clone F h (m_properties m) indeterminate_properties h1 (m_properties m')) \<and>
     dup_of h (m_body m) h' (m_body m'))"
proof -
  from m have body: "body_readable h m" and p: "props_readable F h (m_properties m)"
    by (simp_all add: message_wf_def)
  from body obtain b c where b: "m_body m = Some b" "load_bytes h b = Inr c"
    by (rule body_readableE)
  obtain q h1 where q: "hare_basic_properties_malloc_dup F B (m_properties m)
        indeterminate_properties h = Inr (q, h1)" "heap_wf h1" "heap_le h h1"
      "props_clone F h (m_properties m) indeterminate_properties h1 q"
    using props_dup_ok [OF B wf p, of indeterminate_properties] by (auto elim!: okrE)
  from b(2) q(3) have "load_bytes h1 b = Inr c" by (rule heap_le_load_bytes [rotated])
  with B obtain b' h2 where d: "amqp_bytes_malloc_dup B b h1 = Inr (b', h2)"
      "dup_spec h1 b c b' h2"
    by (auto dest: bytes_api_dup elim!: okrE)
  have "heap_le h1 h2" "heap_wf h2" using q(2) d(2) by (auto dest: dup_spec_ext dup_spec_wf)
  moreover have "dup_of h (Some b) h2 (Some b')"
    using b(2) d(2) q(3) by (auto simp: dup_of_def dup_spec_def alloc_spec_def heap_le_def)
  ultimately show ?thesis
    using q d(1) b(1) by (auto simp: Message_copy_def intro: heap_le_trans)
qed

lemma dup_of_body_String:
  assumes "dup_of h (m_body m) h' (m_body m')" and "heap_le h h'"
    and "m_bodyHasBeenSet m' = m_bodyHasBeenSet m" and "Payload m' \<noteq> Inr Null \<or> \<not> m_bodyHasBeenSet m"
  shows "Message_String h' m' = Message_String h m"
  using assms load_bytes_length
  by (fastforce simp: dup_of_def Message_String_def Payload_def load_bytes_def split: if_splits)

lemma dup_of_body_Length:
  "dup_of h (m_body m) h' (m_body m') \<Longrightarrow> m_bodyHasBeenSet m' = m_bodyHasBeenSet m \<Longrightarrow>
     Length m' = Length m"
  by (auto simp: Length_def dup_of_def)

lemma dup_of_body_destroy:
  assumes wf: "heap_wf h" and d: "dup_of h (m_body m) h' (m_body m')" and le: "heap_le h h'"
  shows "okr (Message_destroy m' h')
     (\<lambda>h''. heap_le h h'' \<and> Message_String h'' m = Message_String h m)"
proof -
  have ok: "okr (Message_destroy m' h') (\<lambda>h''. heap_le h h'')"
    using d le heap_wf_fresh [OF wf] by (auto simp: dup_of_def Message_destroy_def heap_le_def)
  have str: "Message_String h'' m = Message_String h m" if "heap_le h h''" for h''
  proof -
    from d obtain b c where b: "m_body m = Some b" "load h (ab_bytes b) (ab_len b) = Inr c"
      by (auto simp: dup_of_def load_bytes_def)
    from heap_le_load [OF that b(2)] b show ?thesis by (simp add: Message_String_def)
  qed
  show ?thesis by (rule okr_mono [OF ok]) (intro conjI str)
qed

text \<open>
  C26. The copy constructor makes an independent copy of a well-formed message. The copy has the
  same length, the same flags and timestamp, and (if its allocation succeeded) the same text;
  destroying the copy does not fail and leaves every block that existed before untouched, so
  the original still reads the same.
\<close>

theorem message_copy_independent:
  assumes "bytes_api_ok B" and "heap_wf h" and "message_wf F h m"
  shows "okr (Message_copy F B m h) (\<lambda>(m', h').
     Length m' = Length m \<and> p_flags (m_properties m') = p_flags (m_properties m) \<and>
     Timestamp F m' = Timestamp F m \<and>
     (Payload m' \<noteq> Inr Null \<longrightarrow> Message_String h' m' = Message_String h m) \<and>
     okr (Message_destroy m' h') (\<lambda>h''. heap_le h h'' \<and>
        Message_String h'' m = Message_String h m))"
proof (rule okr_pairI [OF Message_copy_ok [OF assms]], elim conjE exE, intro conjI impI)
  fix m' :: Message and h' h1
  assume le: "heap_le h h'" and d: "dup_of h (m_body m) h' (m_body m')"
    and set: "m_bodyHasBeenSet m' = m_bodyHasBeenSet m"
    and q: "props_clone F h (m_properties m) indeterminate_properties h1 (m_properties m')"
  show "Length m' = Length m" using d set by (rule dup_of_body_Length)
  show "p_flags (m_properties m') = p_flags (m_properties m)"
    and "Timestamp F m' = Timestamp F m"
    using q by (simp_all add: props_clone_def Timestamp_def TimestampIsSet_def)
  show "okr (Message_destroy m' h')
      (\<lambda>h''. heap_le h h'' \<and> Message_String h'' m = Message_String h m)"
    using assms(2) d le by (rule dup_of_body_destroy)
  show "Message_String h' m' = Message_String h m" if "Payload m' \<noteq> Inr Null"
    using d le set that by (simp add: dup_of_body_String)
qed

text \<open>A message with a body and a reply-to that lives in the block \<open>1\<close>, for the witnesses.\<close>

definition sample_heap :: heap where
  "sample_heap =
     \<lparr>h_next = 2, h_blocks = [0 \<mapsto> c_str ''hi'', 1 \<mapsto> c_str ''me''], h_oom = (\<lambda>_. False)\<rparr>"

definition sample_message :: Message where
  "sample_message =
     \<lparr>m_body = Some \<lparr>ab_len = 2, ab_bytes = Ptr 0\<rparr>, m_bodyHasBeenSet = True,
      m_properties = indeterminate_properties
        \<lparr>p_flags := 512, p_reply_to := Some \<lparr>ab_len = 2, ab_bytes = Ptr 1\<rparr>\<rparr>\<rparr>"

lemma sample_heap_wf: "heap_wf sample_heap"
  by (auto simp: heap_wf_def sample_heap_def)

lemma sample_message_wf: "message_wf ref_flags sample_heap sample_message"
  by (simp add: message_wf_def sample_message_def sample_heap_def body_readable_def
      props_readable_def byte_fields_def ref_flags_def indeterminate_properties_def has_flag_def
      readable_field_def load_bytes_def)

theorem message_copy_independent_witness:
  "okr (Message_copy ref_flags ref_bapi sample_message sample_heap) (\<lambda>(m', h').
     Length m' = Length sample_message \<and>
     p_flags (m_properties m') = p_flags (m_properties sample_message) \<and>
     Timestamp ref_flags m' = Timestamp ref_flags sample_message \<and>
     (Payload m' \<noteq> Inr Null \<longrightarrow>
        Message_String h' m' = Message_String sample_heap sample_message) \<and>
     okr (Message_destroy m' h') (\<lambda>h''. heap_le sample_heap h'' \<and>
        Message_String h'' sample_message = Message_String sample_heap sample_message))"
  by (rule message_copy_independent [OF ref_bapi_ok sample_heap_wf sample_message_wf])

text \<open>
  Copying a message whose body was never set uses its indeterminate body, although copying
  an empty message is what the copy constructor's test does.
\<close>

theorem message_copy_default_uninit:
  assumes "bytes_api_ok B" and "basic_flags_ok F" and "heap_wf h"
  shows "Message_copy F B Message_default h = Inl UninitRead"
proof -
  have "props_readable F h (m_properties Message_default)"
    using assms(2) by (simp add: props_readable_no_flags Message_default_def)
  from props_dup_ok [OF assms(1,3) this, of indeterminate_properties] show ?thesis
    by (auto simp: Message_copy_def Message_default_def elim!: okrE)
qed

theorem message_copy_default_uninit_witness:
  "Message_copy ref_flags ref_bapi Message_default empty_heap = Inl UninitRead"
  by (rule message_copy_default_uninit [OF ref_bapi_ok ref_flags_ok heap_wf_empty])

text \<open>
  The defaulted assignment shares the body: after \<open>a = b\<close> both messages point to the same
  block, and destroying both frees it twice.
\<close>

theorem message_assign_double_free:
  assumes "m_bodyHasBeenSet other" and "Payload other = Inr (Ptr a)"
    and "h_blocks h a \<noteq> None"
  shows "Payload (Message_assign this other) = Payload other \<and>
     bindr (Message_destroy (Message_assign this other) h) (Message_destroy other) = Inl InvalidFree"
  using assms
  by (auto simp: Message_assign_def Message_destroy_def Payload_def split: option.splits)

theorem message_assign_double_free_witness:
  "Payload (Message_assign Message_default sample_message) = Payload sample_message \<and>
   bindr (Message_destroy (Message_assign Message_default sample_message) sample_heap)
     (Message_destroy sample_message) = Inl InvalidFree"
  by (rule message_assign_double_free [where a = 0])
     (simp_all add: sample_message_def sample_heap_def Payload_def)

section \<open>Flags\<close>

lemma flags_ok_disjoint:
  assumes "basic_flags_ok F"
  shows "AMQP_BASIC_REPLY_TO_FLAG F AND AMQP_BASIC_TIMESTAMP_FLAG F = 0"
    "AMQP_BASIC_TIMESTAMP_FLAG F AND AMQP_BASIC_REPLY_TO_FLAG F = 0"
    "AMQP_BASIC_CORRELATION_ID_FLAG F AND AMQP_BASIC_REPLY_TO_FLAG F = 0"
    "AMQP_BASIC_REPLY_TO_FLAG F AND AMQP_BASIC_CORRELATION_ID_FLAG F = 0"
    "AMQP_BASIC_CORRELATION_ID_FLAG F AND AMQP_BASIC_TIMESTAMP_FLAG F = 0"
    "AMQP_BASIC_TIMESTAMP_FLAG F AND AMQP_BASIC_CORRELATION_ID_FLAG F = 0"
  using assms by (simp_all add: basic_flags_ok_def flag_list_def and.commute)

lemmas flag_tests = ReplyToIsSet_def TimestampIsSet_def HasCorrelationId_def

text \<open>
  The three optional properties are independent: setting the timestamp makes it readable as
  set and disturbs neither the reply-to nor the correlation id, nor the body.
\<close>

theorem set_timestamp_roundtrip:
  assumes "basic_flags_ok F"
  shows "Timestamp F (SetTimestamp F t m) = Inr t \<and>
     TimestampIsSet F (SetTimestamp F t m) \<and>
     ReplyToIsSet F (SetTimestamp F t m) = ReplyToIsSet F m \<and>
     ReplyTo F h (SetTimestamp F t m) = ReplyTo F h m \<and>
     HasCorrelationId F (SetTimestamp F t m) = HasCorrelationId F m \<and>
     Message_String h (SetTimestamp F t m) = Message_String h m"
  using flags_ok_disjoint [OF assms]
  by (simp add: SetTimestamp_def Timestamp_def flag_tests has_flag_other ReplyTo_def
      Message_String_def)

theorem set_timestamp_roundtrip_witness:
  "Timestamp ref_flags (SetTimestamp ref_flags 324523 sample_message) = Inr 324523 \<and>
   TimestampIsSet ref_flags (SetTimestamp ref_flags 324523 sample_message) \<and>
   ReplyToIsSet ref_flags (SetTimestamp ref_flags 324523 sample_message)
     = ReplyToIsSet ref_flags sample_message \<and>
   ReplyTo ref_flags sample_heap (SetTimestamp ref_flags 324523 sample_message)
     = ReplyTo ref_flags sample_heap sample_message \<and>
   HasCorrelationId ref_flags (SetTimestamp ref_flags 324523 sample_message)
     = HasCorrelationId ref_flags sample_message \<and>
   Message_String sample_heap (SetTimestamp ref_flags 324523 sample_message)
     = Message_String sample_heap sample_message"
  by (rule set_timestamp_roundtrip [OF ref_flags_ok])

text \<open>
  \<open>SetReplyTo\<close> keeps the caller's pointer. \<open>ReplyTo()\<close> returns the string as long as the
  caller's buffer is alive, and reads freed memory once it is gone.
\<close>

theorem reply_to_borrows_buffer:
  assumes "bytes_api_ok B" and "h_blocks h a = Some (c_str s)" and "upto_NUL s \<noteq> ''''"
  shows "okr (SetReplyTo F B h (Ptr a) m) (\<lambda>m'.
     ReplyToIsSet F m' \<and> ReplyTo F h m' = Inr (upto_NUL s) \<and>
     okr (free (Ptr a) h) (\<lambda>h'. ReplyTo F h' m' = Inl UseAfterFree))"
  using assms
  by (simp add: SetReplyTo_def bytes_api_cstring ReplyToIsSet_def ReplyTo_def
      hare_bytes_to_string_def take_c_str_upto le_SucI length_upto_NUL)

theorem reply_to_borrows_buffer_witness:
  "okr (SetReplyTo ref_flags ref_bapi sample_heap (Ptr 1) Message_default) (\<lambda>m'.
     ReplyToIsSet ref_flags m' \<and> ReplyTo ref_flags sample_heap m' = Inr (upto_NUL ''me'') \<and>
     okr (free (Ptr 1) sample_heap) (\<lambda>h'. ReplyTo ref_flags h' m' = Inl UseAfterFree))"
  by (rule reply_to_borrows_buffer [OF ref_bapi_ok])
     (simp_all add: sample_heap_def upto_NUL_def NUL_def)

text \<open>
  \<open>Length()\<close> returns the body length modulo \<open>2^32\<close>: it is exact below 4 GiB only.
\<close>

theorem length_truncates:
  assumes "m_bodyHasBeenSet m" and "m_body m = Some b"
  shows "okr (Length m) (\<lambda>n. unat n = ab_len b mod 4294967296 \<and>
     (unat n = ab_len b \<longleftrightarrow> ab_len b < 4294967296))"
  using assms by (simp add: Length_def unat_of_nat mod_eq_self_iff_div_eq_0 div_eq_0_iff)

theorem length_truncates_witness:
  "okr (Length (sample_message\<lparr>m_body := Some \<lparr>ab_len = 4294967298, ab_bytes = Null\<rparr>\<rparr>))
     (\<lambda>n. unat n = 4294967298 mod 4294967296 \<and>
        (unat n = 4294967298 \<longleftrightarrow> (4294967298 :: nat) < 4294967296))"
  using length_truncates
    [of "sample_message\<lparr>m_body := Some \<lparr>ab_len = 4294967298, ab_bytes = Null\<rparr>\<rparr>"
        "\<lparr>ab_len = 4294967298, ab_bytes = Null\<rparr>"]
  by (simp add: sample_message_def)

end
