(* ===== verification/HelperStructs.thy ===== *)
theory HelperStructs
  imports Message
begin

text \<open>
  The plain structures of \<open>include/HelperStructs.hpp\<close>, and \<open>hare_free_message_risky\<close>, which
  gives back the three buffers of a queued message. \<open>owned\<close> is the list of blocks such a
  message owns; freeing it succeeds exactly when they are allocated and distinct, and removes
  exactly them.
\<close>

record queueProperties =
  m_passive :: int
  m_durable :: int
  m_exclusive :: int
  m_autoDelete :: int

definition default_queueProperties :: queueProperties where
  "default_queueProperties = \<lparr>m_passive = 0, m_durable = 0, m_exclusive = 0, m_autoDelete = 1\<rparr>"

record RawMessage =
  rm_exchange :: amqp_bytes
  rm_channel :: int
  rm_routing_key :: amqp_bytes
  rm_properties :: amqp_basic_properties
  rm_message :: amqp_bytes

record loginCredentials =
  m_hostname :: string
  m_port :: int
  m_username :: string
  m_password :: string

record sslCredentials =
  m_pathToCACert :: string
  m_pathToClientKey :: string
  m_pathToClientCert :: string

definition hare_free_message_risky :: "bytes_api \<Rightarrow> RawMessage \<Rightarrow> heap \<Rightarrow> heap res" where
  "hare_free_message_risky B rawMessage h =
     bindr (amqp_bytes_free B (rm_message rawMessage) h) (\<lambda>h1.
     bindr (amqp_bytes_free B (rm_routing_key rawMessage) h1) (\<lambda>h2.
     amqp_bytes_free B (rm_exchange rawMessage) h2))"

section \<open>Ownership\<close>

fun ptr_addrs :: "ptr \<Rightarrow> nat list" where
  "ptr_addrs Null = []"
| "ptr_addrs (Ptr a) = [a]"

definition owned :: "RawMessage \<Rightarrow> nat list" where
  "owned m = ptr_addrs (ab_bytes (rm_message m)) @ ptr_addrs (ab_bytes (rm_routing_key m)) @
     ptr_addrs (ab_bytes (rm_exchange m))"

text \<open>The heap without the blocks of a list.\<close>

definition drop_blocks :: "nat list \<Rightarrow> heap \<Rightarrow> heap" where
  "drop_blocks as h = h\<lparr>h_blocks := h_blocks h |` (- set as)\<rparr>"

lemma drop_blocks_Nil [simp]: "drop_blocks [] h = h"
  by (simp add: drop_blocks_def restrict_map_def)

lemma drop_blocks_append: "drop_blocks (as @ bs) h = drop_blocks bs (drop_blocks as h)"
  by (simp add: drop_blocks_def Int_commute)

lemma drop_blocks_blocks [simp]:
  "h_blocks (drop_blocks as h) a = (if a \<in> set as then None else h_blocks h a)"
  by (simp add: drop_blocks_def restrict_map_def)

lemma drop_blocks_wf: "heap_wf h \<Longrightarrow> heap_wf (drop_blocks as h)"
  by (auto simp: heap_wf_def drop_blocks_def restrict_map_def)

lemma free_drop:
  "set (ptr_addrs p) \<subseteq> dom (h_blocks h) \<Longrightarrow> free p h = Inr (drop_blocks (ptr_addrs p) h)"
  by (cases p) (auto simp: drop_blocks_def restrict_map_def fun_eq_iff intro!: heap.equality)

lemma hare_free_message_risky_ok:
  assumes "bytes_api_ok B" and "distinct (owned m)" and "set (owned m) \<subseteq> dom (h_blocks h)"
  shows "hare_free_message_risky B m h = Inr (drop_blocks (owned m) h)"
proof -
  let ?a = "ptr_addrs (ab_bytes (rm_message m))" and ?b = "ptr_addrs (ab_bytes (rm_routing_key m))"
    and ?c = "ptr_addrs (ab_bytes (rm_exchange m))"
  have "set ?a \<subseteq> dom (h_blocks h)" "set ?b \<subseteq> dom (h_blocks (drop_blocks ?a h))"
    "set ?c \<subseteq> dom (h_blocks (drop_blocks ?b (drop_blocks ?a h)))"
    using assms(2,3) by (auto simp: owned_def dom_def split: if_splits)
  then show ?thesis
    by (simp add: hare_free_message_risky_def bytes_api_free [OF assms(1)] free_drop owned_def
        drop_blocks_append)
qed

end
