(* ===== verification/Message_Typing.thy ===== *)
theory Message_Typing
  imports Message HelperStructs
begin

text \<open>
  The type of a message object: which combinations of its members make every accessor and the
  destructor defined. The setters keep the type, so whatever sequence of them builds a message,
  it can be read and destroyed as long as the strings it borrows are alive.
\<close>

section \<open>The type\<close>

definition text_field :: "heap \<Rightarrow> amqp_bytes option \<Rightarrow> bool" where
  "text_field h f = (case f of None \<Rightarrow> False | Some b \<Rightarrow> okr (deref_bytes h b) (\<lambda>_. True))"

definition body_owned :: "heap \<Rightarrow> Message \<Rightarrow> bool" where
  "body_owned h m = (case m_body m of None \<Rightarrow> False | Some b \<Rightarrow>
     set (ptr_addrs (ab_bytes b)) \<subseteq> dom (h_blocks h))"

definition message_typed :: "basic_flags \<Rightarrow> heap \<Rightarrow> Message \<Rightarrow> bool" where
  "message_typed F h m \<longleftrightarrow>
     (m_bodyHasBeenSet m \<longrightarrow> text_field h (m_body m) \<and> body_owned h m) \<and>
     (ReplyToIsSet F m \<longrightarrow> text_field h (p_reply_to (m_properties m))) \<and>
     (HasCorrelationId F m \<longrightarrow> text_field h (p_correlation_id (m_properties m))) \<and>
     (TimestampIsSet F m \<longrightarrow> p_timestamp (m_properties m) \<noteq> None)"

lemma text_field_le: "text_field h f \<Longrightarrow> heap_le h h' \<Longrightarrow> text_field h' f"
  by (auto simp: text_field_def okr_def split: option.splits dest: heap_le_deref_bytes)

lemma body_owned_le: "body_owned h m \<Longrightarrow> heap_le h h' \<Longrightarrow> body_owned h' m"
  by (fastforce simp: body_owned_def heap_le_def split: option.splits)

lemma message_typed_le: "message_typed F h m \<Longrightarrow> heap_le h h' \<Longrightarrow> message_typed F h' m"
  by (auto simp: message_typed_def intro: text_field_le body_owned_le)

lemma default_typed: "basic_flags_ok F \<Longrightarrow> message_typed F h Message_default"
  by (simp add: message_typed_def Message_default_def flag_tests basic_flags_ok_def flag_list_def)

text \<open>On a typed message every accessor and the destructor are defined.\<close>

lemma typed_defined:
  assumes "message_typed F h m"
  shows "okr (Message_String h m) (\<lambda>_. True)" and "okr (Payload m) (\<lambda>_. True)"
    and "okr (Length m) (\<lambda>_. True)" and "okr (ReplyTo F h m) (\<lambda>_. True)"
    and "okr (Timestamp F m) (\<lambda>_. True)" and "okr (Message_destroy m h) (\<lambda>_. True)"
proof -
  from assms have b: "m_bodyHasBeenSet m \<Longrightarrow> text_field h (m_body m)" "m_bodyHasBeenSet m \<Longrightarrow> body_owned h m"
    by (simp_all add: message_typed_def)
  show "okr (Message_String h m) (\<lambda>_. True)" "okr (Payload m) (\<lambda>_. True)" "okr (Length m) (\<lambda>_. True)"
    using b(1)
    by (auto simp: Message_String_def Payload_def Length_def text_field_def deref_bytes_def
        load_bytes_def split: option.splits)
  show "okr (ReplyTo F h m) (\<lambda>_. True)" "okr (Timestamp F m) (\<lambda>_. True)"
    using assms
    by (auto simp: ReplyTo_def Timestamp_def message_typed_def text_field_def
        hare_bytes_to_string_deref split: option.splits)
  show "okr (Message_destroy m h) (\<lambda>_. True)"
    using b(2) free_drop [of _ h]
    by (auto simp: Message_destroy_def body_owned_def split: option.splits)
qed

section \<open>The setters\<close>

datatype setter =
    M_SetPayload string
  | M_SetPayload_void string
  | M_SetReplyTo ptr
  | M_SetCorrelationId ptr
  | M_SetTimestamp "64 word"

primrec apply_setter ::
    "basic_flags \<Rightarrow> bytes_api \<Rightarrow> setter \<Rightarrow> Message \<Rightarrow> heap \<Rightarrow> (Message \<times> heap) res" where
  "apply_setter F B (M_SetPayload t) m h = SetPayload (c_str t) m h"
| "apply_setter F B (M_SetPayload_void t) m h = SetPayload_void (map Some t) (int (length t)) m h"
| "apply_setter F B (M_SetReplyTo p) m h = bindr (SetReplyTo F B h p m) (\<lambda>m'. Inr (m', h))"
| "apply_setter F B (M_SetCorrelationId p) m h = bindr (SetCorrelationId F B h p m) (\<lambda>m'. Inr (m', h))"
| "apply_setter F B (M_SetTimestamp t) m h = Inr (SetTimestamp F t m, h)"

fun apply_setters ::
    "basic_flags \<Rightarrow> bytes_api \<Rightarrow> setter list \<Rightarrow> Message \<Rightarrow> heap \<Rightarrow> (Message \<times> heap) res" where
  "apply_setters F B [] m h = Inr (m, h)"
| "apply_setters F B (x # xs) m h =
     bindr (apply_setter F B x m h) (\<lambda>(m', h'). apply_setters F B xs m' h')"

text \<open>What a caller has to provide: payloads that an \<open>int\<close> can measure, and live C strings.\<close>

definition c_string_at :: "heap \<Rightarrow> ptr \<Rightarrow> bool" where
  "c_string_at h p = (case p of Null \<Rightarrow> False | Ptr a \<Rightarrow>
     (case h_blocks h a of None \<Rightarrow> False | Some bs \<Rightarrow> (\<exists>t. bs = c_str t)))"

primrec setter_ok :: "heap \<Rightarrow> setter \<Rightarrow> bool" where
  "setter_ok h (M_SetPayload t) \<longleftrightarrow> True"
| "setter_ok h (M_SetPayload_void t) \<longleftrightarrow> int (length t) \<le> INT_MAX"
| "setter_ok h (M_SetReplyTo p) \<longleftrightarrow> c_string_at h p"
| "setter_ok h (M_SetCorrelationId p) \<longleftrightarrow> c_string_at h p"
| "setter_ok h (M_SetTimestamp t) \<longleftrightarrow> True"

definition ample :: "heap \<Rightarrow> bool" where
  "ample h \<longleftrightarrow> heap_wf h \<and> (\<forall>n. \<not> h_oom h n)"

lemma c_string_at_le: "c_string_at h p \<Longrightarrow> heap_le h h' \<Longrightarrow> c_string_at h' p"
  by (auto simp: c_string_at_def heap_le_def split: ptr.splits option.splits)

lemma setter_ok_le: "setter_ok h x \<Longrightarrow> heap_le h h' \<Longrightarrow> setter_ok h' x"
  by (cases x) (auto intro: c_string_at_le)

lemma oom_kept:
  "malloc n h = (p, h1) \<Longrightarrow> h_oom h1 = h_oom h"
  "store p bs h = Inr h2 \<Longrightarrow> h_oom h2 = h_oom h"
  "hare_cstring_bytes str h = Inr (b, h') \<Longrightarrow> h_oom h' = h_oom h"
  "hare_void_bytes str sz h = Inr (b, h') \<Longrightarrow> h_oom h' = h_oom h"
proof -
  show m: "h_oom h1 = h_oom h" if "malloc n h = (p, h1)" for n h p h1
    using that by (auto simp: malloc_def split: if_splits)
  show s: "h_oom h2 = h_oom h" if "store p bs h = Inr h2" for p bs h h2
    using that by (cases p) (auto split: if_splits option.splits)
  show "h_oom h' = h_oom h" if run: "hare_cstring_bytes str h = Inr (b, h')"
  proof -
    from run obtain n where n: "strlen str = Inr n"
      by (auto simp: hare_cstring_bytes_def bindr_eq_Inr_iff)
    obtain p h1 where mm: "malloc (n + 1) h = (p, h1)" by fastforce
    from run n mm m [OF mm] show ?thesis
      by (auto simp: hare_cstring_bytes_def bindr_eq_Inr_iff split: if_splits dest!: s)
  qed
  show "h_oom h' = h_oom h" if run: "hare_void_bytes str sz h = Inr (b, h')"
  proof -
    obtain p h1 where mm: "malloc (size_of_int sz) h = (p, h1)" by fastforce
    from run mm m [OF mm] show ?thesis
      by (auto simp: hare_void_bytes_def bindr_eq_Inr_iff Let_def split: if_splits dest!: s)
  qed
qed

text \<open>A new body in a block of its own, whatever the properties.\<close>

lemma new_body_typed:
  assumes h: "ample h" and m: "message_typed F h m"
    and al: "alloc_spec h bs (ab_bytes b) h'" "ab_bytes b \<noteq> Null" "ab_len b \<le> length bs"
    and ini: "okr (chars (take (ab_len b) bs)) (\<lambda>_. True)" and oom: "h_oom h' = h_oom h"
  shows "ample h' \<and> heap_le h h' \<and> message_typed F h' (m\<lparr>m_bodyHasBeenSet := True, m_body := Some b\<rparr>)"
proof -
  from h have wf: "heap_wf h" by (simp add: ample_def)
  note le = alloc_spec_ext [OF wf al(1)]
  obtain a where a: "ab_bytes b = Ptr a" "h_blocks h' a = Some bs"
    using al(1,2) by (auto simp: alloc_spec_def)
  have "text_field h' (Some b)"
    using a al(3) ini by (simp add: text_field_def deref_bytes_def load_bytes_def)
  moreover have "body_owned h' (m\<lparr>m_bodyHasBeenSet := True, m_body := Some b\<rparr>)"
    using a by (auto simp: body_owned_def)
  ultimately show ?thesis
    using message_typed_le [OF m le] le alloc_spec_wf [OF wf al(1)] h oom
    by (simp add: message_typed_def ample_def flag_tests)
qed

lemma set_string_typed:
  assumes F: "basic_flags_ok F" and B: "bytes_api_ok B" and m: "message_typed F h m"
    and p: "c_string_at h p"
  shows "okr (SetReplyTo F B h p m) (message_typed F h)"
    and "okr (SetCorrelationId F B h p m) (message_typed F h)"
proof -
  from p obtain a t where a: "p = Ptr a" "h_blocks h a = Some (c_str t)"
    by (auto simp: c_string_at_def split: ptr.splits option.splits)
  let ?b = "\<lparr>ab_len = length (upto_NUL t), ab_bytes = Ptr a\<rparr>"
  have "okr (deref_bytes h ?b) (\<lambda>_. True)"
    using a(2) by (simp add: deref_bytes_def load_bytes_def take_c_str_upto le_SucI length_upto_NUL)
  then have f: "text_field h (Some ?b)" by (simp add: text_field_def)
  note cs = bytes_api_cstring [OF B] and dis = flags_ok_disjoint [OF F]
  show "okr (SetReplyTo F B h p m) (message_typed F h)"
    using f m dis a
    by (simp add: SetReplyTo_def cs message_typed_def flag_tests has_flag_other body_owned_def)
  show "okr (SetCorrelationId F B h p m) (message_typed F h)"
    using f m dis a
    by (simp add: SetCorrelationId_def cs message_typed_def flag_tests has_flag_other body_owned_def)
qed

text \<open>One setter keeps the type.\<close>

lemma apply_setter_typed:
  assumes F: "basic_flags_ok F" and B: "bytes_api_ok B" and h: "ample h"
    and m: "message_typed F h m" and x: "setter_ok h x"
  shows "okr (apply_setter F B x m h) (\<lambda>(m', h'). ample h' \<and> heap_le h h' \<and> message_typed F h' m')"
proof (cases x)
  case (M_SetPayload t)
  from hare_cstring_bytes_ok [of t h] h obtain b h' where
      r: "hare_cstring_bytes (c_str t) h = Inr (b, h')" "ab_len b = length (upto_NUL t)"
      "alloc_spec h (c_str (upto_NUL t)) (ab_bytes b) h'" "ab_bytes b \<noteq> Null"
    by (auto simp: okr_def ample_def)
  from new_body_typed [OF h m r(3,4) _ _ oom_kept(3) [OF r(1)]] r(1,2) M_SetPayload show ?thesis
    by (simp add: SetPayload_def take_length_c_str)
next
  case (M_SetPayload_void t)
  from hare_void_bytes_ok [of "int (length t)" "map Some t" h] x h M_SetPayload_void obtain b h' where
      r: "hare_void_bytes (map Some t) (int (length t)) h = Inr (b, h')" "ab_len b = length t"
      "alloc_spec h (map Some t) (ab_bytes b) h'" "ab_bytes b \<noteq> Null"
    by (auto simp: okr_def ample_def)
  from new_body_typed [OF h m r(3,4) _ _ oom_kept(4) [OF r(1)]] r(1,2) M_SetPayload_void show ?thesis
    by (simp add: SetPayload_void_def)
next
  case (M_SetReplyTo p)
  with set_string_typed(1) [OF F B m, of p] x h show ?thesis by (auto simp: okr_def)
next
  case (M_SetCorrelationId p)
  with set_string_typed(2) [OF F B m, of p] x h show ?thesis by (auto simp: okr_def)
next
  case (M_SetTimestamp t)
  with h m flags_ok_disjoint [OF F] show ?thesis
    by (simp add: SetTimestamp_def message_typed_def flag_tests has_flag_other body_owned_def)
qed

lemma apply_setters_typed:
  assumes F: "basic_flags_ok F" and B: "bytes_api_ok B"
    and "ample h" and "message_typed F h m" and "\<forall>x \<in> set xs. setter_ok h x"
  shows "okr (apply_setters F B xs m h) (\<lambda>(m', h'). heap_le h h' \<and> message_typed F h' m')"
  using assms(3-)
proof (induction xs arbitrary: m h)
  case Nil
  then show ?case by simp
next
  case (Cons x xs)
  from Cons.prems have "setter_ok h x" by simp
  from apply_setter_typed [OF F B Cons.prems(1,2) this] obtain m1 h1 where
      one: "apply_setter F B x m h = Inr (m1, h1)" "ample h1" "heap_le h h1" "message_typed F h1 m1"
    by (auto simp: okr_def)
  have "\<forall>y \<in> set xs. setter_ok h1 y" using Cons.prems(3) one(3) by (auto intro: setter_ok_le)
  from Cons.IH [OF one(2,4) this] one show ?case
    by (auto simp: okr_def intro: heap_le_trans)
qed

text \<open>
  C27. Whatever sequence of setters builds up a message, from an empty one and with memory
  available, the result has the type of a message: the body is a readable block of its own, the
  flagged properties are readable, and so every accessor and the destructor are defined on it.
\<close>

theorem setters_keep_type:
  assumes "basic_flags_ok F" and "bytes_api_ok B" and "heap_wf h" and "\<forall>n. \<not> h_oom h n"
    and "\<forall>x \<in> set xs. setter_ok h x"
  shows "okr (apply_setters F B xs Message_default h) (\<lambda>(m, h'). message_typed F h' m \<and> heap_le h h' \<and>
     okr (Message_String h' m) (\<lambda>_. True) \<and> okr (Payload m) (\<lambda>_. True) \<and>
     okr (Length m) (\<lambda>_. True) \<and> okr (ReplyTo F h' m) (\<lambda>_. True) \<and>
     okr (Timestamp F m) (\<lambda>_. True) \<and> okr (Message_destroy m h') (\<lambda>_. True))"
proof -
  have "ample h" using assms(3,4) by (simp add: ample_def)
  from apply_setters_typed [OF assms(1,2) this default_typed [OF assms(1)] assms(5)] show ?thesis
    by (auto simp: okr_def [of "apply_setters F B xs Message_default h"] dest: typed_defined)
qed

theorem setters_keep_type_witness:
  "okr (apply_setters ref_flags ref_bapi
      [M_SetReplyTo (Ptr 1), M_SetPayload ''a'', M_SetTimestamp 7, M_SetPayload_void ''bc'',
       M_SetCorrelationId (Ptr 0)] Message_default sample_heap) (\<lambda>(m, h').
     message_typed ref_flags h' m \<and> heap_le sample_heap h' \<and>
     okr (Message_String h' m) (\<lambda>_. True) \<and> okr (Payload m) (\<lambda>_. True) \<and>
     okr (Length m) (\<lambda>_. True) \<and> okr (ReplyTo ref_flags h' m) (\<lambda>_. True) \<and>
     okr (Timestamp ref_flags m) (\<lambda>_. True) \<and> okr (Message_destroy m h') (\<lambda>_. True))"
  by (rule setters_keep_type [OF ref_flags_ok ref_bapi_ok sample_heap_wf])
     (auto simp: sample_heap_def c_string_at_def)

end
