(* ===== verification/Logger.thy ===== *)
theory Logger
  imports Utils
begin

text \<open>
  The logger: a process-wide level (the static \<open>dbgLevel\<close>) and formatted output. The state is
  that level and the text written to standard output so far. The other components call it only
  for its output, so their models leave the calls out; here it is shown that with one of the
  six message levels no call can fail, that the level filters as its order says, and what the
  other integers do.
\<close>

section \<open>Levels\<close>

datatype HARE_LOG_E =
    LOG_FATAL | LOG_ERROR | LOG_WARN | LOG_INFO | LOG_DETAILED | LOG_TEST | LOG_NONE

primrec log_code :: "HARE_LOG_E \<Rightarrow> int" where
  "log_code LOG_FATAL = 0"
| "log_code LOG_ERROR = 1"
| "log_code LOG_WARN = 2"
| "log_code LOG_INFO = 3"
| "log_code LOG_DETAILED = 4"
| "log_code LOG_TEST = 5"
| "log_code LOG_NONE = 6"

lemma log_code_inj [simp]: "log_code a = log_code b \<longleftrightarrow> a = b"
  by (cases a; cases b) simp_all

text \<open>The enumerators are ordered by their values: the smaller, the more severe.\<close>

instantiation HARE_LOG_E :: linorder
begin

definition less_eq_HARE_LOG_E :: "HARE_LOG_E \<Rightarrow> HARE_LOG_E \<Rightarrow> bool" where
  "less_eq_HARE_LOG_E a b \<longleftrightarrow> log_code a \<le> log_code b"

definition less_HARE_LOG_E :: "HARE_LOG_E \<Rightarrow> HARE_LOG_E \<Rightarrow> bool" where
  "less_HARE_LOG_E a b \<longleftrightarrow> log_code a < log_code b"

instance
  by standard (auto simp: less_eq_HARE_LOG_E_def less_HARE_LOG_E_def)

end

section \<open>State and output\<close>

record Logger =
  dbgLevel :: int
  log_out :: string

definition Logger_init :: Logger where
  "Logger_init = \<lparr>dbgLevel = log_code LOG_TEST, log_out = ''''\<rparr>"

definition ESC :: char where
  "ESC = CHR 0x1B"

definition COL_NORM :: string where "COL_NORM = ESC # ''[0m''"
definition COL_FATAL :: string where "COL_FATAL = ESC # ''[31m''"
definition COL_ERROR :: string where "COL_ERROR = ESC # ''[91m''"
definition COL_INFO :: string where "COL_INFO = ESC # ''[37m''"
definition COL_WARN :: string where "COL_WARN = ESC # ''[33m''"
definition COL_DETAIL :: string where "COL_DETAIL = ESC # ''[32m''"
definition COL_TEST :: string where "COL_TEST = ESC # ''[34m''"

text \<open>
  The colour and the name for a level; for any other integer the two variables of the caller
  stay as they are, the colour indeterminate (\<open>None\<close>) and the name empty.
\<close>

definition GET_LOG_DISPLAY :: "int \<Rightarrow> string option \<times> string \<Rightarrow> string option \<times> string" where
  "GET_LOG_DISPLAY logLevel old =
     (if logLevel = log_code LOG_FATAL then (Some COL_FATAL, ''FATAL'')
      else if logLevel = log_code LOG_ERROR then (Some COL_ERROR, ''ERROR'')
      else if logLevel = log_code LOG_WARN then (Some COL_WARN, ''WARN'')
      else if logLevel = log_code LOG_INFO then (Some COL_INFO, ''INFO'')
      else if logLevel = log_code LOG_DETAILED then (Some COL_DETAIL, ''DETAIL'')
      else if logLevel = log_code LOG_TEST then (Some COL_TEST, ''TEST'')
      else old)"

text \<open>\<open>printf\<close> with \<open>%s\<close> for an indeterminate pointer reads it.\<close>

definition LOG_SIMPLE :: "int \<Rightarrow> string \<Rightarrow> Logger \<Rightarrow> Logger res" where
  "LOG_SIMPLE logLevel message L =
     (if logLevel \<le> dbgLevel L \<and> dbgLevel L \<noteq> log_code LOG_NONE
      then case GET_LOG_DISPLAY logLevel (None, '''') of (logColor, level) \<Rightarrow>
             (case logColor of
                None \<Rightarrow> Inl UninitRead
              | Some col \<Rightarrow>
                  Inr (L\<lparr>log_out := log_out L @ [ESC] @ ''[1;34mHareCpp:'' @ [ESC] @ ''[0m'' @
                    [CHR 0x09] @ col @ level @ '': '' @ upto_NUL message @ [ESC] @ ''[0m'' @
                    [CHR 0x0A]\<rparr>))
      else Inr L)"

text \<open>\<open>%-32s\<close>: padded with blanks on the right to 32 characters.\<close>

definition pad_right :: "nat \<Rightarrow> string \<Rightarrow> string" where
  "pad_right n s = s @ replicate (n - length s) CHR '' ''"

definition call_location :: "int \<Rightarrow> string \<Rightarrow> string" where
  "call_location line file = snd (snprintf 32 (fmt_d line @ '':'' @ upto_NUL file))"

definition LOG_FULL :: "int \<Rightarrow> string \<Rightarrow> int \<Rightarrow> string \<Rightarrow> Logger \<Rightarrow> Logger res" where
  "LOG_FULL logLevel message line file L =
     (if logLevel \<le> dbgLevel L \<and> dbgLevel L \<noteq> log_code LOG_NONE
      then case GET_LOG_DISPLAY logLevel (None, '''') of (logColor, level) \<Rightarrow>
             (case logColor of
                None \<Rightarrow> Inl UninitRead
              | Some col \<Rightarrow>
                  Inr (L\<lparr>log_out := log_out L @ [ESC] @ ''[1;34mHareCpp: '' @
                    pad_right 32 (call_location line file) @ [ESC] @ ''[0m '' @ col @ level @ '': '' @
                    upto_NUL message @ [ESC] @ ''[0m'' @ [CHR 0x0A]\<rparr>))
      else Inr L)"

definition SET_DEBUG_LEVEL :: "int \<Rightarrow> Logger \<Rightarrow> Logger res" where
  "SET_DEBUG_LEVEL debugLevel L =
     (if debugLevel > log_code LOG_NONE \<or> debugLevel < log_code LOG_FATAL
      then LOG_SIMPLE (log_code LOG_FATAL) ''Invalid Log Level'' L
      else Inr (L\<lparr>dbgLevel := debugLevel\<rparr>))"

text \<open>
  The overloads for \<open>std::string\<close> pass \<open>c_str()\<close>, the characters followed by a terminator;
  \<open>printf\<close> stops at the first one, also at one inside the string.
\<close>

definition LOG_FULL_string :: "int \<Rightarrow> string \<Rightarrow> int \<Rightarrow> string \<Rightarrow> Logger \<Rightarrow> Logger res" where
  "LOG_FULL_string logLevel message line file L = LOG_FULL logLevel (message @ [NUL]) line file L"

definition LOG_SIMPLE_string :: "int \<Rightarrow> string \<Rightarrow> Logger \<Rightarrow> Logger res" where
  "LOG_SIMPLE_string logLevel message L = LOG_SIMPLE logLevel (message @ [NUL]) L"

section \<open>Properties\<close>

text \<open>So a string prints as the same characters given as a literal.\<close>

lemma upto_NUL_terminated: "upto_NUL (s @ [NUL]) = upto_NUL s"
  by (induction s) (simp_all add: upto_NUL_def)

lemma string_overloads:
  "LOG_FULL_string l s line file L = LOG_FULL l s line file L"
  "LOG_SIMPLE_string l s L = LOG_SIMPLE l s L"
  unfolding LOG_FULL_string_def LOG_SIMPLE_string_def LOG_FULL_def LOG_SIMPLE_def upto_NUL_terminated
  by (rule refl)+

lemma snprintf_length: "0 < n \<Longrightarrow> length (snd (snprintf n s)) < n"
  by (simp add: snprintf_def)

lemma call_location_fits: "length (call_location line file) \<le> 31"
  using snprintf_length [of 32 "fmt_d line @ '':'' @ upto_NUL file"] by (simp add: call_location_def)

text \<open>The levels with a display are exactly the six message levels.\<close>

lemma display_defined_iff: "fst (GET_LOG_DISPLAY l (None, '''')) \<noteq> None \<longleftrightarrow> 0 \<le> l \<and> l \<le> 5"
  by (auto simp: GET_LOG_DISPLAY_def)

text \<open>
  C33. A call with one of the six message levels never fails, and writes a line exactly when
  its level is at least as severe as the one set and logging is not switched off; it never
  removes output and never changes the level.
\<close>

theorem log_filters_by_level:
  assumes "level \<noteq> LOG_NONE" and "dbgLevel L = log_code setting"
  shows "okr (LOG_FULL (log_code level) message line file L) (\<lambda>L'.
     dbgLevel L' = dbgLevel L \<and> (\<exists>text. log_out L' = log_out L @ text \<and>
       (text \<noteq> [] \<longleftrightarrow> level \<le> setting \<and> setting \<noteq> LOG_NONE)))"
proof -
  have "0 \<le> log_code level" "log_code level \<le> 5" using assms(1) by (cases level; simp)+
  then obtain col name where "GET_LOG_DISPLAY (log_code level) (None, '''') = (Some col, name)"
    using display_defined_iff [of "log_code level"]
    by (cases "GET_LOG_DISPLAY (log_code level) (None, '''')") auto
  with assms(2) show ?thesis
    by (cases setting) (simp_all add: LOG_FULL_def less_eq_HARE_LOG_E_def)
qed

theorem log_filters_by_level_witness:
  "okr (LOG_FULL (log_code LOG_INFO) ''up'' 12 ''a.cpp'' Logger_init) (\<lambda>L'.
     dbgLevel L' = dbgLevel Logger_init \<and> (\<exists>text. log_out L' = log_out Logger_init @ text \<and>
       (text \<noteq> [] \<longleftrightarrow> LOG_INFO \<le> LOG_TEST \<and> LOG_TEST \<noteq> LOG_NONE)))"
  by (rule log_filters_by_level) (simp_all add: Logger_init_def)

text \<open>
  \<open>SET_DEBUG_LEVEL\<close> never leaves the range of the enumeration: it takes every level of it,
  and for any other integer it keeps the level and only writes a message.
\<close>

theorem set_debug_level_stays_in_range:
  assumes "dbgLevel L = log_code setting"
  shows "okr (SET_DEBUG_LEVEL n L) (\<lambda>L'. \<exists>setting'. dbgLevel L' = log_code setting' \<and>
     (if 0 \<le> n \<and> n \<le> 6 then log_code setting' = n \<and> log_out L' = log_out L
      else setting' = setting))"
proof (cases "0 \<le> n \<and> n \<le> 6")
  case True
  then have "n \<in> {0, 1, 2, 3, 4, 5, 6}" by auto
  then have "\<exists>e. log_code e = n"
    by (auto intro: exI [of _ LOG_FATAL] exI [of _ LOG_ERROR] exI [of _ LOG_WARN] exI [of _ LOG_INFO]
        exI [of _ LOG_DETAILED] exI [of _ LOG_TEST] exI [of _ LOG_NONE])
  with True show ?thesis by (auto simp: SET_DEBUG_LEVEL_def)
next
  case False
  with assms show ?thesis
    by (auto simp: SET_DEBUG_LEVEL_def LOG_SIMPLE_def GET_LOG_DISPLAY_def)
qed

theorem set_debug_level_stays_in_range_witness:
  "okr (SET_DEBUG_LEVEL 9 Logger_init) (\<lambda>L'. \<exists>setting'. dbgLevel L' = log_code setting' \<and>
     (if 0 \<le> (9::int) \<and> (9::int) \<le> 6 then log_code setting' = 9 \<and> log_out L' = log_out Logger_init
      else setting' = LOG_TEST))"
  by (rule set_debug_level_stays_in_range) (simp add: Logger_init_def)

text \<open>A negative level passes the filter and then prints an indeterminate pointer.\<close>

lemma negative_level_reads_garbage:
  assumes "l < 0" and "dbgLevel L = log_code setting" and "setting \<noteq> LOG_NONE"
  shows "LOG_SIMPLE l message L = Inl UninitRead"
  using assms by (cases setting) (simp_all add: LOG_SIMPLE_def GET_LOG_DISPLAY_def)

end
