(* ===== verification/ErrorCodes.thy ===== *)
theory ErrorCodes
  imports Prelude
begin

text \<open>
  The library's return codes (\<open>include/ErrorCodes.hpp\<close>) and the two predicates every caller
  branches on.
\<close>

datatype HARE_ERROR_E =
    ALL_GOOD
  | INVALID_AMQP_VERSION
  | TIMEOUT_OCCURED
  | PUBLISH_ERROR
  | NOT_INITIALIZED
  | INITIALIZE_FAILURE
  | INVALID_PARAMETERS
  | PRODUCER_CREATION_FAILED
  | CONSUMER_CREATION_FAILED
  | THREAD_ALREADY_RUNNING
  | THREAD_NOT_RUNNING
  | SERVER_CONNECTION_FAILURE
  | SERVER_AUTHENTICATION_FAILURE
  | SERVER_EXCEPTION_RESPONSE
  | UNABLE_TO_SUBSCRIBE
  | PRODUCER_QUEUE_FULL
  | UNABLE_TO_OPEN_CHANNEL
  | UNABLE_TO_CLOSE_CHANNEL
  | CHANNEL_EXCEPTION
  | NO_RPC_REPLY

definition noError :: "HARE_ERROR_E \<Rightarrow> bool" where
  "noError retCode \<longleftrightarrow> ALL_GOOD = retCode"

definition serverFailure :: "HARE_ERROR_E \<Rightarrow> bool" where
  "serverFailure retCode \<longleftrightarrow>
     retCode = SERVER_CONNECTION_FAILURE \<or> retCode = SERVER_EXCEPTION_RESPONSE"

lemma noError_iff [simp]: "noError r \<longleftrightarrow> r = ALL_GOOD"
  by (auto simp: noError_def)

lemma serverFailure_simps [simp]:
  "serverFailure SERVER_CONNECTION_FAILURE" "serverFailure SERVER_EXCEPTION_RESPONSE"
  "\<not> serverFailure ALL_GOOD" "\<not> serverFailure CHANNEL_EXCEPTION"
  "\<not> serverFailure PUBLISH_ERROR" "\<not> serverFailure NO_RPC_REPLY"
  "\<not> serverFailure TIMEOUT_OCCURED"
  by (simp_all add: serverFailure_def)

lemma serverFailure_not_good: "serverFailure r \<Longrightarrow> r \<noteq> ALL_GOOD"
  by (auto simp: serverFailure_def)

end
