(* ===== verification/Session.thy ===== *)
theory Session
  imports ErrorCodes
begin

text \<open>
  What the producer and the consumer rely on when they hold a connection: opening a closed one
  never fails in an undefined way and reports whether it is open afterwards, closing always
  leaves it closed, and both keep the provider's invariant. The lemmas derive from that what a
  client's reconnecting loop needs.
\<close>

text \<open>What happens to a connection, as the worker threads produce it.\<close>

datatype session_event = Attempt | Loss

locale session =
  fixes connected :: "'c \<Rightarrow> bool"
    and inv :: "'c \<Rightarrow> bool"
    and connect :: "'c \<Rightarrow> 's \<Rightarrow> (HARE_ERROR_E \<times> 'c \<times> 's) res"
    and close :: "'c \<Rightarrow> 's \<Rightarrow> (HARE_ERROR_E \<times> 'c \<times> 's) res"
  assumes connect_law: "inv c \<Longrightarrow> \<not> connected c \<Longrightarrow>
        okr (connect c s) (\<lambda>(r, c', s'). inv c' \<and> (connected c' \<longleftrightarrow> r = ALL_GOOD))"
    and close_law: "inv c \<Longrightarrow> okr (close c s) (\<lambda>(r, c', s'). inv c' \<and> \<not> connected c')"
    and close_closed: "inv c \<Longrightarrow> \<not> connected c \<Longrightarrow> close c s = Inr (ALL_GOOD, c, s)"
begin

definition ensure :: "'c \<Rightarrow> 's \<Rightarrow> (HARE_ERROR_E \<times> 'c \<times> 's) res" where
  "ensure c s = (if connected c then Inr (ALL_GOOD, c, s) else connect c s)"

lemma ensure_ok:
  "inv c \<Longrightarrow> okr (ensure c s) (\<lambda>(r, c', s'). inv c' \<and> (connected c' \<longleftrightarrow> r = ALL_GOOD))"
  using connect_law [of c s] by (simp add: ensure_def)

text \<open>Closing before connecting makes the connection independent of what it was before.\<close>

definition reconnect :: "'c \<Rightarrow> 's \<Rightarrow> (HARE_ERROR_E \<times> 'c \<times> 's) res" where
  "reconnect c s = bindr (close c s) (\<lambda>(r, c', s'). connect c' s')"

lemma reconnect_ok:
  assumes "inv c"
  shows "okr (reconnect c s) (\<lambda>(r, c', s'). inv c' \<and> (connected c' \<longleftrightarrow> r = ALL_GOOD))"
proof -
  from close_law [OF assms, of s] obtain r c' s' where "close c s = Inr (r, c', s')"
      "inv c'" "\<not> connected c'"
    by (auto simp: okr_def)
  then show ?thesis by (simp add: reconnect_def connect_law)
qed

lemma close_twice:
  assumes "inv c"
  shows "okr (close c s) (\<lambda>(r, c', s'). close c' s' = Inr (ALL_GOOD, c', s'))"
  using close_law [OF assms, of s] by (auto simp: okr_def close_closed)

text \<open>A history of connection attempts and losses.\<close>

primrec step :: "session_event \<Rightarrow> 'c \<Rightarrow> 's \<Rightarrow> (HARE_ERROR_E \<times> 'c \<times> 's) res" where
  "step Attempt c s = ensure c s"
| "step Loss c s = close c s"

fun history :: "session_event list \<Rightarrow> 'c \<Rightarrow> 's \<Rightarrow> ('c \<times> 's) res" where
  "history [] c s = Inr (c, s)"
| "history (e # es) c s = bindr (step e c s) (\<lambda>(r, c', s'). history es c' s')"

lemma history_ok: "inv c \<Longrightarrow> okr (history es c s) (\<lambda>(c', s'). inv c')"
proof (induction es arbitrary: c s)
  case Nil
  then show ?case by simp
next
  case (Cons e es)
  have "okr (step e c s) (\<lambda>(r, c', s'). inv c')"
    using Cons.prems ensure_ok [of c s] close_law [of c s] by (cases e) (auto simp: okr_def)
  then show ?case using Cons.IH by (auto simp: okr_def)
qed

end

end
