(* ===== verification/ConnectionBase.thy ===== *)
theory ConnectionBase
  imports HelperStructs Session Reference_Platform
begin

text \<open>
  The class \<open>ConnectionBase\<close>: the only component that calls rabbitmq-c on a connection. Every
  operation takes the platform \<open>P\<close> the program is linked against, the object and the shared
  run-time state, and returns its code with the new object and state, or a fault. The mutex
  \<open>m_connMutex\<close> makes the operations atomic with respect to each other; \<open>LOG\<close> calls are left
  out. A \<open>std::string\<close> handed to the library through \<open>c_str()\<close> arrives up to its first NUL.
\<close>

section \<open>State\<close>

text \<open>
  The member \<open>m_conn\<close> is not initialised by the constructor; the library allocates the state
  it points to, and the pointer dangles once the state is destroyed.
\<close>

datatype connection_state = Indeterminate | Allocated ptr | Destroyed ptr

record ConnectionBase =
  m_socket :: ptr
  m_conn :: connection_state
  m_basicCredentials :: loginCredentials
  m_sslCredentials :: sslCredentials
  m_isConnected :: bool
  m_isSSL :: bool
  m_connectionFailure :: bool
  m_timeout :: int

type_synonym 'w conn_res = "(HARE_ERROR_E \<times> ConnectionBase \<times> 'w rt) res"

text \<open>Handing \<open>m_conn\<close> to a library function.\<close>

fun handle :: "connection_state \<Rightarrow> ptr res" where
  "handle Indeterminate = Inl UninitRead"
| "handle (Destroyed p) = Inl UseAfterFree"
| "handle (Allocated p) = (if p = Null then Inl NullDeref else Inr p)"

text \<open>Library calls as transformers of the run-time state.\<close>

definition on_world :: "('w \<Rightarrow> 'w) \<Rightarrow> 'w rt \<Rightarrow> 'w rt" where
  "on_world f s = s\<lparr>rt_world := f (rt_world s)\<rparr>"

definition from_world :: "('w \<Rightarrow> 'a \<times> 'w) \<Rightarrow> 'w rt \<Rightarrow> 'a \<times> 'w rt" where
  "from_world f s = (let (x, w) = f (rt_world s) in (x, s\<lparr>rt_world := w\<rparr>))"

section \<open>Operations\<close>

definition IsConnected :: "ConnectionBase \<Rightarrow> bool" where
  "IsConnected c = m_isConnected c"

definition setConnected :: "bool \<Rightarrow> ConnectionBase \<Rightarrow> ConnectionBase" where
  "setConnected connect c = c\<lparr>m_isConnected := connect\<rparr>"

definition login :: "'w platform \<Rightarrow> ConnectionBase \<Rightarrow> 'w rt \<Rightarrow> (HARE_ERROR_E \<times> 'w rt) res" where
  "login P c s =
     bindr (handle (m_conn c)) (\<lambda>conn.
     let (amqpReply, s1) =
           from_world (amqp_login (api P) conn ''/'' 0 131072 0 (AMQP_SASL_METHOD_PLAIN (codes P))
             (upto_NUL (m_username (m_basicCredentials c)))
             (upto_NUL (m_password (m_basicCredentials c)))) s in
     Inr (if reply_type amqpReply \<noteq> 1 then SERVER_AUTHENTICATION_FAILURE else ALL_GOOD, s1))"

definition Connection :: "ConnectionBase \<Rightarrow> connection_state" where
  "Connection c = m_conn c"

definition CONNECTION_TIMEOUT_SECONDS :: int where
  "CONNECTION_TIMEOUT_SECONDS = 1"

definition ConnectionBase_init :: "string \<Rightarrow> int \<Rightarrow> string \<Rightarrow> string \<Rightarrow> ConnectionBase" where
  "ConnectionBase_init hostname port username password =
     \<lparr>m_socket = Null, m_conn = Indeterminate,
      m_basicCredentials = \<lparr>m_hostname = hostname, m_port = port, m_username = username,
        m_password = password\<rparr>,
      m_sslCredentials = \<lparr>m_pathToCACert = '''', m_pathToClientKey = '''', m_pathToClientCert = ''''\<rparr>,
      m_isConnected = False, m_isSSL = False, m_connectionFailure = False,
      m_timeout = CONNECTION_TIMEOUT_SECONDS\<rparr>"

definition CloseConnection :: "'w platform \<Rightarrow> ConnectionBase \<Rightarrow> 'w rt \<Rightarrow> 'w conn_res" where
  "CloseConnection P c s =
     (if IsConnected c
      then bindr (handle (m_conn c)) (\<lambda>conn.
           let (amqpReply, s1) =
                 from_world (amqp_connection_close (api P) conn (AMQP_REPLY_SUCCESS (codes P))) s;
               (retCode, failure) =
                 (if reply_type amqpReply = AMQP_RESPONSE_NORMAL (codes P)
                  then (ALL_GOOD, m_connectionFailure c)
                  else if reply_type amqpReply = AMQP_RESPONSE_NONE (codes P)
                  then (NO_RPC_REPLY, m_connectionFailure c)
                  else if reply_type amqpReply = AMQP_RESPONSE_SERVER_EXCEPTION (codes P)
                  then (SERVER_EXCEPTION_RESPONSE, True)
                  else (ALL_GOOD, m_connectionFailure c));
               s2 = on_world (amqp_destroy_connection (api P) conn) s1 in
           Inr (retCode,
                setConnected False (c\<lparr>m_connectionFailure := failure, m_conn := Destroyed conn\<rparr>), s2))
      else Inr (ALL_GOOD, setConnected False c, s))"

definition SetTimeout :: "int \<Rightarrow> ConnectionBase \<Rightarrow> ConnectionBase" where
  "SetTimeout timeout c = c\<lparr>m_timeout := timeout\<rparr>"

definition connectBasic :: "'w platform \<Rightarrow> ConnectionBase \<Rightarrow> 'w rt \<Rightarrow> 'w conn_res" where
  "connectBasic P c s =
     (let (conn, s1) = from_world (amqp_new_connection (api P)) s;
          c1 = c\<lparr>m_socket := Null, m_conn := Allocated conn\<rparr> in
      bindr (handle (m_conn c1)) (\<lambda>conn.
      let (sock, s2) = from_world (amqp_tcp_socket_new (api P) conn) s1;
          c2 = c1\<lparr>m_socket := sock\<rparr>;
          retCode = (if sock = Null then INITIALIZE_FAILURE else ALL_GOOD) in
      if noError retCode
      then let (status, s3) =
                 from_world (amqp_socket_open_noblock (api P) sock
                   (upto_NUL (m_hostname (m_basicCredentials c2)))
                   (m_port (m_basicCredentials c2)) 2) s2 in
           Inr (if status \<noteq> 0 then SERVER_CONNECTION_FAILURE else retCode, c2, s3)
      else Inr (retCode, c2, s2)))"

definition Connect :: "'w platform \<Rightarrow> ConnectionBase \<Rightarrow> 'w rt \<Rightarrow> 'w conn_res" where
  "Connect P c s =
     bindr (if m_isSSL c then Inr (ALL_GOOD, c, s) else connectBasic P c s) (\<lambda>(retCode, c1, s1).
     bindr (if noError retCode then login P c1 s1 else Inr (retCode, s1)) (\<lambda>(retCode, s2).
     Inr (retCode, if noError retCode then setConnected True c1 else c1, s2)))"

section \<open>Decoding replies\<close>

definition decodeLibraryException :: "amqp_codes \<Rightarrow> amqp_rpc_reply \<Rightarrow> HARE_ERROR_E" where
  "decodeLibraryException K reply =
     (let e = library_error reply in
      if e = AMQP_STATUS_INCOMPATIBLE_AMQP_VERSION K then INVALID_AMQP_VERSION
      else if e = AMQP_STATUS_CONNECTION_CLOSED K then SERVER_CONNECTION_FAILURE
      else if e = AMQP_STATUS_INVALID_PARAMETER K then INVALID_PARAMETERS
      else if e = AMQP_STATUS_SOCKET_ERROR K then SERVER_CONNECTION_FAILURE
      else if e = AMQP_STATUS_TIMEOUT K then TIMEOUT_OCCURED
      else if e = AMQP_STATUS_SOCKET_CLOSED K then SERVER_CONNECTION_FAILURE
      else if e = AMQP_STATUS_SSL_CONNECTION_FAILED K then SERVER_AUTHENTICATION_FAILURE
      else if e = AMQP_STATUS_SSL_HOSTNAME_VERIFY_FAILED K then SERVER_AUTHENTICATION_FAILURE
      else if e = AMQP_STATUS_UNEXPECTED_STATE K then SERVER_CONNECTION_FAILURE
      else ALL_GOOD)"

definition decodeRpcReply :: "amqp_codes \<Rightarrow> amqp_rpc_reply \<Rightarrow> HARE_ERROR_E" where
  "decodeRpcReply K reply =
     (if reply_type reply = AMQP_RESPONSE_NORMAL K then ALL_GOOD
      else if reply_type reply = AMQP_RESPONSE_NONE K then NO_RPC_REPLY
      else if reply_type reply = AMQP_RESPONSE_LIBRARY_EXCEPTION K
      then decodeLibraryException K reply
      else if reply_type reply = AMQP_RESPONSE_SERVER_EXCEPTION K
      then if reply_id reply = AMQP_CONNECTION_CLOSE_METHOD K then SERVER_CONNECTION_FAILURE
           else if reply_id reply = AMQP_CHANNEL_CLOSE_METHOD K then CHANNEL_EXCEPTION
           else ALL_GOOD
      else ALL_GOOD)"

text \<open>\<open>decodeRpcReply(amqp_get_rpc_reply(m_conn))\<close>\<close>

definition rpc_result :: "'w platform \<Rightarrow> ptr \<Rightarrow> 'w rt \<Rightarrow> HARE_ERROR_E \<times> 'w rt" where
  "rpc_result P conn s =
     (let (reply, s1) = from_world (amqp_get_rpc_reply (api P) conn) s in
      (decodeRpcReply (codes P) reply, s1))"

section \<open>Channels and exchanges\<close>

definition DeclareExchange ::
    "'w platform \<Rightarrow> int \<Rightarrow> string \<Rightarrow> string \<Rightarrow> ConnectionBase \<Rightarrow> 'w rt \<Rightarrow>
     (HARE_ERROR_E \<times> 'w rt) res" where
  "DeclareExchange P channel exchange type c s =
     (if \<not> IsConnected c then Inr (SERVER_CONNECTION_FAILURE, s)
      else bindr (handle (m_conn c)) (\<lambda>conn.
           let s1 = on_world (amqp_exchange_declare (api P) conn (wire_channel channel)
                      (upto_NUL exchange) (upto_NUL type) 0 0 0 0 (amqp_empty_table (bapi P))) s in
           Inr (rpc_result P conn s1)))"

definition OpenChannel ::
    "'w platform \<Rightarrow> int \<Rightarrow> ConnectionBase \<Rightarrow> 'w rt \<Rightarrow> (HARE_ERROR_E \<times> 'w rt) res" where
  "OpenChannel P channel c s =
     (if \<not> IsConnected c then Inr (SERVER_CONNECTION_FAILURE, s)
      else bindr (handle (m_conn c)) (\<lambda>conn.
           let s1 = on_world (amqp_channel_open (api P) conn (wire_channel channel)) s;
               (retCode, s2) = rpc_result P conn s1;
               s3 = (if retCode = CHANNEL_EXCEPTION
                     then snd (from_world (amqp_send_method (api P) conn (wire_channel channel)
                                 (AMQP_CHANNEL_CLOSE_OK_METHOD (codes P))) s2)
                     else s2) in
           Inr (retCode, s3)))"

definition CloseChannel ::
    "'w platform \<Rightarrow> int \<Rightarrow> ConnectionBase \<Rightarrow> 'w rt \<Rightarrow> (HARE_ERROR_E \<times> 'w rt) res" where
  "CloseChannel P channel c s =
     (if \<not> IsConnected c then Inr (UNABLE_TO_CLOSE_CHANNEL, s)
      else bindr (handle (m_conn c)) (\<lambda>conn.
           Inr (ALL_GOOD, on_world (amqp_channel_close (api P) conn (wire_channel channel)
                            (AMQP_REPLY_SUCCESS (codes P))) s)))"

section \<open>Messages\<close>

text \<open>The byte strings behind the flagged fields of the properties, as the library reads them.\<close>

fun wire_fields ::
    "(32 word \<times> (amqp_basic_properties \<Rightarrow> amqp_bytes option)) list \<Rightarrow> heap \<Rightarrow>
     amqp_basic_properties \<Rightarrow> string option list res" where
  "wire_fields [] hp p = Inr []"
| "wire_fields ((f, sel) # fs) hp p =
     bindr (if has_flag f (p_flags p)
            then (case sel p of
                    None \<Rightarrow> Inl UninitRead
                  | Some b \<Rightarrow> bindr (deref_bytes hp b) (\<lambda>x. Inr (Some x)))
            else Inr None) (\<lambda>x.
     bindr (wire_fields fs hp p) (\<lambda>xs. Inr (x # xs)))"

text \<open>The timestamp \<open>PublishMessage\<close> adds when the message has none.\<close>

definition stamp :: "'w platform \<Rightarrow> RawMessage \<Rightarrow> 'w rt \<Rightarrow> RawMessage" where
  "stamp P message s =
     (if has_flag (AMQP_BASIC_TIMESTAMP_FLAG (flags P)) (p_flags (rm_properties message))
      then message
      else message\<lparr>rm_properties := (rm_properties message)
             \<lparr>p_flags := p_flags (rm_properties message) OR AMQP_BASIC_TIMESTAMP_FLAG (flags P),
              p_timestamp := Some (system_clock_now (runtime P) (rt_world s))\<rparr>\<rparr>)"

definition PublishMessage ::
    "'w platform \<Rightarrow> RawMessage \<Rightarrow> ConnectionBase \<Rightarrow> 'w rt \<Rightarrow>
     (HARE_ERROR_E \<times> RawMessage \<times> 'w rt) res" where
  "PublishMessage P message c s =
     (if \<not> IsConnected c then Inr (SERVER_CONNECTION_FAILURE, message, s)
      else
        let m = stamp P message s in
        bindr (handle (m_conn c)) (\<lambda>conn.
        bindr (deref_bytes (rt_heap s) (rm_exchange m)) (\<lambda>exchange.
        bindr (deref_bytes (rt_heap s) (rm_routing_key m)) (\<lambda>routing_key.
        bindr (wire_fields (byte_fields (flags P)) (rt_heap s) (rm_properties m)) (\<lambda>fields.
        bindr (deref_bytes (rt_heap s) (rm_message m)) (\<lambda>body.
        let (errorVal, s1) =
              from_world (amqp_basic_publish (api P) conn (wire_channel (rm_channel m)) exchange
                routing_key 0 0 (rm_properties m) fields body) s;
            retCode = (if errorVal < 0
                       then if errorVal = AMQP_STATUS_SOCKET_ERROR (codes P)
                            then SERVER_CONNECTION_FAILURE else PUBLISH_ERROR
                       else ALL_GOOD) in
        Inr (retCode, m, s1)))))))"

definition ConsumeMessage ::
    "'w platform \<Rightarrow> amqp_envelope option \<Rightarrow> ConnectionBase \<Rightarrow> 'w rt \<Rightarrow>
     (HARE_ERROR_E \<times> amqp_envelope option \<times> 'w rt) res" where
  "ConsumeMessage P envelope c s =
     (if \<not> IsConnected c then Inr (SERVER_CONNECTION_FAILURE, envelope, s)
      else bindr (handle (m_conn c)) (\<lambda>conn.
           case amqp_consume_message (api P) conn (m_timeout c) 0 (rt_heap s) (rt_world s) of
             (reply, filled, hp, w) \<Rightarrow>
               Inr (decodeRpcReply (codes P) reply,
                    (case filled of None \<Rightarrow> envelope | Some e \<Rightarrow> Some e),
                    s\<lparr>rt_heap := hp, rt_world := w\<rparr>)))"

section \<open>Queues\<close>

definition StartConsumption ::
    "'w platform \<Rightarrow> int \<Rightarrow> amqp_bytes \<Rightarrow> ConnectionBase \<Rightarrow> 'w rt \<Rightarrow>
     (HARE_ERROR_E \<times> 'w rt) res" where
  "StartConsumption P channel queueName c s =
     bindr (handle (m_conn c)) (\<lambda>conn.
     bindr (deref_bytes (rt_heap s) queueName) (\<lambda>queue.
     let s1 = on_world (amqp_basic_consume (api P) conn (wire_channel channel) queue
                (amqp_empty_bytes (bapi P)) 0 1 0 (amqp_empty_table (bapi P))) s in
     Inr (rpc_result P conn s1)))"

text \<open>
  The outer \<open>retCode\<close> is shadowed by the one in the block, so it is the constant that is
  returned. The reference parameter is the second result; testing its pointer reads it.
\<close>

definition DeclareQueue ::
    "'w platform \<Rightarrow> int \<Rightarrow> queueProperties \<Rightarrow> amqp_bytes option \<Rightarrow> ConnectionBase \<Rightarrow> 'w rt \<Rightarrow>
     (HARE_ERROR_E \<times> amqp_bytes option \<times> 'w rt) res" where
  "DeclareQueue P channel queueProps retQueue c s =
     bindr (handle (m_conn c)) (\<lambda>conn.
     case amqp_queue_declare (api P) conn (wire_channel channel) (amqp_empty_bytes (bapi P))
            (m_passive queueProps) (m_durable queueProps) (m_exclusive queueProps)
            (m_autoDelete queueProps) (amqp_empty_table (bapi P)) (rt_heap s) (rt_world s) of
       (r, hp, w) \<Rightarrow>
         let (inner, s1) = rpc_result P conn (s\<lparr>rt_heap := hp, rt_world := w\<rparr>) in
         bindr (if noError inner
                then (case r of
                        None \<Rightarrow> Inl NullDeref
                      | Some queue \<Rightarrow>
                          bindr (amqp_bytes_malloc_dup (bapi P) queue (rt_heap s1)) (\<lambda>(q, hp').
                          Inr (Some q, s1\<lparr>rt_heap := hp'\<rparr>)))
                else Inr (retQueue, s1)) (\<lambda>(retQueue, s2).
         case retQueue of
           None \<Rightarrow> Inl UninitRead
         | Some _ \<Rightarrow> Inr (ALL_GOOD, retQueue, s2)))"

definition BindQueue ::
    "'w platform \<Rightarrow> int \<Rightarrow> amqp_bytes \<Rightarrow> string \<Rightarrow> string \<Rightarrow> ConnectionBase \<Rightarrow> 'w rt \<Rightarrow>
     (HARE_ERROR_E \<times> 'w rt) res" where
  "BindQueue P channel queueName exchange bindingKey c s =
     bindr (handle (m_conn c)) (\<lambda>conn.
     bindr (deref_bytes (rt_heap s) queueName) (\<lambda>queue.
     let s1 = on_world (amqp_queue_bind (api P) conn (wire_channel channel) queue
                (upto_NUL exchange) (upto_NUL bindingKey) (amqp_empty_table (bapi P))) s in
     Inr (rpc_result P conn s1)))"

definition ConnectionBase_destroy :: "'w platform \<Rightarrow> ConnectionBase \<Rightarrow> 'w rt \<Rightarrow> 'w conn_res" where
  "ConnectionBase_destroy P c s = CloseConnection P c s"

section \<open>Invariant\<close>

text \<open>
  \<open>amqp_new_connection\<close> returns null only when memory runs out; the program does not test for
  it, and the next call would dereference the null pointer.
\<close>

definition connections_available :: "'w platform \<Rightarrow> bool" where
  "connections_available P \<longleftrightarrow> (\<forall>w. fst (amqp_new_connection (api P) w) \<noteq> Null)"

text \<open>While \<open>m_isConnected\<close> is set, \<open>m_conn\<close> is an allocated connection.\<close>

definition conn_inv :: "'w platform \<Rightarrow> ConnectionBase \<Rightarrow> bool" where
  "conn_inv P c \<longleftrightarrow> connections_available P \<and> \<not> m_isSSL c \<and>
     (m_isConnected c \<longrightarrow> (\<exists>p. m_conn c = Allocated p \<and> p \<noteq> Null))"

named_theorems conn_simps \<open>unfolding the simple members of \<open>ConnectionBase\<close>\<close>

lemmas [conn_simps] = IsConnected_def setConnected_def Connection_def SetTimeout_def

lemma rt_heap_on_world [simp]: "rt_heap (on_world f s) = rt_heap s"
  by (simp add: on_world_def)

lemma rt_heap_from_world [simp]: "rt_heap (snd (from_world f s)) = rt_heap s"
  by (simp add: from_world_def split_beta)

lemma rt_heap_rpc_result [simp]: "rt_heap (snd (rpc_result P conn s)) = rt_heap s"
  by (simp add: rpc_result_def split_beta)

lemma conn_inv_init: "connections_available P \<Longrightarrow> conn_inv P (ConnectionBase_init h p u pw)"
  by (simp add: conn_inv_def ConnectionBase_init_def)

lemma conn_inv_SetTimeout [simp]: "conn_inv P (SetTimeout t c) \<longleftrightarrow> conn_inv P c"
  by (simp add: conn_inv_def conn_simps)

lemma conn_inv_connectedE:
  assumes "conn_inv P c" and "IsConnected c"
  obtains p where "m_conn c = Allocated p" and "handle (m_conn c) = Inr p"
  using assms by (auto simp: conn_inv_def conn_simps)

text \<open>The codes a connection attempt can end with.\<close>

definition connect_codes :: "HARE_ERROR_E list" where
  "connect_codes =
     [ALL_GOOD, INITIALIZE_FAILURE, SERVER_CONNECTION_FAILURE, SERVER_AUTHENTICATION_FAILURE]"

lemma connectBasic_ok:
  assumes "connections_available P"
  shows "okr (connectBasic P c s) (\<lambda>(r, c', s'). r \<in> set connect_codes \<and>
     rt_heap s' = rt_heap s \<and> (\<exists>p q. p \<noteq> Null \<and> c' = c\<lparr>m_conn := Allocated p, m_socket := q\<rparr>))"
  using assms
  by (auto simp: connectBasic_def connections_available_def from_world_def split_beta Let_def
      connect_codes_def)

lemma login_ok:
  assumes "m_conn c = Allocated p" and "p \<noteq> Null"
  shows "okr (login P c s) (\<lambda>(r, s'). r \<in> set connect_codes \<and> rt_heap s' = rt_heap s)"
  using assms by (auto simp: login_def from_world_def split_beta Let_def connect_codes_def)

lemma Connect_ok:
  assumes inv: "conn_inv P c"
  shows "okr (Connect P c s) (\<lambda>(r, c', s'). conn_inv P c' \<and> rt_heap s' = rt_heap s \<and>
     r \<in> set connect_codes \<and> (IsConnected c' \<longleftrightarrow> r = ALL_GOOD \<or> IsConnected c) \<and>
     (\<exists>p. m_conn c' = Allocated p \<and> p \<noteq> Null))"
proof -
  from inv have av: "connections_available P" and ssl: "\<not> m_isSSL c"
    by (simp_all add: conn_inv_def)
  from connectBasic_ok [OF av, of c s] obtain r c1 s1 p q where
      basic: "connectBasic P c s = Inr (r, c1, s1)" "r \<in> set connect_codes" "rt_heap s1 = rt_heap s"
      and c1: "p \<noteq> Null" "c1 = c\<lparr>m_conn := Allocated p, m_socket := q\<rparr>"
    by (auto simp: okr_def)
  show ?thesis
  proof (cases "r = ALL_GOOD")
    case True
    from c1 have "m_conn c1 = Allocated p" by simp
    from login_ok [OF this c1(1), of P s1] obtain r' s2 where "login P c1 s1 = Inr (r', s2)"
        "r' \<in> set connect_codes" "rt_heap s2 = rt_heap s1"
      by (auto simp: okr_def)
    with True basic c1 av ssl show ?thesis
      by (auto simp: Connect_def conn_inv_def conn_simps)
  next
    case False
    with basic c1 av ssl show ?thesis
      by (auto simp: Connect_def conn_inv_def conn_simps)
  qed
qed

lemma CloseConnection_ok:
  assumes inv: "conn_inv P c"
  shows "okr (CloseConnection P c s) (\<lambda>(r, c', s'). conn_inv P c' \<and> \<not> IsConnected c' \<and>
     rt_heap s' = rt_heap s \<and>
     r \<in> {ALL_GOOD, NO_RPC_REPLY, SERVER_EXCEPTION_RESPONSE} \<and>
     (\<forall>p. m_conn c' = Allocated p \<longrightarrow> \<not> IsConnected c \<and> c' = c \<and> s' = s))"
proof (cases "IsConnected c")
  case True
  with inv obtain p where "m_conn c = Allocated p" "handle (m_conn c) = Inr p"
    by (rule conn_inv_connectedE)
  with True inv show ?thesis
    by (auto simp: CloseConnection_def conn_inv_def conn_simps split_beta Let_def from_world_def)
next
  case False
  then have "setConnected False c = c" by (simp add: conn_simps)
  with False inv show ?thesis by (simp add: CloseConnection_def)
qed

interpretation conn: session IsConnected "conn_inv P" "Connect P" "CloseConnection P"
  for P :: "'w platform"
proof
  fix c :: ConnectionBase and s :: "'w rt"
  assume inv: "conn_inv P c"
  show "okr (CloseConnection P c s) (\<lambda>(r, c', s'). conn_inv P c' \<and> \<not> IsConnected c')"
    by (rule okr_mono [OF CloseConnection_ok [OF inv]]) auto
  assume "\<not> IsConnected c"
  then show "okr (Connect P c s) (\<lambda>(r, c', s'). conn_inv P c' \<and> (IsConnected c' \<longleftrightarrow> r = ALL_GOOD))"
    by (intro okr_mono [OF Connect_ok [OF inv]]) auto
  show "CloseConnection P c s = Inr (ALL_GOOD, c, s)"
    using \<open>\<not> IsConnected c\<close> by (simp add: CloseConnection_def conn_simps)
qed

section \<open>Calls on a connection\<close>

text \<open>What a caller may assume of every operation that only talks to the broker.\<close>

definition keeps_heap :: "'w rt \<Rightarrow> (HARE_ERROR_E \<times> 'w rt) res \<Rightarrow> bool" where
  "keeps_heap s r \<longleftrightarrow> okr r (\<lambda>(code, s'). rt_heap s' = rt_heap s)"

lemma rpc_result_heap: "rt_heap s1 = rt_heap s \<Longrightarrow> keeps_heap s (Inr (rpc_result P conn s1))"
  by (simp add: keeps_heap_def split_beta)

lemma OpenChannel_ok: "conn_inv P c \<Longrightarrow> keeps_heap s (OpenChannel P ch c s)"
  by (cases "IsConnected c")
     (auto simp: OpenChannel_def keeps_heap_def split_beta Let_def elim!: conn_inv_connectedE)

lemma DeclareExchange_ok: "conn_inv P c \<Longrightarrow> keeps_heap s (DeclareExchange P ch ex ty c s)"
  by (cases "IsConnected c")
     (auto simp: DeclareExchange_def keeps_heap_def split_beta Let_def elim!: conn_inv_connectedE)

lemma CloseChannel_ok: "conn_inv P c \<Longrightarrow> keeps_heap s (CloseChannel P ch c s)"
  by (cases "IsConnected c")
     (auto simp: CloseChannel_def keeps_heap_def split_beta Let_def elim!: conn_inv_connectedE)

text \<open>A queued message whose buffers and flagged properties the library can read.\<close>

definition raw_readable :: "basic_flags \<Rightarrow> heap \<Rightarrow> RawMessage \<Rightarrow> bool" where
  "raw_readable F hp m \<longleftrightarrow>
     okr (deref_bytes hp (rm_exchange m)) (\<lambda>_. True) \<and>
     okr (deref_bytes hp (rm_routing_key m)) (\<lambda>_. True) \<and>
     okr (deref_bytes hp (rm_message m)) (\<lambda>_. True) \<and>
     okr (wire_fields (byte_fields F) hp (rm_properties m)) (\<lambda>_. True)"

lemma stamp_bytes [simp]:
  "rm_exchange (stamp P m s) = rm_exchange m" "rm_routing_key (stamp P m s) = rm_routing_key m"
  "rm_message (stamp P m s) = rm_message m" "rm_channel (stamp P m s) = rm_channel m"
  by (simp_all add: stamp_def)

lemma owned_stamp [simp]: "owned (stamp P m s) = owned m"
  by (simp add: owned_def)

lemma wire_fields_cong:
  "\<forall>(f, sel) \<in> set fs. has_flag f (p_flags p') = has_flag f (p_flags p) \<and> sel p' = sel p \<Longrightarrow>
     wire_fields fs hp p' = wire_fields fs hp p"
  by (induction fs) auto

lemma byte_fields_timestamp:
  assumes "basic_flags_ok F"
  shows "\<forall>(f, sel) \<in> set (byte_fields F). f AND AMQP_BASIC_TIMESTAMP_FLAG F = 0 \<and>
     (\<forall>p w t. sel (p\<lparr>p_flags := w, p_timestamp := t\<rparr>) = sel p)"
  using assms by (simp add: basic_flags_ok_def flag_list_def byte_fields_def and.commute)

lemma stamp_wire_fields:
  assumes "basic_flags_ok (flags P)"
  shows "wire_fields (byte_fields (flags P)) hp (rm_properties (stamp P m s)) =
     wire_fields (byte_fields (flags P)) hp (rm_properties m)"
  by (rule wire_fields_cong)
     (use byte_fields_timestamp [OF assms] in
       \<open>auto simp: stamp_def has_flag_other and.commute dest!: bspec\<close>)

lemma PublishMessage_ok:
  assumes F: "basic_flags_ok (flags P)" and inv: "conn_inv P c"
    and m: "raw_readable (flags P) (rt_heap s) m"
  shows "okr (PublishMessage P m c s) (\<lambda>(r, m', s'). rt_heap s' = rt_heap s \<and>
     owned m' = owned m \<and> m' = (if IsConnected c then stamp P m s else m) \<and>
     r \<in> {ALL_GOOD, PUBLISH_ERROR, SERVER_CONNECTION_FAILURE})"
proof (cases "IsConnected c")
  case True
  with inv obtain p where "handle (m_conn c) = Inr p" by (rule conn_inv_connectedE)
  with True m show ?thesis
    by (auto simp: PublishMessage_def raw_readable_def okr_def stamp_wire_fields [OF F] Let_def
        split_beta)
next
  case False
  then show ?thesis by (simp add: PublishMessage_def)
qed

section \<open>Properties\<close>

text \<open>
  C18. Connecting never runs into undefined behaviour, whatever the broker answers, and reports
  the truth: a connection that was closed is open afterwards exactly when the result is
  \<open>ALL_GOOD\<close>, every other result being one of the three documented failures.
\<close>

theorem connect_reports_truth:
  assumes "conn_inv P c" and "\<not> IsConnected c"
  shows "okr (Connect P c s) (\<lambda>(r, c', s'). conn_inv P c' \<and> (IsConnected c' \<longleftrightarrow> r = ALL_GOOD) \<and>
     r \<in> set connect_codes)"
  by (rule okr_mono [OF Connect_ok [OF assms(1)]]) (use assms(2) in auto)

definition sample_conn :: ConnectionBase where
  "sample_conn = ConnectionBase_init ''localhost'' 5672 ''guest'' ''guest''"

lemma ref_connections_available: "connections_available ref_platform"
  by (simp add: connections_available_def ref_api_def)

lemma sample_conn_inv: "conn_inv ref_platform sample_conn"
  by (simp add: sample_conn_def conn_inv_init ref_connections_available)

lemma sample_conn_closed: "\<not> IsConnected sample_conn"
  by (simp add: sample_conn_def ConnectionBase_init_def IsConnected_def)

theorem connect_reports_truth_witness:
  "okr (Connect ref_platform sample_conn quiet_rt) (\<lambda>(r, c', s'). conn_inv ref_platform c' \<and>
     (IsConnected c' \<longleftrightarrow> r = ALL_GOOD) \<and> r \<in> set connect_codes)"
  by (rule connect_reports_truth [OF sample_conn_inv sample_conn_closed])

text \<open>
  A failed attempt leaks: the connection state that the library allocated stays allocated,
  and closing the connection afterwards calls nothing and leaves it so.
\<close>

theorem failed_connect_leaks:
  assumes inv: "conn_inv P c" and closed: "\<not> IsConnected c"
    and fail: "Connect P c s = Inr (r, c', s')" "r \<noteq> ALL_GOOD"
  shows "\<exists>p. p \<noteq> Null \<and> m_conn c' = Allocated p \<and> CloseConnection P c' s' = Inr (ALL_GOOD, c', s')"
proof -
  from Connect_ok [OF inv, of s] fail closed have "conn_inv P c'" "\<not> IsConnected c'"
      "\<exists>p. m_conn c' = Allocated p \<and> p \<noteq> Null"
    by (auto simp: okr_def)
  then show ?thesis using conn.close_closed [of P c' s'] by blast
qed

definition refusing_rt :: "ref_world rt" where
  "refusing_rt = quiet_rt\<lparr>rt_world := quiet_world\<lparr>rw_statuses := [- 9]\<rparr>\<rparr>"

lemmas conn_eval = Connect_def connectBasic_def login_def conn_simps sample_conn_def
  ConnectionBase_init_def ref_api_def from_world_def on_world_def next_status_def next_reply_def
  quiet_rt_def quiet_world_def normal_reply_def Let_def

theorem failed_connect_leaks_witness:
  "\<exists>p. p \<noteq> Null \<and>
     m_conn (fst (snd (projr (Connect ref_platform sample_conn refusing_rt)))) = Allocated p \<and>
     CloseConnection ref_platform
       (fst (snd (projr (Connect ref_platform sample_conn refusing_rt))))
       (snd (snd (projr (Connect ref_platform sample_conn refusing_rt)))) =
     Inr (ALL_GOOD, fst (snd (projr (Connect ref_platform sample_conn refusing_rt))),
       snd (snd (projr (Connect ref_platform sample_conn refusing_rt))))"
  by (rule failed_connect_leaks [OF sample_conn_inv sample_conn_closed,
        where s = refusing_rt and r = SERVER_CONNECTION_FAILURE])
     (simp_all add: refusing_rt_def conn_eval)

text \<open>
  Closing always ends with a closed connection and the library's state destroyed, whatever
  the broker answers, and closing again changes nothing and calls nothing.
\<close>

theorem close_is_final:
  assumes "conn_inv P c"
  shows "okr (CloseConnection P c s) (\<lambda>(r, c', s'). \<not> IsConnected c' \<and> conn_inv P c' \<and>
     (IsConnected c \<longrightarrow> (\<exists>p. m_conn c = Allocated p \<and> m_conn c' = Destroyed p)) \<and>
     CloseConnection P c' s' = Inr (ALL_GOOD, c', s'))"
proof -
  have "okr (CloseConnection P c s) (\<lambda>(r, c', s').
      IsConnected c \<longrightarrow> (\<exists>p. m_conn c = Allocated p \<and> m_conn c' = Destroyed p))"
  proof (cases "IsConnected c")
    case True
    with assms obtain p where "m_conn c = Allocated p" "handle (m_conn c) = Inr p"
      by (rule conn_inv_connectedE)
    with True show ?thesis
      by (auto simp: CloseConnection_def setConnected_def from_world_def split_beta Let_def)
  next
    case False
    then show ?thesis by (simp add: CloseConnection_def)
  qed
  with CloseConnection_ok [OF assms, of s] conn.close_twice [OF assms, of s] show ?thesis
    by (auto simp: okr_def)
qed

definition open_conn :: ConnectionBase where
  "open_conn = sample_conn\<lparr>m_conn := Allocated (Ptr 1), m_socket := Ptr 2, m_isConnected := True\<rparr>"

lemma open_conn_reached: "Connect ref_platform sample_conn quiet_rt = Inr (ALL_GOOD, open_conn, quiet_rt)"
  by (simp add: conn_eval open_conn_def)

lemma open_conn_inv: "conn_inv ref_platform open_conn"
  by (simp add: conn_inv_def open_conn_def ref_connections_available sample_conn_def
      ConnectionBase_init_def)

theorem close_is_final_witness:
  "okr (CloseConnection ref_platform open_conn quiet_rt) (\<lambda>(r, c', s').
     \<not> IsConnected c' \<and> conn_inv ref_platform c' \<and>
     (IsConnected open_conn \<longrightarrow> (\<exists>p. m_conn open_conn = Allocated p \<and> m_conn c' = Destroyed p)) \<and>
     CloseConnection ref_platform c' s' = Inr (ALL_GOOD, c', s'))"
  by (rule close_is_final [OF open_conn_inv])

lemma library_exception_good_iff:
  "decodeLibraryException K reply = ALL_GOOD \<longleftrightarrow> library_error reply \<notin> set (status_list K)"
  by (simp add: decodeLibraryException_def Let_def status_list_def)

lemma library_exception_server_failure_iff:
  assumes "distinct (status_list K)"
  shows "serverFailure (decodeLibraryException K reply) \<longleftrightarrow>
     library_error reply \<in> {AMQP_STATUS_CONNECTION_CLOSED K, AMQP_STATUS_SOCKET_ERROR K,
       AMQP_STATUS_SOCKET_CLOSED K, AMQP_STATUS_UNEXPECTED_STATE K}"
  using assms
  by (simp add: decodeLibraryException_def Let_def status_list_def serverFailure_def)

text \<open>The responses are told apart by their types.\<close>

lemma decode_cases:
  assumes "amqp_codes_ok K"
  shows
    "reply_type reply = AMQP_RESPONSE_NORMAL K \<Longrightarrow> decodeRpcReply K reply = ALL_GOOD"
    "reply_type reply = AMQP_RESPONSE_NONE K \<Longrightarrow> decodeRpcReply K reply = NO_RPC_REPLY"
    "reply_type reply = AMQP_RESPONSE_LIBRARY_EXCEPTION K \<Longrightarrow>
       decodeRpcReply K reply = decodeLibraryException K reply"
    "reply_type reply = AMQP_RESPONSE_SERVER_EXCEPTION K \<Longrightarrow>
       decodeRpcReply K reply =
         (if reply_id reply = AMQP_CONNECTION_CLOSE_METHOD K then SERVER_CONNECTION_FAILURE
          else if reply_id reply = AMQP_CHANNEL_CLOSE_METHOD K then CHANNEL_EXCEPTION
          else ALL_GOOD)"
    "reply_type reply \<notin> set (response_list K) \<Longrightarrow> decodeRpcReply K reply = ALL_GOOD"
  using assms by (auto simp: decodeRpcReply_def amqp_codes_ok_def response_list_def)

lemma response_types_differ:
  assumes "amqp_codes_ok K"
  shows "distinct [AMQP_RESPONSE_NONE K, AMQP_RESPONSE_NORMAL K,
     AMQP_RESPONSE_LIBRARY_EXCEPTION K, AMQP_RESPONSE_SERVER_EXCEPTION K]"
  using assms by (simp add: amqp_codes_ok_def response_list_def)

text \<open>
  C31. Which replies the library takes for a success: a normal one, but also a library exception
  it has no case for and a server exception other than a connection or channel close.
\<close>

theorem decode_good_iff:
  assumes "amqp_codes_ok K"
  shows "decodeRpcReply K reply = ALL_GOOD \<longleftrightarrow>
     reply_type reply = AMQP_RESPONSE_NORMAL K \<or>
     reply_type reply = AMQP_RESPONSE_LIBRARY_EXCEPTION K \<and>
       library_error reply \<notin> set (status_list K) \<or>
     reply_type reply = AMQP_RESPONSE_SERVER_EXCEPTION K \<and>
       reply_id reply \<notin> {AMQP_CONNECTION_CLOSE_METHOD K, AMQP_CHANNEL_CLOSE_METHOD K} \<or>
     reply_type reply \<notin> set (response_list K)"
proof -
  consider "reply_type reply = AMQP_RESPONSE_NORMAL K" | "reply_type reply = AMQP_RESPONSE_NONE K"
    | "reply_type reply = AMQP_RESPONSE_LIBRARY_EXCEPTION K"
    | "reply_type reply = AMQP_RESPONSE_SERVER_EXCEPTION K"
    | "reply_type reply \<notin> set (response_list K)"
    by (auto simp: response_list_def)
  then show ?thesis
    using response_types_differ [OF assms]
    by cases (simp_all add: decode_cases [OF assms] library_exception_good_iff response_list_def)
qed

theorem decode_good_iff_witness:
  "decodeRpcReply ref_codes (library_reply (- 1)) = ALL_GOOD"
  by (subst decode_good_iff [OF ref_codes_ok])
     (simp add: library_reply_def ref_codes_def status_list_def)

text \<open>
  Which replies make the clients drop the connection (\<open>serverFailure\<close>): exactly a
  \<open>connection.close\<close> from the server and four statuses of the library. In particular a channel
  exception and a timeout do not.
\<close>

theorem decode_server_failure_iff:
  assumes "amqp_codes_ok K"
  shows "serverFailure (decodeRpcReply K reply) \<longleftrightarrow>
     reply_type reply = AMQP_RESPONSE_LIBRARY_EXCEPTION K \<and>
       library_error reply \<in> {AMQP_STATUS_CONNECTION_CLOSED K, AMQP_STATUS_SOCKET_ERROR K,
         AMQP_STATUS_SOCKET_CLOSED K, AMQP_STATUS_UNEXPECTED_STATE K} \<or>
     reply_type reply = AMQP_RESPONSE_SERVER_EXCEPTION K \<and>
       reply_id reply = AMQP_CONNECTION_CLOSE_METHOD K"
proof -
  from assms have st: "distinct (status_list K)" by (simp add: amqp_codes_ok_def)
  consider "reply_type reply = AMQP_RESPONSE_NORMAL K" | "reply_type reply = AMQP_RESPONSE_NONE K"
    | "reply_type reply = AMQP_RESPONSE_LIBRARY_EXCEPTION K"
    | "reply_type reply = AMQP_RESPONSE_SERVER_EXCEPTION K"
    | "reply_type reply \<notin> set (response_list K)"
    by (auto simp: response_list_def)
  then show ?thesis
    using response_types_differ [OF assms]
    by cases (simp_all add: decode_cases [OF assms] library_exception_server_failure_iff [OF st]
        response_list_def)
qed

theorem decode_server_failure_iff_witness:
  "serverFailure (decodeRpcReply ref_codes (library_reply (- 9)))"
  by (subst decode_server_failure_iff [OF ref_codes_ok])
     (simp add: library_reply_def ref_codes_def)


definition sample_raw :: RawMessage where
  "sample_raw =
     \<lparr>rm_exchange = \<lparr>ab_len = 0, ab_bytes = Null\<rparr>, rm_channel = 1,
      rm_routing_key = \<lparr>ab_len = 0, ab_bytes = Null\<rparr>, rm_properties = indeterminate_properties,
      rm_message = \<lparr>ab_len = 0, ab_bytes = Null\<rparr>\<rparr>"

lemma sample_raw_readable: "raw_readable ref_flags hp sample_raw"
  by (simp add: raw_readable_def sample_raw_def deref_bytes_def load_bytes_def byte_fields_def
      ref_flags_def indeterminate_properties_def)


text \<open>
  C39. \<open>DeclareQueue\<close> hides the broker's refusal: when the reply is an error, the result is
  still \<open>ALL_GOOD\<close> with the queue name the caller passed in, and with an uninitialised name, as
  the consumer passes it, an indeterminate pointer is read.
\<close>

theorem declare_queue_hides_refusal:
  assumes con: "m_conn c = Allocated p" "p \<noteq> Null"
    and decl: "amqp_queue_declare (api P) p (wire_channel ch) (amqp_empty_bytes (bapi P))
            (m_passive qp) (m_durable qp) (m_exclusive qp) (m_autoDelete qp)
            (amqp_empty_table (bapi P)) (rt_heap s) (rt_world s) = (r, hp, w)"
    and refused: "rpc_result P p (s\<lparr>rt_heap := hp, rt_world := w\<rparr>) = (code, s')" "code \<noteq> ALL_GOOD"
  shows "DeclareQueue P ch qp q c s =
     (if q = None then Inl UninitRead else Inr (ALL_GOOD, q, s'))"
  using assms by (cases q) (simp_all add: DeclareQueue_def Let_def)

definition closing_rt :: "ref_world rt" where
  "closing_rt = quiet_rt\<lparr>rt_world := quiet_world\<lparr>rw_replies := [server_reply 1310760]\<rparr>\<rparr>"

theorem declare_queue_hides_refusal_witness:
  "DeclareQueue ref_platform 1 default_queueProperties None open_conn closing_rt =
     (if (None :: amqp_bytes option) = None then Inl UninitRead
      else Inr (ALL_GOOD, None,
        snd (rpc_result ref_platform (Ptr 1)
          (closing_rt\<lparr>rt_heap := fst (snd (ref_queue_declare (rt_heap closing_rt) (rt_world closing_rt)))\<rparr>))))"
  by (rule declare_queue_hides_refusal [where p = "Ptr 1" and code = CHANNEL_EXCEPTION
        and hp = "fst (snd (ref_queue_declare (rt_heap closing_rt) (rt_world closing_rt)))"
        and w = "rt_world closing_rt"
        and r = "fst (ref_queue_declare (rt_heap closing_rt) (rt_world closing_rt))"])
     (simp_all add: open_conn_def ref_api_def ref_queue_declare_def Let_def rpc_result_def
        from_world_def next_reply_def closing_rt_def quiet_rt_def quiet_world_def server_reply_def
        decodeRpcReply_def ref_codes_def)

text \<open>
  The three queue operations do not test for an open connection: after \<open>CloseConnection\<close>
  each of them hands the destroyed state to the library.
\<close>

theorem queue_operations_after_close:
  assumes inv: "conn_inv P c" and con: "IsConnected c"
  shows "okr (CloseConnection P c s) (\<lambda>(r, c', s').
     StartConsumption P ch queue c' s' = Inl UseAfterFree \<and>
     DeclareQueue P ch qp q c' s' = Inl UseAfterFree \<and>
     BindQueue P ch queue ex key c' s' = Inl UseAfterFree)"
proof -
  from inv con obtain p where "m_conn c = Allocated p" "handle (m_conn c) = Inr p"
    by (rule conn_inv_connectedE)
  with con show ?thesis
    by (auto simp: CloseConnection_def setConnected_def from_world_def split_beta Let_def
        StartConsumption_def DeclareQueue_def BindQueue_def)
qed

theorem queue_operations_after_close_witness:
  "okr (CloseConnection ref_platform open_conn quiet_rt) (\<lambda>(r, c', s').
     StartConsumption ref_platform 1 \<lparr>ab_len = 0, ab_bytes = Null\<rparr> c' s' = Inl UseAfterFree \<and>
     DeclareQueue ref_platform 1 default_queueProperties None c' s' = Inl UseAfterFree \<and>
     BindQueue ref_platform 1 \<lparr>ab_len = 0, ab_bytes = Null\<rparr> ''e'' ''k'' c' s' = Inl UseAfterFree)"
  by (rule queue_operations_after_close [OF open_conn_inv]) (simp add: open_conn_def IsConnected_def)

end
