(* ===== verification/Registry.thy ===== *)
theory Registry
  imports Prelude
begin

text \<open>
  The contract shared by the two places where the library hands out channel numbers:
  \<open>ChannelHandler::AddChannelProcessor\<close> (keyed by exchange and routing key) and
  \<open>Producer::addExchange\<close> (keyed by exchange). A registry maps keys to channels; adding a known
  key keeps its channel, adding an unknown one takes the next number. The lemmas about whole
  sequences of additions are proved here once, for every provider of the contract.
\<close>

locale channel_registry =
  fixes find :: "'s \<Rightarrow> 'k \<Rightarrow> int option"
    and add :: "'a \<Rightarrow> 's \<Rightarrow> 's"
    and key_of :: "'a \<Rightarrow> 'k"
    and next_channel :: "'s \<Rightarrow> int"
    and inv :: "'s \<Rightarrow> bool"
    and init :: 's
  assumes inv_init: "inv init"
    and find_init: "find init k = None"
    and next_init: "next_channel init = 1"
    and inv_add: "inv s \<Longrightarrow> next_channel s < INT_MAX \<Longrightarrow> inv (add a s)"
    and add_known: "inv s \<Longrightarrow> find s (key_of a) = Some c \<Longrightarrow>
          find (add a s) = find s \<and> next_channel (add a s) = next_channel s"
    and add_unknown: "inv s \<Longrightarrow> next_channel s < INT_MAX \<Longrightarrow> find s (key_of a) = None \<Longrightarrow>
          find (add a s) = (find s)(key_of a \<mapsto> next_channel s) \<and>
          next_channel (add a s) = next_channel s + 1"
begin

text \<open>The state after a sequence of additions.\<close>

definition run :: "'a list \<Rightarrow> 's" where
  "run as = fold add as init"

lemma run_Nil [simp]: "run [] = init"
  by (simp add: run_def)

lemma run_snoc [simp]: "run (as @ [a]) = add a (run as)"
  by (simp add: run_def)

text \<open>
  The channels in use after \<open>n\<close> distinct keys are the numbers 1 to \<open>n\<close>, each for one key.
\<close>

definition dense :: "'a list \<Rightarrow> bool" where
  "dense as \<longleftrightarrow>
     inv (run as) \<and> dom (find (run as)) = key_of ` set as \<and> inj_on (find (run as)) (key_of ` set as) \<and>
     ran (find (run as)) = {1..int (card (key_of ` set as))} \<and>
     next_channel (run as) = int (card (key_of ` set as)) + 1"

lemma dense_snoc:
  assumes d: "dense as" and small: "int (card (key_of ` set as)) + 1 < INT_MAX"
  shows "dense (as @ [a])"
proof (cases "key_of a \<in> key_of ` set as")
  case True
  then have ins: "insert (key_of a) (key_of ` set as) = key_of ` set as" by (rule insert_absorb)
  from d True obtain c where "find (run as) (key_of a) = Some c" by (auto simp: dense_def)
  with d small show ?thesis by (simp add: dense_def inv_add add_known ins)
next
  case False
  let ?n = "int (card (key_of ` set as))"
  from d have nx: "next_channel (run as) = ?n + 1" and iv: "inv (run as)"
    and dm: "dom (find (run as)) = key_of ` set as"
    and rn: "ran (find (run as)) = {1..?n}" and ij: "inj_on (find (run as)) (key_of ` set as)"
    by (simp_all add: dense_def)
  from False dm have none: "find (run as) (key_of a) = None" by blast
  have st: "find (add a (run as)) = (find (run as))(key_of a \<mapsto> ?n + 1)"
      "next_channel (add a (run as)) = ?n + 2"
    using add_unknown [OF iv _ none] small nx by simp_all
  have crd: "card (insert (key_of a) (key_of ` set as)) = Suc (card (key_of ` set as))"
    using False by simp
  have "Some (?n + 1) \<notin> find (run as) ` (key_of ` set as)"
  proof
    assume "Some (?n + 1) \<in> find (run as) ` (key_of ` set as)"
    then obtain k where "find (run as) k = Some (?n + 1)" by (metis imageE)
    then have "?n + 1 \<in> ran (find (run as))" by (rule ranI)
    with rn show False by simp
  qed
  with ij False have "inj_on ((find (run as))(key_of a \<mapsto> ?n + 1)) (insert (key_of a) (key_of ` set as))"
    by (auto simp: inj_on_fun_updI)
  moreover have "ran ((find (run as))(key_of a \<mapsto> ?n + 1)) = {1..?n + 1}"
    using rn none by (auto simp: ran_map_upd)
  ultimately show ?thesis
    using iv nx small by (auto simp: dense_def st crd dm inv_add)
qed

lemma run_dense: "int (card (key_of ` set as)) + 1 < INT_MAX \<Longrightarrow> dense as"
proof (induction as rule: rev_induct)
  case Nil
  show ?case by (simp add: dense_def inv_init find_init next_init dom_def ran_def)
next
  case (snoc a as)
  have "card (key_of ` set as) \<le> card (key_of ` set (as @ [a]))" by (rule card_mono) auto
  with snoc.prems have "int (card (key_of ` set as)) + 1 < INT_MAX" by linarith
  with snoc.IH show ?case by (simp add: dense_snoc)
qed

text \<open>A key never loses or changes its channel.\<close>

lemma add_stable:
  "inv s \<Longrightarrow> next_channel s < INT_MAX \<Longrightarrow> find s k = Some c \<Longrightarrow> find (add a s) k = Some c"
  by (cases "find s (key_of a)") (auto simp: add_known add_unknown)

lemma run_stable:
  assumes "int (card (key_of ` set (as @ bs))) + 1 < INT_MAX" and "find (run as) k = Some c"
  shows "find (run (as @ bs)) k = Some c"
  using assms
proof (induction bs rule: rev_induct)
  case Nil
  then show ?case by simp
next
  case (snoc b bs)
  have "card (key_of ` set (as @ bs)) \<le> card (key_of ` set (as @ bs @ [b]))"
    by (rule card_mono) auto
  with snoc.prems(1) have le: "int (card (key_of ` set (as @ bs))) + 1 < INT_MAX" by linarith
  then have "dense (as @ bs)" by (rule run_dense)
  with le have "inv (run (as @ bs))" "next_channel (run (as @ bs)) < INT_MAX"
    by (simp_all add: dense_def)
  with snoc.IH [OF le snoc.prems(2)] add_stable [of "run (as @ bs)" k c b] show ?case
    by (simp add: append_assoc [symmetric] del: append_assoc)
qed

lemma dense_range:
  "dense as \<Longrightarrow> find (run as) k = Some c \<Longrightarrow> 1 \<le> c \<and> c \<le> int (card (key_of ` set as))"
  by (auto simp: dense_def dest: ranI)

lemma dense_inj: "dense as \<Longrightarrow> find (run as) k = Some c \<Longrightarrow> find (run as) k' = Some c \<Longrightarrow> k = k'"
  unfolding dense_def by (metis domI inj_onD)

text \<open>
  On the wire a channel has 16 bits. Up to 65535 keys, different keys use different channels and
  none uses channel 0; with more than 65536 keys two of them share one.
\<close>

lemma run_wire_distinct:
  assumes "card (key_of ` set as) \<le> 65535"
    and "find (run as) k = Some c" and "find (run as) k' = Some c'" and "k \<noteq> k'"
  shows "wire_channel c \<noteq> wire_channel c' \<and> 0 < wire_channel c"
proof -
  from assms(1) have d: "dense as" by (intro run_dense) simp
  have "c \<noteq> c'" using dense_inj [OF d] assms(2-4) by blast
  with dense_range [OF d assms(2)] dense_range [OF d assms(3)] assms(1) show ?thesis
    by (auto simp: wire_channel_id)
qed

lemma run_wire_collision:
  assumes "65537 \<le> card (key_of ` set as)" and "int (card (key_of ` set as)) + 1 < INT_MAX"
  shows "\<exists>k k' c c'. k \<noteq> k' \<and> find (run as) k = Some c \<and> find (run as) k' = Some c' \<and>
     wire_channel c = wire_channel c'"
proof -
  from assms(2) have d: "dense as" by (rule run_dense)
  then have "ran (find (run as)) = {1..int (card (key_of ` set as))}" by (simp add: dense_def)
  with assms(1) have "1 \<in> ran (find (run as))" "65537 \<in> ran (find (run as))" by simp_all
  then obtain k k' where "find (run as) k = Some 1" "find (run as) k' = Some 65537"
    by (auto simp: ran_def)
  moreover from this have "k \<noteq> k'" by auto
  moreover have "wire_channel 1 = wire_channel 65537" by (simp add: wire_channel_def)
  ultimately show ?thesis by blast
qed

end

end
