(* ===== verification/Producer.thy ===== *)
theory Producer
  imports ConnectionBase Registry
begin

text \<open>
  The class \<open>Producer\<close>: exchanges with their channels, the queue of messages to send, the
  worker thread and its life cycle. A method is one step of the calling thread. The worker
  thread is a program counter in the state; \<open>Producer_thread_step\<close> runs it from one call in its
  loop to the next, so every interleaving of method calls and thread steps can be written down.
  The queue holds the only reference to each \<open>RawMessage\<close>, so it is a list of values.
\<close>

section \<open>State\<close>

record ExchangeProperties =
  m_channel :: int
  m_connected :: bool
  m_isDeclare :: bool
  m_type :: string

definition ExchangeProperties_init :: "int \<Rightarrow> bool \<Rightarrow> string \<Rightarrow> ExchangeProperties" where
  "ExchangeProperties_init channel isDeclare type =
     \<lparr>m_channel = channel, m_connected = False, m_isDeclare = isDeclare, m_type = type\<rparr>"

text \<open>
  Where the worker thread is: at the loop condition, before \<open>Connect\<close>, before the test of the
  channels, before \<open>publishNextInQueue\<close>, or past the loop. A \<open>std::thread\<close> that is not joinable
  is \<open>None\<close>.
\<close>

datatype producer_pc = P_Loop | P_Connect | P_Channels | P_Publish | P_Exited

record Producer =
  m_exchangeList :: "(string \<times> ExchangeProperties) list"
  m_connection :: "ConnectionBase option"
  m_isInitialized :: bool
  m_threadRunning :: bool
  m_channelsConnected :: bool
  m_curChannelNumber :: int
  m_producerThread :: "producer_pc option"
  m_sendQueue :: "RawMessage list"

definition Producer_init :: Producer where
  "Producer_init =
     \<lparr>m_exchangeList = [], m_connection = None, m_isInitialized = False, m_threadRunning = False,
      m_channelsConnected = False, m_curChannelNumber = 1, m_producerThread = None,
      m_sendQueue = []\<rparr>"

section \<open>Small members\<close>

definition Producer_IsRunning :: "Producer \<Rightarrow> bool" where
  "Producer_IsRunning p = m_threadRunning p"

definition Producer_IsInitialized :: "Producer \<Rightarrow> bool" where
  "Producer_IsInitialized p = m_isInitialized p"

definition Producer_setRunning :: "bool \<Rightarrow> Producer \<Rightarrow> Producer" where
  "Producer_setRunning running p = p\<lparr>m_threadRunning := running\<rparr>"

definition setInitialized :: "bool \<Rightarrow> Producer \<Rightarrow> Producer" where
  "setInitialized initialized p = p\<lparr>m_isInitialized := initialized\<rparr>"

definition channelsConnected :: "Producer \<Rightarrow> bool" where
  "channelsConnected p = m_channelsConnected p"

definition isConnected :: "Producer \<Rightarrow> bool" where
  "isConnected p = (case m_connection p of None \<Rightarrow> False | Some c \<Rightarrow> IsConnected c)"

text \<open>\<open>size()\<close> is unsigned and returned as a 32-bit \<open>int\<close>.\<close>

definition QueueSize :: "Producer \<Rightarrow> int" where
  "QueueSize p = (int (length (m_sendQueue p)) + 2147483648) mod 4294967296 - 2147483648"

text \<open>\<open>m_connection->\<close>\<close>

definition the_connection :: "Producer \<Rightarrow> ConnectionBase res" where
  "the_connection p = (case m_connection p of None \<Rightarrow> Inl NullDeref | Some c \<Rightarrow> Inr c)"

section \<open>Exchanges\<close>

text \<open>
  The two overloads of \<open>addExchange\<close>: with a type, for \<open>DeclareExchange\<close>, and without, for
  \<open>Send\<close>. Both return the channel.
\<close>

definition addExchange_declared :: "string \<Rightarrow> string \<Rightarrow> Producer \<Rightarrow> int \<times> Producer" where
  "addExchange_declared exchange type p =
     (case map_of (m_exchangeList p) exchange of
        None \<Rightarrow>
          (m_curChannelNumber p,
           p\<lparr>m_exchangeList := AList.update exchange
               (ExchangeProperties_init (m_curChannelNumber p) True type) (m_exchangeList p),
             m_channelsConnected := False,
             m_curChannelNumber := int_incr (m_curChannelNumber p)\<rparr>)
      | Some e \<Rightarrow>
          (m_channel e,
           p\<lparr>m_exchangeList := AList.update exchange
               (e\<lparr>m_isDeclare := True, m_type := type\<rparr>) (m_exchangeList p),
             m_channelsConnected := False\<rparr>))"

definition addExchange :: "string \<Rightarrow> Producer \<Rightarrow> int \<times> Producer" where
  "addExchange exchange p =
     (case map_of (m_exchangeList p) exchange of
        None \<Rightarrow>
          (m_curChannelNumber p,
           p\<lparr>m_exchangeList := AList.update exchange
               ((ExchangeProperties_init (- 1) False ''direct'')\<lparr>m_channel := m_curChannelNumber p\<rparr>)
               (m_exchangeList p),
             m_channelsConnected := False,
             m_curChannelNumber := int_incr (m_curChannelNumber p)\<rparr>)
      | Some e \<Rightarrow> (m_channel e, p))"

definition Producer_DeclareExchange :: "string \<Rightarrow> string \<Rightarrow> Producer \<Rightarrow> HARE_ERROR_E \<times> Producer" where
  "Producer_DeclareExchange exchange type p =
     (let (channel, p1) = addExchange_declared exchange type p in
      (if channel \<noteq> - 1 then ALL_GOOD else INVALID_PARAMETERS, p1))"

section \<open>The send queue\<close>

text \<open>
  The two strings and the body are copied into buffers of the queue's own; the properties are
  copied member by member, so their byte strings still belong to the caller.
\<close>

definition Send ::
    "'w platform \<Rightarrow> string \<Rightarrow> string \<Rightarrow> Message \<Rightarrow> Producer \<Rightarrow> heap \<Rightarrow>
     (HARE_ERROR_E \<times> Producer \<times> heap) res" where
  "Send P exchange routingKey message p hp =
     (let (channel, p1) = addExchange exchange p in
      if channel < 0 then Inr (INVALID_PARAMETERS, p1, hp)
      else
        bindr (hare_cstring_bytes (c_str exchange) hp) (\<lambda>(ex, hp1).
        bindr (hare_cstring_bytes (c_str routingKey) hp1) (\<lambda>(rk, hp2).
        bindr (case Bytes message of
                 None \<Rightarrow> Inl UninitRead
               | Some b \<Rightarrow> amqp_bytes_malloc_dup (bapi P) b hp2) (\<lambda>(body, hp3).
        let builtMessage =
              \<lparr>rm_exchange = ex,
               rm_channel = (case map_of (m_exchangeList p1) exchange of
                               None \<Rightarrow> - 1 | Some e \<Rightarrow> m_channel e),
               rm_routing_key = rk, rm_properties = AmqpProperties message, rm_message = body\<rparr> in
        Inr (ALL_GOOD, p1\<lparr>m_sendQueue := m_sendQueue p1 @ [builtMessage]\<rparr>, hp3)))))"

fun free_queue :: "bytes_api \<Rightarrow> RawMessage list \<Rightarrow> heap \<Rightarrow> heap res" where
  "free_queue B [] hp = Inr hp"
| "free_queue B (m # q) hp = bindr (hare_free_message_risky B m hp) (\<lambda>hp'. free_queue B q hp')"

definition clearActiveSendQueue ::
    "'w platform \<Rightarrow> Producer \<Rightarrow> 'w rt \<Rightarrow> (Producer \<times> 'w rt) res" where
  "clearActiveSendQueue P p s =
     bindr (free_queue (bapi P) (m_sendQueue p) (rt_heap s)) (\<lambda>hp.
     Inr (p\<lparr>m_sendQueue := []\<rparr>, s\<lparr>rt_heap := hp\<rparr>))"

text \<open>
  The loop over \<open>m_exchangeList\<close> in \<open>closeConnection\<close>, \<open>Stop\<close> and the destructor assigns to
  copies of the entries (\<open>auto element\<close>), so it changes nothing.
\<close>

definition closeConnection :: "'w platform \<Rightarrow> Producer \<Rightarrow> 'w rt \<Rightarrow> (Producer \<times> 'w rt) res" where
  "closeConnection P p s =
     bindr (the_connection p) (\<lambda>c.
     bindr (CloseConnection P c s) (\<lambda>(_, c', s').
     clearActiveSendQueue P (p\<lparr>m_connection := Some c'\<rparr>) s'))"

section \<open>The worker thread\<close>

text \<open>
  The loop of \<open>connectChannels\<close> over copies of the entries in hash order; the assignment of
  \<open>m_connected\<close> is to the copy. The result is \<open>None\<close> when the loop has returned early, after
  closing the connection, and otherwise \<open>allGood\<close>.
\<close>

fun connect_loop ::
    "'w platform \<Rightarrow> (string \<times> ExchangeProperties) list \<Rightarrow> bool \<Rightarrow> Producer \<Rightarrow> 'w rt \<Rightarrow>
     (bool option \<times> Producer \<times> 'w rt) res" where
  "connect_loop P [] allGood p s = Inr (Some allGood, p, s)"
| "connect_loop P ((name, e) # es) allGood p s =
     (if \<not> m_connected e
      then bindr (the_connection p) (\<lambda>c.
           bindr (OpenChannel P (m_channel e) c s) (\<lambda>(retCode, s1).
           if serverFailure retCode
           then bindr (closeConnection P p s1) (\<lambda>(p', s'). Inr (None, p', s'))
           else if \<not> noError retCode then connect_loop P es False p s1
           else if m_isDeclare e
           then bindr (DeclareExchange P (m_channel e) name (m_type e) c s1) (\<lambda>(retCode, s2).
                if serverFailure retCode
                then bindr (closeConnection P p s2) (\<lambda>(p', s'). Inr (None, p', s'))
                else connect_loop P es allGood p s2)
           else connect_loop P es allGood p s1))
      else connect_loop P es allGood p s)"

definition exchange_entries ::
    "'w platform \<Rightarrow> Producer \<Rightarrow> 'w rt \<Rightarrow> (string \<times> ExchangeProperties) list" where
  "exchange_entries P p s =
     List.map_filter (\<lambda>k. map_option (\<lambda>e. (k, e)) (map_of (m_exchangeList p) k))
       (exchange_order (runtime P) (rt_world s) (keys (m_exchangeList p)))"

definition connectChannels :: "'w platform \<Rightarrow> Producer \<Rightarrow> 'w rt \<Rightarrow> (Producer \<times> 'w rt) res" where
  "connectChannels P p s =
     (if \<not> isConnected p \<or> \<not> Producer_IsRunning p then Inr (p, s)
      else bindr (connect_loop P (exchange_entries P p s) True p s) (\<lambda>(r, p', s').
           Inr (if r = Some True then p'\<lparr>m_channelsConnected := True\<rparr> else p', s')))"

definition publishNextInQueue :: "'w platform \<Rightarrow> Producer \<Rightarrow> 'w rt \<Rightarrow> (Producer \<times> 'w rt) res" where
  "publishNextInQueue P p s =
     (if \<not> isConnected p then Inr (p, s)
      else case m_sendQueue p of
        [] \<Rightarrow> Inr (p, s)
      | m # q \<Rightarrow>
          bindr (the_connection p) (\<lambda>c.
          bindr (PublishMessage P m c s) (\<lambda>(retCode, m', s1).
          let p1 = p\<lparr>m_sendQueue := m' # q\<rparr> in
          if serverFailure retCode then closeConnection P p1 s1
          else if noError retCode
          then bindr (hare_free_message_risky (bapi P) m' (rt_heap s1)) (\<lambda>hp.
               Inr (p1\<lparr>m_sendQueue := q\<rparr>, s1\<lparr>rt_heap := hp\<rparr>))
          else Inr (p1, s1))))"

definition at_pc :: "producer_pc \<Rightarrow> Producer \<Rightarrow> Producer" where
  "at_pc pc p = p\<lparr>m_producerThread := Some pc\<rparr>"

definition Producer_thread_step ::
    "'w platform \<Rightarrow> producer_pc \<Rightarrow> Producer \<Rightarrow> 'w rt \<Rightarrow> (Producer \<times> 'w rt) res" where
  "Producer_thread_step P pc p s =
     (case pc of
        P_Loop \<Rightarrow>
          Inr (at_pc (if \<not> Producer_IsRunning p then P_Exited
                      else if \<not> isConnected p then P_Connect else P_Channels) p, s)
      | P_Connect \<Rightarrow>
          bindr (the_connection p) (\<lambda>c.
          bindr (Connect P c s) (\<lambda>(retCode, c', s').
          Inr (at_pc (if \<not> noError retCode then P_Loop else P_Channels)
                 (p\<lparr>m_connection := Some c'\<rparr>), s')))
      | P_Channels \<Rightarrow>
          bindr (if \<not> channelsConnected p then connectChannels P p s else Inr (p, s)) (\<lambda>(p', s').
          Inr (at_pc P_Publish p', s'))
      | P_Publish \<Rightarrow>
          bindr (publishNextInQueue P p s) (\<lambda>(p', s'). Inr (at_pc P_Loop p', s'))
      | P_Exited \<Rightarrow> Inr (p, s))"

section \<open>Life cycle\<close>

text \<open>
  \<open>join\<close> waits for the worker thread: the model runs it for \<open>n\<close> steps. Once \<open>m_threadRunning\<close> is
  false, four steps take it from anywhere to the end of its loop, so that bound is enough.
  Joining a thread that is not joinable throws, which nothing catches.
\<close>

fun run_thread :: "'w platform \<Rightarrow> nat \<Rightarrow> Producer \<Rightarrow> 'w rt \<Rightarrow> (Producer \<times> 'w rt) res" where
  "run_thread P 0 p s = Inr (p, s)"
| "run_thread P (Suc n) p s =
     (case m_producerThread p of
        None \<Rightarrow> Inr (p, s)
      | Some pc \<Rightarrow> bindr (Producer_thread_step P pc p s) (\<lambda>(p', s'). run_thread P n p' s'))"

definition Producer_join :: "'w platform \<Rightarrow> Producer \<Rightarrow> 'w rt \<Rightarrow> (Producer \<times> 'w rt) res" where
  "Producer_join P p s =
     (if m_producerThread p = None then Inl Terminate
      else bindr (run_thread P 4 p s) (\<lambda>(p', s'). Inr (p'\<lparr>m_producerThread := None\<rparr>, s')))"

text \<open>Assigning to a \<open>std::thread\<close> that is still joinable calls \<open>std::terminate\<close>.\<close>

definition Producer_Start :: "Producer \<Rightarrow> (HARE_ERROR_E \<times> Producer) res" where
  "Producer_Start p =
     (if \<not> Producer_IsInitialized p then Inr (NOT_INITIALIZED, p)
      else if Producer_IsRunning p then Inr (THREAD_ALREADY_RUNNING, p)
      else let p1 = Producer_setRunning True p in
           if m_producerThread p1 \<noteq> None then Inl Terminate
           else Inr (ALL_GOOD, p1\<lparr>m_producerThread := Some P_Loop\<rparr>))"

definition Producer_Stop ::
    "'w platform \<Rightarrow> Producer \<Rightarrow> 'w rt \<Rightarrow> (HARE_ERROR_E \<times> Producer \<times> 'w rt) res" where
  "Producer_Stop P p s =
     bindr (if \<not> Producer_IsInitialized p then Inr (NOT_INITIALIZED, p, s)
            else if \<not> Producer_IsRunning p then Inr (THREAD_NOT_RUNNING, p, s)
            else bindr (Producer_join P (Producer_setRunning False p) s) (\<lambda>(p', s').
                 Inr (ALL_GOOD, p'\<lparr>m_channelsConnected := False\<rparr>, s'))) (\<lambda>(retCode, p1, s1).
     bindr (the_connection p1) (\<lambda>c.
     bindr (CloseConnection P c s1) (\<lambda>(_, c', s2).
     bindr (clearActiveSendQueue P (p1\<lparr>m_connection := Some c'\<rparr>) s2) (\<lambda>(p2, s3).
     Inr (retCode, p2, s3)))))"

text \<open>
  \<open>Initialize\<close> replaces the connection object; the old one, if any, is destroyed, which closes
  its connection.
\<close>

definition Producer_Initialize ::
    "'w platform \<Rightarrow> string \<Rightarrow> int \<Rightarrow> string \<Rightarrow> string \<Rightarrow> Producer \<Rightarrow> 'w rt \<Rightarrow>
     (HARE_ERROR_E \<times> Producer \<times> 'w rt) res" where
  "Producer_Initialize P server port username password p s =
     bindr (case m_connection p of
              None \<Rightarrow> Inr s
            | Some old \<Rightarrow> bindr (ConnectionBase_destroy P old s) (\<lambda>(_, _, s'). Inr s')) (\<lambda>s1.
     let p1 = p\<lparr>m_connection := Some (ConnectionBase_init server port username password)\<rparr> in
     Inr (ALL_GOOD, Producer_setRunning False (setInitialized True p1), s1))"

definition Producer_Restart ::
    "'w platform \<Rightarrow> Producer \<Rightarrow> 'w rt \<Rightarrow> (HARE_ERROR_E \<times> Producer \<times> 'w rt) res" where
  "Producer_Restart P p s =
     (let retCode = (if \<not> Producer_IsInitialized p then NOT_INITIALIZED else ALL_GOOD) in
      bindr (if noError retCode then Producer_Stop P p s else Inr (retCode, p, s))
        (\<lambda>(retCode, p1, s1).
      if noError retCode
      then bindr (Producer_Start p1) (\<lambda>(retCode, p2). Inr (retCode, p2, s1))
      else Inr (retCode, p1, s1)))"

fun close_channels ::
    "'w platform \<Rightarrow> (string \<times> ExchangeProperties) list \<Rightarrow> Producer \<Rightarrow> 'w rt \<Rightarrow> 'w rt res" where
  "close_channels P [] p s = Inr s"
| "close_channels P ((name, e) # es) p s =
     bindr (the_connection p) (\<lambda>c.
     bindr (CloseChannel P (m_channel e) c s) (\<lambda>(_, s'). close_channels P es p s'))"

text \<open>
  The destructor, with the destructors of the members: a \<open>std::thread\<close> that is still joinable
  terminates the program, the connection closes itself. The queue is not cleared.
\<close>

definition Producer_destroy :: "'w platform \<Rightarrow> Producer \<Rightarrow> 'w rt \<Rightarrow> 'w rt res" where
  "Producer_destroy P p s =
     bindr (if Producer_IsInitialized p
            then bindr (if Producer_IsRunning p
                        then bindr (Producer_Stop P p s) (\<lambda>(_, p', s'). Inr (p', s'))
                        else Inr (p, s)) (\<lambda>(p1, s1).
                 bindr (close_channels P (exchange_entries P p1 s1) p1 s1) (\<lambda>s2.
                 bindr (the_connection p1) (\<lambda>c.
                 bindr (CloseConnection P c s2) (\<lambda>(_, c', s3).
                 Inr (p1\<lparr>m_connection := Some c'\<rparr>, s3)))))
            else Inr (p, s)) (\<lambda>(p2, s4).
     if m_producerThread p2 \<noteq> None then Inl Terminate
     else case m_connection p2 of
            None \<Rightarrow> Inr s4
          | Some c \<Rightarrow> bindr (ConnectionBase_destroy P c s4) (\<lambda>(_, _, s5). Inr s5))"

section \<open>Ownership of the send queue\<close>

definition queue_addrs :: "RawMessage list \<Rightarrow> nat list" where
  "queue_addrs q = concat (map owned q)"

lemma queue_addrs_simps [simp]:
  "queue_addrs [] = []" "queue_addrs (m # q) = owned m @ queue_addrs q"
  "queue_addrs (q @ q') = queue_addrs q @ queue_addrs q'"
  by (simp_all add: queue_addrs_def)

text \<open>A message that borrows nothing: no property that is a byte string is set.\<close>

definition self_contained :: "basic_flags \<Rightarrow> amqp_basic_properties \<Rightarrow> bool" where
  "self_contained F p \<longleftrightarrow> list_all (\<lambda>(f, sel). \<not> has_flag f (p_flags p)) (byte_fields F)"

text \<open>
  Every queued message owns its buffers alone, and they are allocated and readable.
\<close>

definition queue_ok :: "basic_flags \<Rightarrow> heap \<Rightarrow> RawMessage list \<Rightarrow> bool" where
  "queue_ok F hp q \<longleftrightarrow>
     distinct (queue_addrs q) \<and> set (queue_addrs q) \<subseteq> dom (h_blocks hp) \<and>
     list_all (\<lambda>m. raw_readable F hp m \<and> self_contained F (rm_properties m)) q"

lemma queue_ok_Nil [simp]: "queue_ok F hp []"
  by (simp add: queue_ok_def)

lemma deref_bytes_frame:
  assumes "\<forall>a \<in> set (ptr_addrs (ab_bytes b)). h_blocks hp' a = h_blocks hp a"
  shows "deref_bytes hp' b = deref_bytes hp b"
  using assms by (cases "ab_bytes b") (simp_all add: deref_bytes_def load_bytes_def)

lemma wire_fields_unflagged:
  "list_all (\<lambda>(f, sel). \<not> has_flag f (p_flags p)) fs \<Longrightarrow>
     wire_fields fs hp p = Inr (map (\<lambda>_. None) fs)"
  by (induction fs) auto

lemma raw_readable_frame:
  assumes "self_contained F (rm_properties m)" and "raw_readable F hp m"
    and "\<forall>a \<in> set (owned m). h_blocks hp' a = h_blocks hp a"
  shows "raw_readable F hp' m"
proof -
  have "deref_bytes hp' b = deref_bytes hp b"
    if "b \<in> {rm_exchange m, rm_routing_key m, rm_message m}" for b
    by (rule deref_bytes_frame) (use that assms(3) in \<open>auto simp: owned_def\<close>)
  with assms(1,2) show ?thesis
    by (simp add: raw_readable_def self_contained_def wire_fields_unflagged)
qed

lemma queue_ok_frame:
  assumes "queue_ok F hp q" and "\<forall>a \<in> set (queue_addrs q). h_blocks hp' a = h_blocks hp a"
  shows "queue_ok F hp' q"
proof -
  have "\<forall>a \<in> set (owned m). h_blocks hp' a = h_blocks hp a" if "m \<in> set q" for m
    using that assms(2) by (auto simp: queue_addrs_def)
  moreover have "set (queue_addrs q) \<subseteq> dom (h_blocks hp')"
    using assms by (auto simp: queue_ok_def)
  ultimately show ?thesis
    using assms(1) by (auto simp: queue_ok_def list_all_iff intro: raw_readable_frame)
qed

lemma queue_ok_tail:
  assumes "queue_ok F hp (m # q)"
  shows "queue_ok F (drop_blocks (owned m) hp) q"
proof -
  from assms have "queue_ok F hp q" by (simp add: queue_ok_def)
  then show ?thesis by (rule queue_ok_frame) (use assms in \<open>auto simp: queue_ok_def\<close>)
qed

lemma queue_ok_head:
  assumes "queue_ok F hp (m # q)"
  shows "distinct (owned m)" and "set (owned m) \<subseteq> dom (h_blocks hp)" and "raw_readable F hp m"
  using assms by (simp_all add: queue_ok_def)

lemma queue_ok_snoc:
  assumes "queue_ok F hp q" and "distinct (owned m)" and "set (owned m) \<subseteq> dom (h_blocks hp)"
    and "set (owned m) \<inter> set (queue_addrs q) = {}"
    and "raw_readable F hp m" and "self_contained F (rm_properties m)"
  shows "queue_ok F hp (q @ [m])"
  using assms by (auto simp: queue_ok_def)

lemma free_queue_ok:
  assumes B: "bytes_api_ok B"
  shows "queue_ok F hp q \<Longrightarrow> free_queue B q hp = Inr (drop_blocks (queue_addrs q) hp)"
proof (induction q arbitrary: hp)
  case Nil
  then show ?case by simp
next
  case (Cons m q)
  from queue_ok_head [OF Cons.prems] have
      "hare_free_message_risky B m hp = Inr (drop_blocks (owned m) hp)"
    by (intro hare_free_message_risky_ok [OF B]) auto
  with Cons.IH [OF queue_ok_tail [OF Cons.prems]] show ?case
    by (simp add: drop_blocks_append)
qed

section \<open>Invariants\<close>

text \<open>
  Exchanges have the channels 1, 2, and so on in the order of their first use, and no entry is
  ever marked connected.
\<close>

definition exchange_inv :: "Producer \<Rightarrow> bool" where
  "exchange_inv p \<longleftrightarrow>
     (let n = length (m_exchangeList p) in
      distinct (keys (m_exchangeList p)) \<and>
      map (\<lambda>(k, e). m_channel e) (m_exchangeList p) = map (\<lambda>i. int i + 1) [0..<n] \<and>
      list_all (\<lambda>(k, e). \<not> m_connected e) (m_exchangeList p) \<and>
      m_curChannelNumber p = int n + 1 \<and> int n < INT_MAX)"

text \<open>What holds between any two steps of any thread.\<close>

definition core_inv :: "'w platform \<Rightarrow> Producer \<Rightarrow> 'w rt \<Rightarrow> bool" where
  "core_inv P p s \<longleftrightarrow>
     platform_ok P \<and> heap_wf (rt_heap s) \<and> queue_ok (flags P) (rt_heap s) (m_sendQueue p) \<and>
     exchange_inv p \<and> (m_isInitialized p \<longleftrightarrow> m_connection p \<noteq> None) \<and>
     (\<forall>c. m_connection p = Some c \<longrightarrow> conn_inv P c)"

text \<open>
  The worker thread exists, and is inside its loop, exactly while \<open>m_threadRunning\<close> is set, and
  only on an initialised producer.
\<close>

definition thread_inv :: "Producer \<Rightarrow> bool" where
  "thread_inv p \<longleftrightarrow>
     (m_threadRunning p \<longrightarrow> m_isInitialized p) \<and> (m_threadRunning p \<longleftrightarrow> m_producerThread p \<noteq> None) \<and>
     m_producerThread p \<noteq> Some P_Exited"

lemma core_inv_platform:
  assumes "core_inv P p s"
  shows "bytes_api_ok (bapi P)" and "basic_flags_ok (flags P)" and "heap_wf (rt_heap s)"
    and "queue_ok (flags P) (rt_heap s) (m_sendQueue p)"
  using assms by (simp_all add: core_inv_def platform_ok_def)

lemma core_inv_connectionE:
  assumes "core_inv P p s" and "m_isInitialized p"
  obtains c where "m_connection p = Some c" and "the_connection p = Inr c" and "conn_inv P c"
  using assms by (auto simp: core_inv_def the_connection_def)

text \<open>What a step of the worker thread leaves alone.\<close>

definition same_shell :: "Producer \<Rightarrow> Producer \<Rightarrow> bool" where
  "same_shell p p' \<longleftrightarrow>
     m_exchangeList p' = m_exchangeList p \<and> m_curChannelNumber p' = m_curChannelNumber p \<and>
     m_isInitialized p' = m_isInitialized p \<and> m_threadRunning p' = m_threadRunning p \<and>
     m_producerThread p' = m_producerThread p"

lemma same_shell_refl [simp]: "same_shell p p"
  by (simp add: same_shell_def)

lemma same_shell_trans: "same_shell p q \<Longrightarrow> same_shell q r \<Longrightarrow> same_shell p r"
  by (simp add: same_shell_def)

lemma core_inv_frame:
  "core_inv P p s \<Longrightarrow> same_shell p p' \<Longrightarrow> heap_wf (rt_heap s') \<Longrightarrow>
     queue_ok (flags P) (rt_heap s') (m_sendQueue p') \<Longrightarrow>
     (m_connection p' = None \<longleftrightarrow> m_connection p = None) \<Longrightarrow>
     (\<And>c. m_connection p' = Some c \<Longrightarrow> conn_inv P c) \<Longrightarrow> core_inv P p' s'"
  by (simp add: core_inv_def same_shell_def exchange_inv_def Let_def)

lemma core_inv_heap:
  "core_inv P p s \<Longrightarrow> rt_heap s' = rt_heap s \<Longrightarrow> core_inv P p s'"
  by (simp add: core_inv_def)

section \<open>The steps keep the invariant\<close>

lemma clear_ok:
  assumes inv: "core_inv P p s"
  shows "clearActiveSendQueue P p s =
      Inr (p\<lparr>m_sendQueue := []\<rparr>, s\<lparr>rt_heap := drop_blocks (queue_addrs (m_sendQueue p)) (rt_heap s)\<rparr>)"
    and "core_inv P (p\<lparr>m_sendQueue := []\<rparr>)
      (s\<lparr>rt_heap := drop_blocks (queue_addrs (m_sendQueue p)) (rt_heap s)\<rparr>)"
proof -
  show "clearActiveSendQueue P p s = Inr (p\<lparr>m_sendQueue := []\<rparr>,
      s\<lparr>rt_heap := drop_blocks (queue_addrs (m_sendQueue p)) (rt_heap s)\<rparr>)"
    using core_inv_platform [OF inv] by (simp add: clearActiveSendQueue_def free_queue_ok)
  show "core_inv P (p\<lparr>m_sendQueue := []\<rparr>)
      (s\<lparr>rt_heap := drop_blocks (queue_addrs (m_sendQueue p)) (rt_heap s)\<rparr>)"
    by (rule core_inv_frame [OF inv])
       (use inv in \<open>auto simp: core_inv_def same_shell_def drop_blocks_wf\<close>)
qed

text \<open>The effect of closing the connection on the producer: disconnected, nothing left to send.\<close>

definition closed_from :: "'w platform \<Rightarrow> Producer \<Rightarrow> 'w rt \<Rightarrow> Producer \<Rightarrow> 'w rt \<Rightarrow> bool" where
  "closed_from P p s p' s' \<longleftrightarrow>
     core_inv P p' s' \<and> same_shell p p' \<and> \<not> isConnected p' \<and> m_sendQueue p' = [] \<and>
     m_channelsConnected p' = m_channelsConnected p \<and>
     rt_heap s' = drop_blocks (queue_addrs (m_sendQueue p)) (rt_heap s)"

lemma close_and_clear:
  assumes inv: "core_inv P p s" and c: "m_connection p = Some c"
    and cl: "CloseConnection P c s = Inr (r, c', s')"
  shows "okr (clearActiveSendQueue P (p\<lparr>m_connection := Some c'\<rparr>) s')
     (\<lambda>(p', s''). closed_from P p s p' s'')"
proof -
  from inv c have "conn_inv P c" by (simp add: core_inv_def)
  from CloseConnection_ok [OF this, of s] cl have c': "conn_inv P c'" "\<not> IsConnected c'"
      and hp: "rt_heap s' = rt_heap s"
    by (simp_all add: okr_def)
  let ?p = "p\<lparr>m_connection := Some c'\<rparr>"
  have inv': "core_inv P ?p s'"
    by (rule core_inv_frame [OF inv])
       (use inv c c' hp in \<open>auto simp: core_inv_def same_shell_def\<close>)
  show ?thesis
    using clear_ok(2) [OF inv'] c' hp
    by (auto simp: clear_ok(1) [OF inv'] closed_from_def same_shell_def isConnected_def)
qed

lemma closeConnection_ok:
  assumes inv: "core_inv P p s" and init: "m_isInitialized p"
  shows "okr (closeConnection P p s) (\<lambda>(p', s'). closed_from P p s p' s')"
proof -
  from inv init obtain c where c: "m_connection p = Some c" "the_connection p = Inr c" "conn_inv P c"
    by (rule core_inv_connectionE)
  from CloseConnection_ok [OF c(3), of s] obtain r c' s' where
      cl: "CloseConnection P c s = Inr (r, c', s')"
    by (auto simp: okr_def)
  from close_and_clear [OF inv c(1) cl] c(2) cl show ?thesis by (simp add: closeConnection_def)
qed

lemma isConnectedE:
  assumes "core_inv P p s" and "isConnected p"
  obtains c where "m_connection p = Some c" and "the_connection p = Inr c" and "conn_inv P c"
    and "IsConnected c" and "m_isInitialized p"
  using assms
  by (auto simp: core_inv_def the_connection_def isConnected_def split: option.splits)

text \<open>
  The loop over the exchanges either leaves the producer as it is, or has closed it after a
  server failure.
\<close>

definition loop_outcome ::
    "'w platform \<Rightarrow> Producer \<Rightarrow> 'w rt \<Rightarrow> bool option \<times> Producer \<times> 'w rt \<Rightarrow> bool" where
  "loop_outcome P p s = (\<lambda>(r, p', s').
     r \<noteq> None \<and> p' = p \<and> core_inv P p s' \<and> rt_heap s' = rt_heap s \<or>
     r = None \<and> closed_from P p s p' s')"

lemma loop_outcome_heap: "rt_heap s1 = rt_heap s \<Longrightarrow> loop_outcome P p s1 = loop_outcome P p s"
  by (simp add: loop_outcome_def closed_from_def)

lemma loop_fails:
  assumes inv: "core_inv P p s" and init: "m_isInitialized p" and hp: "rt_heap s1 = rt_heap s"
  shows "okr (bindr (closeConnection P p s1) (\<lambda>(p', s'). Inr (None, p', s'))) (loop_outcome P p s)"
proof -
  from inv hp have "core_inv P p s1" by (rule core_inv_heap)
  from closeConnection_ok [OF this init] hp show ?thesis
    by (auto simp: okr_def closed_from_def loop_outcome_def)
qed

lemma connect_loop_ok:
  assumes "core_inv P p s" and init: "m_isInitialized p"
  shows "okr (connect_loop P es b p s) (loop_outcome P p s)"
  using assms(1)
proof (induction es arbitrary: b s)
  case Nil
  then show ?case by (simp add: loop_outcome_def)
next
  case (Cons x es)
  note inv = \<open>core_inv P p s\<close>
  obtain name e where x: "x = (name, e)" by fastforce
  from inv init obtain c where c: "the_connection p = Inr c" "conn_inv P c"
    by (rule core_inv_connectionE)
  obtain r1 s1 where o: "OpenChannel P (m_channel e) c s = Inr (r1, s1)" "rt_heap s1 = rt_heap s"
    using OpenChannel_ok [OF c(2), of s "m_channel e"] by (auto simp: keeps_heap_def okr_def)
  obtain r2 s2 where d: "DeclareExchange P (m_channel e) name (m_type e) c s1 = Inr (r2, s2)"
      "rt_heap s2 = rt_heap s"
    using DeclareExchange_ok [OF c(2), of s1 "m_channel e" name "m_type e"] o(2)
    by (auto simp: keeps_heap_def okr_def)
  have go_on: "okr (connect_loop P es b' p s') (loop_outcome P p s)" if "rt_heap s' = rt_heap s" for b' s'
    using Cons.IH [OF core_inv_heap [OF inv that]] loop_outcome_heap [OF that, of P p] by simp
  note fails = loop_fails [OF inv init o(2)] loop_fails [OF inv init d(2)]
  show ?case
    using x c(1) o(1) d(1) fails go_on [of s b, OF refl] go_on [OF o(2), of False]
      go_on [OF o(2), of b] go_on [OF d(2), of b]
    by simp
qed

lemma stamp_self_contained:
  assumes "basic_flags_ok (flags P)"
  shows "self_contained (flags P) (rm_properties (stamp P m s)) =
     self_contained (flags P) (rm_properties m)"
proof (cases "has_flag (AMQP_BASIC_TIMESTAMP_FLAG (flags P)) (p_flags (rm_properties m))")
  case True
  then show ?thesis by (simp add: stamp_def)
next
  case False
  have "has_flag f (w OR AMQP_BASIC_TIMESTAMP_FLAG (flags P)) = has_flag f w"
    if "(f, sel) \<in> set (byte_fields (flags P))" for f sel w
    using byte_fields_timestamp [OF assms] that by (auto simp: has_flag_other and.commute)
  with False show ?thesis
    by (auto simp: self_contained_def list_all_iff stamp_def)
qed

lemma queue_ok_stamp:
  assumes "basic_flags_ok (flags P)" and "queue_ok (flags P) hp (m # q)"
  shows "queue_ok (flags P) hp (stamp P m s # q)"
  using assms
  by (simp add: queue_ok_def stamp_self_contained stamp_wire_fields raw_readable_def)

lemma connectChannels_ok:
  assumes inv: "core_inv P p s"
  shows "okr (connectChannels P p s) (\<lambda>(p', s'). core_inv P p' s' \<and> same_shell p p')"
proof (cases "isConnected p \<and> Producer_IsRunning p")
  case False
  with inv show ?thesis by (auto simp: connectChannels_def)
next
  case True
  then have con: "isConnected p" by simp
  from inv con have init: "m_isInitialized p" by (rule isConnectedE)
  have "core_inv P (p'\<lparr>m_channelsConnected := b\<rparr>) s' = core_inv P p' s'" for p' :: Producer and b s'
    by (simp add: core_inv_def exchange_inv_def)
  then show ?thesis
    using True connect_loop_ok [OF inv init, of "exchange_entries P p s" True]
    by (auto simp: connectChannels_def okr_def same_shell_def closed_from_def loop_outcome_def)
qed

text \<open>
  The three outcomes for the front message: sent and freed, kept for another attempt (stamped,
  in front), or lost with the whole queue when the server has failed.
\<close>

definition publish_outcome :: "'w platform \<Rightarrow> Producer \<Rightarrow> 'w rt \<Rightarrow> Producer \<Rightarrow> 'w rt \<Rightarrow> bool" where
  "publish_outcome P p s p' s' \<longleftrightarrow>
     (case m_sendQueue p of
        [] \<Rightarrow> p' = p \<and> s' = s
      | m # q \<Rightarrow>
          p' = p\<lparr>m_sendQueue := q\<rparr> \<and> rt_heap s' = drop_blocks (owned m) (rt_heap s) \<or>
          p' = p\<lparr>m_sendQueue := stamp P m s # q\<rparr> \<and> rt_heap s' = rt_heap s \<or>
          closed_from P p s p' s')"

lemma publishNextInQueue_ok:
  assumes inv: "core_inv P p s" and con: "isConnected p"
  shows "okr (publishNextInQueue P p s) (\<lambda>(p', s').
     core_inv P p' s' \<and> same_shell p p' \<and> publish_outcome P p s p' s')"
proof (cases "m_sendQueue p")
  case Nil
  with inv con show ?thesis by (simp add: publishNextInQueue_def publish_outcome_def)
next
  case (Cons m q)
  note plat = core_inv_platform [OF inv]
  from inv con obtain c where c: "m_connection p = Some c" "the_connection p = Inr c" "conn_inv P c"
      "IsConnected c" "m_isInitialized p"
    by (rule isConnectedE)
  from plat(4) Cons have ok: "queue_ok (flags P) (rt_heap s) (m # q)" by simp
  from PublishMessage_ok [OF plat(2) c(3) queue_ok_head(3) [OF ok]] c(4) obtain r s1 where
      pub: "PublishMessage P m c s = Inr (r, stamp P m s, s1)" "rt_heap s1 = rt_heap s"
      "r \<in> {ALL_GOOD, PUBLISH_ERROR, SERVER_CONNECTION_FAILURE}"
    by (auto simp: okr_def)
  let ?p = "p\<lparr>m_sendQueue := stamp P m s # q\<rparr>"
  have inv1: "core_inv P ?p s1"
    by (rule core_inv_frame [OF inv])
       (use inv pub(2) ok queue_ok_stamp [OF plat(2) ok] in \<open>auto simp: core_inv_def same_shell_def\<close>)
  have freed: "hare_free_message_risky (bapi P) (stamp P m s) (rt_heap s1) =
      Inr (drop_blocks (owned m) (rt_heap s))"
    using hare_free_message_risky_ok [OF plat(1), of "stamp P m s" "rt_heap s"] queue_ok_head [OF ok]
      pub(2) by simp
  have inv2: "core_inv P (p\<lparr>m_sendQueue := q\<rparr>) (s1\<lparr>rt_heap := drop_blocks (owned m) (rt_heap s)\<rparr>)"
    by (rule core_inv_frame [OF inv])
       (use inv ok in \<open>auto simp: core_inv_def same_shell_def queue_ok_tail drop_blocks_wf\<close>)
  from closeConnection_ok [OF inv1] c(5) have cl: "okr (closeConnection P ?p s1) (\<lambda>(p', s').
      closed_from P p s p' s')"
    by (auto simp: okr_def closed_from_def same_shell_def pub(2) Cons)
  from pub(3) consider "r = ALL_GOOD" | "r = PUBLISH_ERROR" | "r = SERVER_CONNECTION_FAILURE"
    by blast
  then show ?thesis
  proof cases
    case 1
    with con Cons c pub freed inv2 show ?thesis
      by (simp add: publishNextInQueue_def publish_outcome_def same_shell_def)
  next
    case 2
    with con Cons c pub inv1 show ?thesis
      by (simp add: publishNextInQueue_def publish_outcome_def same_shell_def)
  next
    case 3
    with con Cons c pub cl show ?thesis
      by (auto simp: publishNextInQueue_def publish_outcome_def closed_from_def okr_def)
  qed
qed

lemma core_inv_at_pc [simp]: "core_inv P (at_pc pc p) s = core_inv P p s"
  by (simp add: core_inv_def at_pc_def exchange_inv_def)

text \<open>
  Every step of the worker thread is defined and keeps the invariant, wherever it is in its
  loop. It exits only when it is no longer to run, and then within four steps.
\<close>

definition pc_rank :: "producer_pc \<Rightarrow> nat" where
  "pc_rank pc = (case pc of P_Exited \<Rightarrow> 0 | P_Loop \<Rightarrow> 1 | P_Publish \<Rightarrow> 2 | P_Channels \<Rightarrow> 3 | P_Connect \<Rightarrow> 4)"

definition thread_moved :: "producer_pc \<Rightarrow> Producer \<Rightarrow> Producer \<Rightarrow> bool" where
  "thread_moved pc p p' \<longleftrightarrow>
     same_shell p (p'\<lparr>m_producerThread := m_producerThread p\<rparr>) \<and>
     (\<exists>pc'. m_producerThread p' = Some pc' \<and>
        (m_threadRunning p \<and> pc \<noteq> P_Exited \<longrightarrow> pc' \<noteq> P_Exited) \<and>
        (\<not> m_threadRunning p \<longrightarrow> pc_rank pc' \<le> pc_rank pc - 1))"

lemma thread_moved_at_pc:
  assumes "same_shell p p'" and "pc' \<noteq> P_Exited" and "\<not> m_threadRunning p \<Longrightarrow> pc_rank pc' \<le> pc_rank pc - 1"
  shows "thread_moved pc p (at_pc pc' p')"
  using assms by (auto simp: thread_moved_def same_shell_def at_pc_def)

lemma publishNextInQueue_inv:
  assumes inv: "core_inv P p s"
  shows "okr (publishNextInQueue P p s) (\<lambda>(p', s'). core_inv P p' s' \<and> same_shell p p')"
proof (cases "isConnected p")
  case True
  show ?thesis by (rule okr_pairI [OF publishNextInQueue_ok [OF inv True]]) simp
next
  case False
  with inv show ?thesis by (simp add: publishNextInQueue_def)
qed

lemma Producer_thread_step_ok:
  assumes inv: "core_inv P p s" and pc: "m_producerThread p = Some pc"
    and init: "m_isInitialized p"
  shows "okr (Producer_thread_step P pc p s) (\<lambda>(p', s'). core_inv P p' s' \<and> thread_moved pc p p')"
proof (cases pc)
  case P_Loop
  with inv show ?thesis
    by (simp add: Producer_thread_step_def thread_moved_at_pc pc_rank_def Producer_IsRunning_def)
       (simp add: thread_moved_def same_shell_def at_pc_def pc_rank_def)
next
  case P_Exited
  with inv pc show ?thesis
    by (simp add: Producer_thread_step_def thread_moved_def same_shell_def pc_rank_def)
next
  case P_Connect
  from inv init obtain c where c: "m_connection p = Some c" "the_connection p = Inr c" "conn_inv P c"
    by (rule core_inv_connectionE)
  from Connect_ok [OF c(3), of s] obtain r c' s' where con: "Connect P c s = Inr (r, c', s')"
      "conn_inv P c'" "rt_heap s' = rt_heap s"
    by (auto simp: okr_def)
  have "core_inv P (p\<lparr>m_connection := Some c'\<rparr>) s'"
    by (rule core_inv_frame [OF inv])
       (use inv c con in \<open>auto simp: core_inv_def same_shell_def\<close>)
  moreover have "same_shell p (p\<lparr>m_connection := Some c'\<rparr>)" by (simp add: same_shell_def)
  ultimately show ?thesis
    using P_Connect c con
    by (simp add: Producer_thread_step_def thread_moved_at_pc pc_rank_def)
next
  case P_Channels
  have "okr (if \<not> channelsConnected p then connectChannels P p s else Inr (p, s))
      (\<lambda>(p', s'). core_inv P p' s' \<and> same_shell p p')"
    using connectChannels_ok [OF inv] inv by simp
  then show ?thesis
    unfolding Producer_thread_step_def P_Channels producer_pc.case
    by (rule okr_bindI) (simp add: thread_moved_at_pc pc_rank_def)
next
  case P_Publish
  show ?thesis
    unfolding Producer_thread_step_def P_Publish producer_pc.case
    by (rule okr_bindI [OF publishNextInQueue_inv [OF inv]]) (simp add: thread_moved_at_pc pc_rank_def)
qed

section \<open>Joining and stopping\<close>

lemma run_thread_ok:
  assumes "core_inv P p s" and "m_producerThread p = Some pc" and "m_isInitialized p"
    and "\<not> m_threadRunning p" and "pc_rank pc \<le> n"
  shows "okr (run_thread P n p s) (\<lambda>(p', s'). core_inv P p' s' \<and>
     m_producerThread p' = Some P_Exited \<and> same_shell p (p'\<lparr>m_producerThread := m_producerThread p\<rparr>))"
  using assms
proof (induction n arbitrary: p s pc)
  case 0
  then have "pc = P_Exited" by (cases pc) (simp_all add: pc_rank_def)
  with 0 show ?case by (simp add: same_shell_def)
next
  case (Suc n)
  from Producer_thread_step_ok [OF Suc.prems(1-3)] obtain p1 s1 where
      st: "Producer_thread_step P pc p s = Inr (p1, s1)" "core_inv P p1 s1" "thread_moved pc p p1"
    by (auto simp: okr_def)
  from st(3) Suc.prems(4) obtain pc' where pc': "m_producerThread p1 = Some pc'"
      "pc_rank pc' \<le> pc_rank pc - 1" and sh: "same_shell p (p1\<lparr>m_producerThread := m_producerThread p\<rparr>)"
    by (auto simp: thread_moved_def)
  have "okr (run_thread P n p1 s1) (\<lambda>(p', s'). core_inv P p' s' \<and>
      m_producerThread p' = Some P_Exited \<and>
      same_shell p1 (p'\<lparr>m_producerThread := m_producerThread p1\<rparr>))"
    by (rule Suc.IH [OF st(2) pc'(1)]) (use sh Suc.prems(3-5) pc'(2) in \<open>auto simp: same_shell_def\<close>)
  with st(1) Suc.prems(2) sh show ?case
    by (auto simp: okr_def same_shell_def)
qed

lemma Producer_join_ok:
  assumes inv: "core_inv P p s" and pc: "m_producerThread p = Some pc"
    and init: "m_isInitialized p" and "\<not> m_threadRunning p"
  shows "okr (Producer_join P p s) (\<lambda>(p', s'). core_inv P p' s' \<and> m_producerThread p' = None \<and>
     same_shell p (p'\<lparr>m_producerThread := m_producerThread p\<rparr>))"
proof -
  have "pc_rank pc \<le> 4" by (cases pc) (simp_all add: pc_rank_def)
  from run_thread_ok [OF assms this] obtain p1 s1 where r: "run_thread P 4 p s = Inr (p1, s1)"
      "core_inv P p1 s1" "same_shell p (p1\<lparr>m_producerThread := m_producerThread p\<rparr>)"
    by (auto simp: okr_def)
  have "core_inv P (p1\<lparr>m_producerThread := None\<rparr>) s1"
    using r(2) by (simp add: core_inv_def exchange_inv_def)
  with r pc show ?thesis by (simp add: Producer_join_def)
qed

lemma closed_from_shell:
  "closed_from P p s p' s' \<Longrightarrow> core_inv P p' s' \<and> same_shell p p' \<and> m_sendQueue p' = [] \<and>
     \<not> isConnected p' \<and> m_channelsConnected p' = m_channelsConnected p"
  by (simp add: closed_from_def)

text \<open>The last part of \<open>Stop\<close>, shared by all of its branches.\<close>

lemma stop_tail:
  assumes inv: "core_inv P p s" and init: "m_isInitialized p"
  shows "okr (bindr (the_connection p) (\<lambda>c.
       bindr (CloseConnection P c s) (\<lambda>(_, c', s2).
       bindr (clearActiveSendQueue P (p\<lparr>m_connection := Some c'\<rparr>) s2) (\<lambda>(p2, s3).
       Inr (retCode, p2, s3))))) (\<lambda>(r, p', s'). r = retCode \<and> closed_from P p s p' s')"
proof -
  from inv init obtain c where c: "m_connection p = Some c" "the_connection p = Inr c" "conn_inv P c"
    by (rule core_inv_connectionE)
  from CloseConnection_ok [OF c(3), of s] obtain r c' s' where
      cl: "CloseConnection P c s = Inr (r, c', s')"
    by (auto simp: okr_def)
  from close_and_clear [OF inv c(1) cl] c(2) cl show ?thesis by (auto simp: okr_def)
qed

lemma Producer_Stop_ok:
  assumes inv: "core_inv P p s" and th: "thread_inv p" and init: "m_isInitialized p"
  shows "okr (Producer_Stop P p s) (\<lambda>(r, p', s'). core_inv P p' s' \<and> thread_inv p' \<and>
     m_isInitialized p' \<and> \<not> m_threadRunning p' \<and> \<not> isConnected p' \<and> m_sendQueue p' = [] \<and>
     m_exchangeList p' = m_exchangeList p \<and> m_curChannelNumber p' = m_curChannelNumber p \<and>
     (if m_threadRunning p then r = ALL_GOOD \<and> \<not> m_channelsConnected p'
      else r = THREAD_NOT_RUNNING))"
proof (cases "m_threadRunning p")
  case False
  from stop_tail [OF inv init, of THREAD_NOT_RUNNING] obtain p' s' where
      t: "Producer_Stop P p s = Inr (THREAD_NOT_RUNNING, p', s')" "closed_from P p s p' s'"
    using init False
    by (auto simp: Producer_Stop_def Producer_IsInitialized_def Producer_IsRunning_def okr_def)
  with False th init show ?thesis
    by (auto simp: closed_from_def same_shell_def thread_inv_def)
next
  case True
  let ?p = "Producer_setRunning False p"
  from True th obtain pc where pc: "m_producerThread p = Some pc" by (auto simp: thread_inv_def)
  have "core_inv P ?p s" using inv by (simp add: core_inv_def exchange_inv_def Producer_setRunning_def)
  from Producer_join_ok [OF this, of pc] pc init obtain p1 s1 where
      j: "Producer_join P ?p s = Inr (p1, s1)" "core_inv P p1 s1" "m_producerThread p1 = None"
      "same_shell ?p (p1\<lparr>m_producerThread := m_producerThread ?p\<rparr>)"
    by (auto simp: okr_def Producer_setRunning_def)
  let ?q = "p1\<lparr>m_channelsConnected := False\<rparr>"
  have "core_inv P ?q s1" "m_isInitialized ?q"
    using j init by (simp_all add: core_inv_def exchange_inv_def same_shell_def Producer_setRunning_def)
  from stop_tail [OF this, of ALL_GOOD] obtain p' s' where
      t: "Producer_Stop P p s = Inr (ALL_GOOD, p', s')" "closed_from P ?q s1 p' s'"
    using init True j(1)
    by (auto simp: Producer_Stop_def Producer_IsInitialized_def Producer_IsRunning_def okr_def)
  from closed_from_shell [OF t(2)] j(3,4) True init show ?thesis
    by (simp add: t(1) same_shell_def thread_inv_def Producer_setRunning_def)
qed

lemma Producer_Start_ok:
  assumes inv: "core_inv P p s" and th: "thread_inv p"
  shows "okr (Producer_Start p) (\<lambda>(r, p'). core_inv P p' s \<and> thread_inv p' \<and>
     (if \<not> m_isInitialized p then r = NOT_INITIALIZED \<and> p' = p
      else if m_threadRunning p then r = THREAD_ALREADY_RUNNING \<and> p' = p
      else r = ALL_GOOD \<and> p' = p\<lparr>m_threadRunning := True, m_producerThread := Some P_Loop\<rparr>))"
  using assms
  by (auto simp: Producer_Start_def Producer_IsInitialized_def Producer_IsRunning_def
      Producer_setRunning_def thread_inv_def core_inv_def exchange_inv_def)

lemma Producer_Restart_ok:
  assumes inv: "core_inv P p s" and th: "thread_inv p"
  shows "okr (Producer_Restart P p s) (\<lambda>(r, p', s'). core_inv P p' s' \<and> thread_inv p' \<and>
     m_isInitialized p' = m_isInitialized p \<and>
     (if \<not> m_isInitialized p then r = NOT_INITIALIZED
      else if \<not> m_threadRunning p then r = THREAD_NOT_RUNNING \<and> \<not> m_threadRunning p'
      else r = ALL_GOOD \<and> m_threadRunning p' \<and> m_producerThread p' = Some P_Loop \<and>
           \<not> isConnected p' \<and> \<not> m_channelsConnected p' \<and> m_exchangeList p' = m_exchangeList p))"
proof (cases "m_isInitialized p")
  case False
  with assms show ?thesis by (simp add: Producer_Restart_def Producer_IsInitialized_def)
next
  case True
  from Producer_Stop_ok [OF inv th True] obtain r p1 s1 where
      st: "Producer_Stop P p s = Inr (r, p1, s1)" "core_inv P p1 s1" "thread_inv p1"
      "m_isInitialized p1" "\<not> m_threadRunning p1" "\<not> isConnected p1"
      "m_exchangeList p1 = m_exchangeList p"
      "if m_threadRunning p then r = ALL_GOOD \<and> \<not> m_channelsConnected p1 else r = THREAD_NOT_RUNNING"
    by (auto simp: okr_def)
  from Producer_Start_ok [OF st(2,3)] st(4,5) True st show ?thesis
    by (cases "m_threadRunning p")
       (auto simp: Producer_Restart_def Producer_IsInitialized_def okr_def isConnected_def)
qed

lemma Producer_Initialize_ok:
  assumes inv: "core_inv P p s" and th: "thread_inv p" and idle: "\<not> m_threadRunning p"
    and av: "connections_available P"
  shows "okr (Producer_Initialize P host port user pw p s) (\<lambda>(r, p', s'). r = ALL_GOOD \<and>
     core_inv P p' s' \<and> thread_inv p' \<and> m_isInitialized p' \<and> \<not> m_threadRunning p' \<and>
     \<not> isConnected p')"
proof -
  let ?c = "ConnectionBase_init host port user pw"
  have "okr (case m_connection p of None \<Rightarrow> Inr s
      | Some old \<Rightarrow> bindr (ConnectionBase_destroy P old s) (\<lambda>(_, _, s'). Inr s'))
      (\<lambda>s'. rt_heap s' = rt_heap s)"
  proof (cases "m_connection p")
    case None
    then show ?thesis by simp
  next
    case (Some c)
    with inv have "conn_inv P c" by (simp add: core_inv_def)
    from CloseConnection_ok [OF this, of s] Some show ?thesis
      by (auto simp: ConnectionBase_destroy_def okr_def)
  qed
  then obtain s1 where s1: "rt_heap s1 = rt_heap s"
      "Producer_Initialize P host port user pw p s =
       Inr (ALL_GOOD, Producer_setRunning False (setInitialized True (p\<lparr>m_connection := Some ?c\<rparr>)), s1)"
    by (auto simp: Producer_Initialize_def okr_def)
  have "conn_inv P ?c" using av by (rule conn_inv_init)
  with s1 inv th idle show ?thesis
    by (simp add: core_inv_def exchange_inv_def thread_inv_def Producer_setRunning_def
        setInitialized_def isConnected_def IsConnected_def ConnectionBase_init_def)
qed

section \<open>Exchanges\<close>

definition exchange_channel :: "Producer \<Rightarrow> string \<Rightarrow> int option" where
  "exchange_channel p exchange = map_option m_channel (map_of (m_exchangeList p) exchange)"

lemma map_update_known:
  "map_of m k = Some e \<Longrightarrow> g v = g e \<Longrightarrow> map (\<lambda>(k, e). g e) (AList.update k v m) = map (\<lambda>(k, e). g e) m"
  by (induction m) auto

lemma list_all_update:
  "list_all (\<lambda>(k, e). Q e) m \<Longrightarrow> Q v \<Longrightarrow> list_all (\<lambda>(k, e). Q e) (AList.update k v m)"
  by (induction m) auto

lemma length_update_known: "map_of m k = Some e \<Longrightarrow> length (AList.update k v m) = length m"
  by (induction m) auto

lemma list_all_map_of: "list_all (\<lambda>(k, e). Q e) m \<Longrightarrow> map_of m k = Some e \<Longrightarrow> Q e"
  by (auto simp: list_all_iff dest: map_of_SomeD)

lemma exchange_inv_known:
  assumes inv: "exchange_inv p" and e: "map_of (m_exchangeList p) k = Some e"
    and e': "m_channel e' = m_channel e" "m_connected e' = m_connected e"
  shows "exchange_inv (p\<lparr>m_exchangeList := AList.update k e' (m_exchangeList p),
     m_channelsConnected := b\<rparr>)"
proof -
  from inv e have "\<not> m_connected e"
    using list_all_map_of [of "\<lambda>e. \<not> m_connected e" "m_exchangeList p" k e]
    by (simp add: exchange_inv_def Let_def)
  with inv e e' show ?thesis
    by (simp add: exchange_inv_def Let_def length_update_known map_update_known list_all_update
        distinct_keys_update)
qed

lemma exchange_inv_new:
  assumes inv: "exchange_inv p" and new: "map_of (m_exchangeList p) k = None"
    and room: "m_curChannelNumber p < INT_MAX"
    and e: "m_channel e = m_curChannelNumber p" "\<not> m_connected e"
  shows "exchange_inv (p\<lparr>m_exchangeList := AList.update k e (m_exchangeList p),
     m_channelsConnected := b, m_curChannelNumber := int_incr (m_curChannelNumber p)\<rparr>)"
proof -
  from new have "k \<notin> set (keys (m_exchangeList p))" by (simp add: map_of_None_iff_keys)
  with inv room e show ?thesis
    by (auto simp: exchange_inv_def Let_def update_fresh int_incr_below)
qed

text \<open>The two ways of naming an exchange, as one kind of addition.\<close>

datatype exchange_use = Use string | Declare string string

primrec exchange_key :: "exchange_use \<Rightarrow> string" where
  "exchange_key (Use k) = k"
| "exchange_key (Declare k ty) = k"

primrec exchange_add :: "exchange_use \<Rightarrow> Producer \<Rightarrow> Producer" where
  "exchange_add (Use k) p = snd (addExchange k p)"
| "exchange_add (Declare k ty) p = snd (addExchange_declared k ty p)"

lemmas exchange_defs = addExchange_def addExchange_declared_def ExchangeProperties_init_def

lemma exchange_add_inv:
  assumes "exchange_inv p" and "m_curChannelNumber p < INT_MAX"
  shows "exchange_inv (exchange_add a p)"
proof (cases a)
  case (Use k)
  with assms show ?thesis
    by (auto simp: exchange_defs exchange_inv_new split: option.split)
next
  case (Declare k ty)
  with assms show ?thesis
    by (auto simp: exchange_defs exchange_inv_new exchange_inv_known split: option.split)
qed

lemma exchange_add_known:
  assumes "exchange_channel p (exchange_key a) = Some c"
  shows "exchange_channel (exchange_add a p) = exchange_channel p \<and>
     m_curChannelNumber (exchange_add a p) = m_curChannelNumber p"
  using assms
  by (cases a) (auto simp: exchange_channel_def exchange_defs map_of_update fun_eq_iff)

lemma exchange_inv_next: "exchange_inv p \<Longrightarrow> 1 \<le> m_curChannelNumber p"
  by (simp add: exchange_inv_def Let_def)

lemma exchange_add_unknown:
  assumes "exchange_inv p" and "m_curChannelNumber p < INT_MAX"
    and "exchange_channel p (exchange_key a) = None"
  shows "exchange_channel (exchange_add a p) =
       (exchange_channel p)(exchange_key a \<mapsto> m_curChannelNumber p) \<and>
     m_curChannelNumber (exchange_add a p) = m_curChannelNumber p + 1"
  using assms exchange_inv_next [OF assms(1)]
  by (cases a)
     (auto simp: exchange_channel_def exchange_defs map_of_update fun_eq_iff int_incr_below)

lemma exchange_inv_init [simp]: "exchange_inv Producer_init"
  by (simp add: exchange_inv_def Producer_init_def)

interpretation ex_reg: channel_registry exchange_channel exchange_add exchange_key
    m_curChannelNumber exchange_inv Producer_init
  by unfold_locales
     (simp_all add: exchange_add_inv exchange_add_known exchange_add_unknown,
      simp_all add: exchange_channel_def Producer_init_def)

lemma addExchange_result:
  assumes "exchange_inv p"
  shows "exchange_channel (snd (addExchange k p)) k = Some (fst (addExchange k p))"
    and "1 \<le> fst (addExchange k p)"
proof -
  show "exchange_channel (snd (addExchange k p)) k = Some (fst (addExchange k p))"
    by (auto simp: exchange_channel_def exchange_defs map_of_update split: option.split)
  show "1 \<le> fst (addExchange k p)"
  proof (cases "map_of (m_exchangeList p) k")
    case None
    with exchange_inv_next [OF assms] show ?thesis by (simp add: addExchange_def)
  next
    case (Some e)
    then have "m_channel e \<in> set (map (\<lambda>(k, e). m_channel e) (m_exchangeList p))"
      by (force dest: map_of_SomeD)
    also have "\<dots> = set (map (\<lambda>i. int i + 1) [0..<length (m_exchangeList p)])"
      using assms by (simp add: exchange_inv_def Let_def)
    finally have "1 \<le> m_channel e" by auto
    with Some show ?thesis by (simp add: addExchange_def)
  qed
qed

section \<open>Sending\<close>

definition fully_allocated :: "RawMessage \<Rightarrow> bool" where
  "fully_allocated m \<longleftrightarrow>
     ab_bytes (rm_exchange m) \<noteq> Null \<and> ab_bytes (rm_routing_key m) \<noteq> Null \<and> ab_bytes (rm_message m) \<noteq> Null"

text \<open>A buffer got by an allocation lies in the range of addresses of that allocation.\<close>

lemma alloc_spec_addr:
  assumes "alloc_spec h c p h'" and "p \<noteq> Null"
  obtains a where "p = Ptr a" and "h_next h \<le> a" and "a < h_next h'" and "h_blocks h' a = Some c"
  using assms by (auto simp: alloc_spec_def)

lemma alloc_spec_grows: "alloc_spec h c p h' \<Longrightarrow> h_next h \<le> h_next h'"
  by (simp add: alloc_spec_def)

lemma queue_ok_heap_le:
  assumes "queue_ok F hp q" and "heap_le hp hp'"
  shows "queue_ok F hp' q"
  by (rule queue_ok_frame [OF assms(1)])
     (use assms in \<open>auto simp: queue_ok_def heap_le_def dest!: subsetD\<close>)

lemma queue_addrs_below: "queue_ok F hp q \<Longrightarrow> heap_wf hp \<Longrightarrow> a \<in> set (queue_addrs q) \<Longrightarrow> a < h_next hp"
  by (auto simp: queue_ok_def heap_wf_def)

text \<open>The message that \<open>Send\<close> puts into the queue.\<close>

definition sent_message ::
    "string \<Rightarrow> string \<Rightarrow> Message \<Rightarrow> string \<Rightarrow> int \<Rightarrow> heap \<Rightarrow> RawMessage \<Rightarrow> bool" where
  "sent_message exchange routingKey message body channel hp m \<longleftrightarrow>
     rm_channel m = channel \<and> rm_properties m = AmqpProperties message \<and>
     deref_bytes hp (rm_exchange m) = Inr (upto_NUL exchange) \<and>
     deref_bytes hp (rm_routing_key m) = Inr (upto_NUL routingKey) \<and>
     deref_bytes hp (rm_message m) = Inr body"

lemma c_str_reads:
  assumes "h_blocks hp a = Some (c_str t)" and "ab_len b = length t" and "ab_bytes b = Ptr a"
  shows "deref_bytes hp b = Inr t"
  using assms by (simp add: deref_bytes_def load_bytes_def take_length_c_str)

lemma sent_queue_ok:
  assumes wf: "heap_wf hp" and q: "queue_ok F hp q" and sc: "self_contained F (AmqpProperties message)"
    and body: "deref_bytes hp b = Inr body" "load_bytes hp2 b = Inr c"
    and al: "alloc_spec hp (c_str (upto_NUL ex)) (ab_bytes (rm_exchange m)) hp1"
      "alloc_spec hp1 (c_str (upto_NUL rk)) (ab_bytes (rm_routing_key m)) hp2"
      "dup_spec hp2 b c (rm_message m) hp3"
    and len: "ab_len (rm_exchange m) = length (upto_NUL ex)"
      "ab_len (rm_routing_key m) = length (upto_NUL rk)"
    and m: "rm_channel m = ch" "rm_properties m = AmqpProperties message" "fully_allocated m"
  shows "heap_le hp hp3" and "heap_wf hp3" and "sent_message ex rk message body ch hp3 m"
    and "queue_ok F hp3 (q @ [m])"
proof -
  have wf1: "heap_wf hp1" and wf2: "heap_wf hp2" using al wf alloc_spec_wf by blast+
  show wf3: "heap_wf hp3" using dup_spec_wf [OF wf2 al(3)] .
  have le1: "heap_le hp hp1" and le2: "heap_le hp1 hp2" and le3: "heap_le hp2 hp3"
    using alloc_spec_ext [OF wf al(1)] alloc_spec_ext [OF wf1 al(2)] dup_spec_ext [OF wf2 al(3)] .
  then show le: "heap_le hp hp3" by (blast intro: heap_le_trans)
  from al(3) have al3: "alloc_spec hp2 c (ab_bytes (rm_message m)) hp3" by (simp add: dup_spec_def)
  from m(3) have nn: "ab_bytes (rm_exchange m) \<noteq> Null" "ab_bytes (rm_routing_key m) \<noteq> Null"
      "ab_bytes (rm_message m) \<noteq> Null"
    by (simp_all add: fully_allocated_def)
  obtain a1 where a1: "ab_bytes (rm_exchange m) = Ptr a1" "h_next hp \<le> a1" "a1 < h_next hp1"
      "h_blocks hp1 a1 = Some (c_str (upto_NUL ex))"
    using alloc_spec_addr [OF al(1) nn(1)] .
  obtain a2 where a2: "ab_bytes (rm_routing_key m) = Ptr a2" "h_next hp1 \<le> a2" "a2 < h_next hp2"
      "h_blocks hp2 a2 = Some (c_str (upto_NUL rk))"
    using alloc_spec_addr [OF al(2) nn(2)] .
  obtain a3 where a3: "ab_bytes (rm_message m) = Ptr a3" "h_next hp2 \<le> a3" "a3 < h_next hp3"
      "h_blocks hp3 a3 = Some c"
    using alloc_spec_addr [OF al3 nn(3)] .
  have own: "owned m = [a3, a2, a1]" by (simp add: owned_def a1 a2 a3)
  have b1: "h_blocks hp3 a1 = Some (c_str (upto_NUL ex))"
    and b2: "h_blocks hp3 a2 = Some (c_str (upto_NUL rk))"
    using a1(4) a2(4) le2 le3 by (simp_all add: heap_le_def)
  have "load_bytes hp3 (rm_message m) = Inr c"
    using dup_spec_load [OF body(2) al(3) nn(3)] .
  moreover from heap_le_deref_bytes [OF heap_le_trans [OF le1 le2] body(1)] body(2)
  have "chars c = Inr body" by (simp add: deref_bytes_def)
  ultimately have bd: "deref_bytes hp3 (rm_message m) = Inr body" by (simp add: deref_bytes_def)
  with b1 b2 a1 a2 len m show sent: "sent_message ex rk message body ch hp3 m"
    by (simp add: sent_message_def c_str_reads)
  from sc m(2) sent have "raw_readable F hp3 m"
    by (simp add: raw_readable_def sent_message_def self_contained_def wire_fields_unflagged)
  moreover have "set (owned m) \<inter> set (queue_addrs q) = {}"
    using queue_addrs_below [OF q wf] a1 a2 a3 alloc_spec_grows [OF al(1)] alloc_spec_grows [OF al(2)]
    by (fastforce simp: own)
  moreover have "distinct (owned m)" using a1 a2 a3 by (auto simp: own)
  moreover have "set (owned m) \<subseteq> dom (h_blocks hp3)" by (simp add: own b1 b2 a3 domIff)
  ultimately show "queue_ok F hp3 (q @ [m])"
    using queue_ok_heap_le [OF q le] sc m(2) by (intro queue_ok_snoc) simp_all
qed

lemma addExchange_shell:
  "m_sendQueue (snd (addExchange k p)) = m_sendQueue p"
  "m_connection (snd (addExchange k p)) = m_connection p"
  "m_isInitialized (snd (addExchange k p)) = m_isInitialized p"
  "m_threadRunning (snd (addExchange k p)) = m_threadRunning p"
  "m_producerThread (snd (addExchange k p)) = m_producerThread p"
  by (simp_all add: addExchange_def split: option.split)

lemma addExchange_declared_shell:
  "m_sendQueue (snd (addExchange_declared k ty p)) = m_sendQueue p"
  "m_connection (snd (addExchange_declared k ty p)) = m_connection p"
  "m_isInitialized (snd (addExchange_declared k ty p)) = m_isInitialized p"
  "m_threadRunning (snd (addExchange_declared k ty p)) = m_threadRunning p"
  "m_producerThread (snd (addExchange_declared k ty p)) = m_producerThread p"
  by (simp_all add: addExchange_declared_def split: option.split)

text \<open>A message whose body can be sent: set, readable and without borrowed properties.\<close>

definition sendable :: "basic_flags \<Rightarrow> heap \<Rightarrow> Message \<Rightarrow> string \<Rightarrow> bool" where
  "sendable F hp message body \<longleftrightarrow>
     self_contained F (AmqpProperties message) \<and>
     (\<exists>b. Bytes message = Some b \<and> deref_bytes hp b = Inr body)"

lemma Send_ok:
  assumes inv: "core_inv P p s" and room: "m_curChannelNumber p < INT_MAX"
    and msg: "sendable (flags P) (rt_heap s) message body"
  shows "okr (Send P ex rk message p (rt_heap s)) (\<lambda>(r, p', hp'). r = ALL_GOOD \<and> (\<exists>m.
     p' = (snd (addExchange ex p))\<lparr>m_sendQueue := m_sendQueue p @ [m]\<rparr> \<and>
     (fully_allocated m \<longrightarrow>
        core_inv P p' (s\<lparr>rt_heap := hp'\<rparr>) \<and> heap_le (rt_heap s) hp' \<and>
        sent_message ex rk message body (fst (addExchange ex p)) hp' m)))"
proof -
  note plat = core_inv_platform [OF inv]
  from inv have ei: "exchange_inv p" by (simp add: core_inv_def)
  obtain ch p1 where add: "addExchange ex p = (ch, p1)" by fastforce
  from addExchange_result [OF ei, of ex] add have
      ch: "\<not> ch < 0" "map_option m_channel (map_of (m_exchangeList p1) ex) = Some ch"
    by (simp_all add: exchange_channel_def)
  from msg obtain b where b: "Bytes message = Some b" "deref_bytes (rt_heap s) b = Inr body"
      and sc: "self_contained (flags P) (AmqpProperties message)"
    by (auto simp: sendable_def)
  obtain exb hp1 where e: "hare_cstring_bytes (c_str ex) (rt_heap s) = Inr (exb, hp1)"
      "ab_len exb = length (upto_NUL ex)" "alloc_spec (rt_heap s) (c_str (upto_NUL ex)) (ab_bytes exb) hp1"
    using hare_cstring_bytes_ok [of ex "rt_heap s"] by (auto simp: okr_def)
  obtain rkb hp2 where k: "hare_cstring_bytes (c_str rk) hp1 = Inr (rkb, hp2)"
      "ab_len rkb = length (upto_NUL rk)" "alloc_spec hp1 (c_str (upto_NUL rk)) (ab_bytes rkb) hp2"
    using hare_cstring_bytes_ok [of rk hp1] by (auto simp: okr_def)
  have le: "heap_le (rt_heap s) hp2"
    using alloc_spec_ext [OF plat(3) e(3)] alloc_spec_ext [OF alloc_spec_wf [OF plat(3) e(3)] k(3)]
    by (rule heap_le_trans)
  obtain c where c: "load_bytes hp2 b = Inr c"
    using heap_le_deref_bytes [OF le b(2)] by (auto simp: deref_bytes_def bindr_eq_Inr_iff)
  obtain body' hp3 where d: "amqp_bytes_malloc_dup (bapi P) b hp2 = Inr (body', hp3)"
      "dup_spec hp2 b c body' hp3"
    using bytes_api_dup [OF plat(1) c] by (auto simp: okr_def)
  let ?m = "\<lparr>rm_exchange = exb, rm_channel = ch, rm_routing_key = rkb,
      rm_properties = AmqpProperties message, rm_message = body'\<rparr>"
  let ?p = "p1\<lparr>m_sendQueue := m_sendQueue p @ [?m]\<rparr>"
  have send: "Send P ex rk message p (rt_heap s) = Inr (ALL_GOOD, ?p, hp3)"
    using add ch b e k d addExchange_shell(1) [of ex p]
    by (auto simp: Send_def split: option.splits)
  have "core_inv P ?p (s\<lparr>rt_heap := hp3\<rparr>) \<and> heap_le (rt_heap s) hp3 \<and>
      sent_message ex rk message body ch hp3 ?m" if f: "fully_allocated ?m"
  proof -
    note facts = sent_queue_ok [where m = ?m and ch = ch, OF plat(3,4) sc b(2) c, of ex hp1 rk hp3]
    have ei': "exchange_inv p1"
      using exchange_add_inv [OF ei room, of "Use ex"] add by simp
    have "exchange_inv ?p" using ei' by (simp add: exchange_inv_def)
    with facts e k d f inv addExchange_shell [of ex p] add show ?thesis
      by (simp add: core_inv_def)
  qed
  with send add show ?thesis by (auto simp: okr_def)
qed

lemma Producer_DeclareExchange_ok:
  assumes inv: "core_inv P p s" and room: "m_curChannelNumber p < INT_MAX"
  shows "core_inv P (snd (Producer_DeclareExchange ex ty p)) s"
proof -
  have "exchange_inv (snd (addExchange_declared ex ty p))"
    using exchange_add_inv [of p "Declare ex ty"] inv room by (simp add: core_inv_def)
  with inv show ?thesis
    by (simp add: Producer_DeclareExchange_def split_beta Let_def core_inv_def
        addExchange_declared_shell)
qed

end
