(* ===== verification/Lifecycle.thy ===== *)
theory Lifecycle
  imports ErrorCodes
begin

text \<open>
  The life cycle that \<open>Producer\<close> and \<open>Consumer\<close> share: an object that can be initialised, whose
  worker thread is started and stopped, and whose misuse is reported by a return code. The
  contract says what one \<open>Start\<close> and one \<open>Stop\<close> do; the lemmas extend it to any sequence of
  them.
\<close>

datatype command = CmdStart | CmdStop

text \<open>One command on an object with the given \<open>Start\<close> and \<open>Stop\<close>.\<close>

primrec perform ::
    "('p \<Rightarrow> 's \<Rightarrow> (HARE_ERROR_E \<times> 'p \<times> 's) res) \<Rightarrow>
     ('p \<Rightarrow> 's \<Rightarrow> (HARE_ERROR_E \<times> 'p \<times> 's) res) \<Rightarrow> command \<Rightarrow> 'p \<Rightarrow> 's \<Rightarrow> (HARE_ERROR_E \<times> 'p \<times> 's) res" where
  "perform start stop CmdStart p s = start p s"
| "perform start stop CmdStop p s = stop p s"

text \<open>The object after a sequence of commands, with the codes they returned.\<close>

fun drive ::
    "('p \<Rightarrow> 's \<Rightarrow> (HARE_ERROR_E \<times> 'p \<times> 's) res) \<Rightarrow>
     ('p \<Rightarrow> 's \<Rightarrow> (HARE_ERROR_E \<times> 'p \<times> 's) res) \<Rightarrow> command list \<Rightarrow> 'p \<Rightarrow> 's \<Rightarrow> (HARE_ERROR_E list \<times> 'p \<times> 's) res" where
  "drive start stop [] p s = Inr ([], p, s)"
| "drive start stop (c # cs) p s =
     bindr (perform start stop c p s) (\<lambda>(r, p1, s1).
     bindr (drive start stop cs p1 s1) (\<lambda>(rs, p2, s2). Inr (r # rs, p2, s2)))"

text \<open>The codes that tell a command that it came at the wrong time.\<close>

primrec misuse :: "bool \<Rightarrow> command \<Rightarrow> HARE_ERROR_E \<Rightarrow> bool" where
  "misuse run CmdStart r \<longleftrightarrow> run \<and> r = THREAD_ALREADY_RUNNING"
| "misuse run CmdStop r \<longleftrightarrow> \<not> run \<and> r = THREAD_NOT_RUNNING"

text \<open>
  A code reports misuse exactly when the command before it has already brought the object into
  the state asked for.
\<close>

fun codes_fit :: "bool \<Rightarrow> command list \<Rightarrow> HARE_ERROR_E list \<Rightarrow> bool" where
  "codes_fit run [] rs \<longleftrightarrow> rs = []"
| "codes_fit run (c # cs) [] \<longleftrightarrow> False"
| "codes_fit run (c # cs) (r # rs) \<longleftrightarrow>
     (misuse run c r \<longleftrightarrow> run = (c = CmdStart)) \<and> codes_fit (c = CmdStart) cs rs"

locale lifecycle =
  fixes initialized :: "'p \<Rightarrow> bool"
    and running :: "'p \<Rightarrow> bool"
    and inv :: "'p \<Rightarrow> 's \<Rightarrow> bool"
    and start :: "'p \<Rightarrow> 's \<Rightarrow> (HARE_ERROR_E \<times> 'p \<times> 's) res"
    and stop :: "'p \<Rightarrow> 's \<Rightarrow> (HARE_ERROR_E \<times> 'p \<times> 's) res"
  assumes running_initialized: "inv p s \<Longrightarrow> running p \<Longrightarrow> initialized p"
    and start_law: "inv p s \<Longrightarrow> okr (start p s) (\<lambda>(r, p', s'). inv p' s' \<and>
          initialized p' = initialized p \<and> running p' = initialized p \<and>
          r = (if \<not> initialized p then NOT_INITIALIZED
               else if running p then THREAD_ALREADY_RUNNING else ALL_GOOD))"
    and stop_law: "inv p s \<Longrightarrow> initialized p \<Longrightarrow> okr (stop p s) (\<lambda>(r, p', s'). inv p' s' \<and>
          initialized p' \<and> \<not> running p' \<and> (r = THREAD_NOT_RUNNING \<longleftrightarrow> \<not> running p))"
begin

lemma perform_ok:
  assumes "inv p s" and "initialized p"
  shows "okr (perform start stop c p s) (\<lambda>(r, p', s'). inv p' s' \<and> initialized p' \<and>
     running p' = (c = CmdStart) \<and> (misuse (running p) c r \<longleftrightarrow> running p = (c = CmdStart)))"
proof (cases c)
  case CmdStart
  show ?thesis
    unfolding CmdStart perform.simps
    by (rule okr_mono [OF start_law [OF assms(1)]]) (use assms(2) in auto)
next
  case CmdStop
  show ?thesis
    unfolding CmdStop perform.simps
    by (rule okr_mono [OF stop_law [OF assms]]) auto
qed

lemma drive_ok:
  assumes "inv p s" and "initialized p"
  shows "okr (drive start stop cs p s) (\<lambda>(rs, p', s'). inv p' s' \<and> initialized p' \<and>
     codes_fit (running p) cs rs \<and> running p' = (if cs = [] then running p else last cs = CmdStart))"
  using assms
proof (induction cs arbitrary: p s)
  case Nil
  then show ?case by simp
next
  case (Cons c cs)
  from perform_ok [OF Cons.prems, of c] obtain r p1 s1 where
      one: "perform start stop c p s = Inr (r, p1, s1)" "inv p1 s1" "initialized p1"
      "running p1 = (c = CmdStart)" "misuse (running p) c r \<longleftrightarrow> running p = (c = CmdStart)"
    by (auto simp: okr_def)
  from Cons.IH [OF one(2,3)] obtain rs p2 s2 where
      "drive start stop cs p1 s1 = Inr (rs, p2, s2)" "inv p2 s2" "initialized p2"
      "codes_fit (running p1) cs rs"
      "running p2 = (if cs = [] then running p1 else last cs = CmdStart)"
    by (auto simp: okr_def)
  with one show ?case by simp
qed

end

end
