(* ===== verification/Producer_System.thy ===== *)
theory Producer_System
  imports Producer Lifecycle
begin

text \<open>
  The producer as a system: method calls of the application, steps of the worker thread and
  whatever else goes on in the process and at the broker, in any order. The central result is
  that no documented use of the class runs into undefined behaviour; the other properties say
  what becomes of messages, memory and channels.
\<close>

section \<open>Start and stop\<close>

definition producer_start :: "Producer \<Rightarrow> 'w rt \<Rightarrow> (HARE_ERROR_E \<times> Producer \<times> 'w rt) res" where
  "producer_start p s = bindr (Producer_Start p) (\<lambda>(r, p'). Inr (r, p', s))"

definition producer_inv :: "'w platform \<Rightarrow> Producer \<Rightarrow> 'w rt \<Rightarrow> bool" where
  "producer_inv P p s \<longleftrightarrow> core_inv P p s \<and> thread_inv p"

interpretation prod: lifecycle m_isInitialized m_threadRunning "producer_inv P" producer_start
    "Producer_Stop P"
  for P :: "'w platform"
proof
  fix p :: Producer and s :: "'w rt"
  assume inv: "producer_inv P p s"
  then have core: "core_inv P p s" and th: "thread_inv p" by (simp_all add: producer_inv_def)
  show "m_threadRunning p \<Longrightarrow> m_isInitialized p" using th by (simp add: thread_inv_def)
  show "okr (producer_start p s) (\<lambda>(r, p', s'). producer_inv P p' s' \<and>
      m_isInitialized p' = m_isInitialized p \<and> m_threadRunning p' = m_isInitialized p \<and>
      r = (if \<not> m_isInitialized p then NOT_INITIALIZED
           else if m_threadRunning p then THREAD_ALREADY_RUNNING else ALL_GOOD))"
    unfolding producer_start_def
    by (rule okr_bindI [OF Producer_Start_ok [OF core th]])
       (use th in \<open>auto simp: producer_inv_def thread_inv_def split: if_splits\<close>)
  assume "m_isInitialized p"
  show "okr (Producer_Stop P p s) (\<lambda>(r, p', s'). producer_inv P p' s' \<and> m_isInitialized p' \<and>
      \<not> m_threadRunning p' \<and> (r = THREAD_NOT_RUNNING \<longleftrightarrow> \<not> m_threadRunning p))"
    by (rule okr_mono [OF Producer_Stop_ok [OF core th \<open>m_isInitialized p\<close>]])
       (auto simp: producer_inv_def split: if_splits)
qed

section \<open>The transition system\<close>

text \<open>
  What can happen: the methods of the class, one step of the worker thread, and anything the
  rest of the process and the broker do (\<open>A_Environment\<close>).
\<close>

datatype 'w action =
    A_Initialize string int string string
  | A_DeclareExchange string string
  | A_Send string string Message
  | A_Start
  | A_Stop
  | A_Restart
  | A_Thread
  | A_Environment "'w rt"

primrec producer_action ::
    "'w platform \<Rightarrow> 'w action \<Rightarrow> Producer \<Rightarrow> 'w rt \<Rightarrow> (Producer \<times> 'w rt) res" where
  "producer_action P (A_Initialize server port user pw) p s =
     bindr (Producer_Initialize P server port user pw p s) (\<lambda>(r, p', s'). Inr (p', s'))"
| "producer_action P (A_DeclareExchange ex ty) p s = Inr (snd (Producer_DeclareExchange ex ty p), s)"
| "producer_action P (A_Send ex rk message) p s =
     bindr (Send P ex rk message p (rt_heap s)) (\<lambda>(r, p', hp'). Inr (p', s\<lparr>rt_heap := hp'\<rparr>))"
| "producer_action P A_Start p s = bindr (producer_start p s) (\<lambda>(r, p', s'). Inr (p', s'))"
| "producer_action P A_Stop p s = bindr (Producer_Stop P p s) (\<lambda>(r, p', s'). Inr (p', s'))"
| "producer_action P A_Restart p s = bindr (Producer_Restart P p s) (\<lambda>(r, p', s'). Inr (p', s'))"
| "producer_action P A_Thread p s =
     (case m_producerThread p of None \<Rightarrow> Inr (p, s) | Some pc \<Rightarrow> Producer_thread_step P pc p s)"
| "producer_action P (A_Environment s') p s = Inr (p, s')"

text \<open>
  The documented use: \<open>Initialize\<close> not while the thread runs, \<open>Stop\<close> only after \<open>Initialize\<close>,
  messages that have a body and borrow no memory, fewer than \<open>INT_MAX\<close> exchanges, memory for the
  copies of a message, and an environment that leaves the queue's buffers alone.
\<close>

primrec permitted :: "'w platform \<Rightarrow> 'w action \<Rightarrow> Producer \<Rightarrow> 'w rt \<Rightarrow> bool" where
  "permitted P (A_Initialize server port user pw) p s \<longleftrightarrow> \<not> m_threadRunning p"
| "permitted P (A_DeclareExchange ex ty) p s \<longleftrightarrow> m_curChannelNumber p < INT_MAX"
| "permitted P (A_Send ex rk message) p s \<longleftrightarrow>
     m_curChannelNumber p < INT_MAX \<and> (\<exists>body. sendable (flags P) (rt_heap s) message body) \<and>
     (\<forall>r p' hp'. Send P ex rk message p (rt_heap s) = Inr (r, p', hp') \<longrightarrow>
        fully_allocated (last (m_sendQueue p')))"
| "permitted P A_Start p s \<longleftrightarrow> True"
| "permitted P A_Stop p s \<longleftrightarrow> m_isInitialized p"
| "permitted P A_Restart p s \<longleftrightarrow> True"
| "permitted P A_Thread p s \<longleftrightarrow> True"
| "permitted P (A_Environment s') p s \<longleftrightarrow>
     heap_wf (rt_heap s') \<and>
     (\<forall>a \<in> set (queue_addrs (m_sendQueue p)). h_blocks (rt_heap s') a = h_blocks (rt_heap s) a)"

inductive producer_reachable :: "'w platform \<Rightarrow> Producer \<Rightarrow> 'w rt \<Rightarrow> bool" for P where
  start: "platform_ok P \<Longrightarrow> connections_available P \<Longrightarrow> heap_wf (rt_heap s) \<Longrightarrow>
    producer_reachable P Producer_init s"
| step: "producer_reachable P p s \<Longrightarrow> permitted P a p s \<Longrightarrow>
    producer_action P a p s = Inr (p', s') \<Longrightarrow> producer_reachable P p' s'"

lemma producer_inv_init:
  "platform_ok P \<Longrightarrow> heap_wf (rt_heap s) \<Longrightarrow> producer_inv P Producer_init s"
  by (simp add: producer_inv_def core_inv_def thread_inv_def)
     (simp add: Producer_init_def)

lemma thread_inv_moved:
  assumes "thread_inv p" and "m_producerThread p = Some pc" and "thread_moved pc p p'"
  shows "thread_inv p'"
  using assms by (auto simp: thread_inv_def thread_moved_def same_shell_def)

text \<open>Every permitted action is defined and keeps the invariant.\<close>

lemma producer_action_ok:
  assumes inv: "producer_inv P p s" and av: "connections_available P" and perm: "permitted P a p s"
  shows "okr (producer_action P a p s) (\<lambda>(p', s'). producer_inv P p' s')"
proof -
  from inv have core: "core_inv P p s" and th: "thread_inv p" by (simp_all add: producer_inv_def)
  show ?thesis
  proof (cases a)
    case (A_Initialize server port user pw)
    with Producer_Initialize_ok [OF core th _ av, of server port user pw] perm show ?thesis
      by (auto simp: okr_def producer_inv_def)
  next
    case (A_DeclareExchange ex ty)
    with Producer_DeclareExchange_ok [OF core, of ex ty] perm th show ?thesis
      by (simp add: producer_inv_def thread_inv_def Producer_DeclareExchange_def split_beta Let_def
          addExchange_declared_shell)
  next
    case (A_Send ex rk message)
    with perm obtain body where "m_curChannelNumber p < INT_MAX"
        "sendable (flags P) (rt_heap s) message body" by auto
    from Send_ok [OF core this, of ex rk] A_Send perm th show ?thesis
      by (auto simp: okr_def producer_inv_def thread_inv_def addExchange_shell)
  next
    case A_Start
    with prod.start_law [OF inv] show ?thesis by (auto simp: okr_def)
  next
    case A_Stop
    with prod.stop_law [OF inv] perm show ?thesis by (auto simp: okr_def)
  next
    case A_Restart
    with Producer_Restart_ok [OF core th] show ?thesis by (auto simp: okr_def producer_inv_def)
  next
    case A_Thread
    show ?thesis
    proof (cases "m_producerThread p")
      case None
      with A_Thread inv show ?thesis by simp
    next
      case (Some pc)
      with th have "m_isInitialized p" by (auto simp: thread_inv_def)
      from Producer_thread_step_ok [OF core Some this] A_Thread Some th show ?thesis
        by (auto simp: okr_def producer_inv_def intro: thread_inv_moved)
    qed
  next
    case (A_Environment s')
    with core perm th show ?thesis
      by (auto simp: producer_inv_def core_inv_def intro: queue_ok_frame)
  qed
qed

lemma reachable_inv:
  assumes "producer_reachable P p s"
  shows "producer_inv P p s \<and> connections_available P"
  using assms
proof (induction rule: producer_reachable.induct)
  case (start s)
  then show ?case by (simp add: producer_inv_init)
next
  case (step p s a p' s')
  then show ?case using producer_action_ok [of P p s a] by (auto simp: okr_def)
qed

section \<open>Safety\<close>

text \<open>
  C1. No documented use of a producer runs into undefined behaviour: in every state that any
  interleaving of method calls, worker-thread steps and activity of the environment can reach,
  every permitted action is defined and leads to a reachable state in which the queue owns its
  buffers, the thread is inside its loop exactly while it is to run, and the connection flag
  tells the truth about the handle.
\<close>

theorem producer_never_faults:
  assumes "producer_reachable P p s" and "permitted P a p s"
  shows "okr (producer_action P a p s) (\<lambda>(p', s').
     producer_reachable P p' s' \<and> core_inv P p' s' \<and> thread_inv p')"
proof -
  from reachable_inv [OF assms(1)] have "producer_inv P p s" "connections_available P" by simp_all
  from producer_action_ok [OF this assms(2)] show ?thesis
    using assms by (auto simp: okr_def producer_inv_def intro: producer_reachable.step)
qed

lemma sample_reachable: "producer_reachable ref_platform Producer_init quiet_rt"
  by (rule producer_reachable.start)
     (simp_all add: ref_platform_ok ref_connections_available quiet_rt_def)

theorem producer_never_faults_witness:
  "okr (producer_action ref_platform (A_Initialize ''localhost'' 5672 ''guest'' ''guest'')
          Producer_init quiet_rt)
     (\<lambda>(p', s'). producer_reachable ref_platform p' s' \<and> core_inv ref_platform p' s' \<and> thread_inv p')"
  by (rule producer_never_faults [OF sample_reachable]) (simp add: Producer_init_def)

lemma close_channels_ok:
  assumes "core_inv P p s" and "m_isInitialized p"
  shows "okr (close_channels P es p s) (\<lambda>s'. core_inv P p s' \<and> rt_heap s' = rt_heap s)"
  using assms(1)
proof (induction es arbitrary: s)
  case Nil
  then show ?case by simp
next
  case (Cons x es)
  obtain name e where x: "x = (name, e)" by fastforce
  from Cons.prems assms(2) obtain c where c: "the_connection p = Inr c" "conn_inv P c"
    by (rule core_inv_connectionE)
  obtain r s1 where "CloseChannel P (m_channel e) c s = Inr (r, s1)" "rt_heap s1 = rt_heap s"
    using CloseChannel_ok [OF c(2), of s "m_channel e"] by (auto simp: keeps_heap_def okr_def)
  with Cons.IH [OF core_inv_heap [OF Cons.prems, of s1]] c x show ?case by (simp add: okr_def)
qed

text \<open>The destructor of an initialised producer whose thread does not run.\<close>

lemma destroy_idle:
  assumes core: "core_inv P p s" and th: "thread_inv p" and idle: "\<not> m_threadRunning p"
    and init: "m_isInitialized p"
  shows "okr (Producer_destroy P p s) (\<lambda>s'. rt_heap s' = rt_heap s)"
proof -
  from close_channels_ok [OF core init, of "exchange_entries P p s"] obtain s1 where
      s1: "close_channels P (exchange_entries P p s) p s = Inr s1" "rt_heap s1 = rt_heap s"
    by (auto simp: okr_def)
  from core init obtain c where c: "the_connection p = Inr c" "conn_inv P c"
    by (rule core_inv_connectionE)
  from CloseConnection_ok [OF c(2), of s1] obtain r c1 s2 where
      c1: "CloseConnection P c s1 = Inr (r, c1, s2)" "conn_inv P c1" "rt_heap s2 = rt_heap s1"
    by (auto simp: okr_def)
  from CloseConnection_ok [OF c1(2), of s2] obtain r' c2 s3 where
      c2: "CloseConnection P c1 s2 = Inr (r', c2, s3)" "rt_heap s3 = rt_heap s2"
    by (auto simp: okr_def)
  from th idle have "m_producerThread p = None" by (simp add: thread_inv_def)
  with init idle s1 c c1 c2 show ?thesis
    by (simp add: Producer_destroy_def Producer_IsInitialized_def Producer_IsRunning_def
        ConnectionBase_destroy_def)
qed

text \<open>
  A producer that has been initialised and does not run loses the buffers of its unsent
  messages when it is destroyed: the destructor runs to its end without touching the heap, so
  every block of the queue is still allocated and nothing refers to it any more.
\<close>

theorem destroy_leaks_unsent:
  assumes "core_inv P p s" and "thread_inv p" and "\<not> m_threadRunning p" and "m_isInitialized p"
  shows "okr (Producer_destroy P p s) (\<lambda>s'.
     set (queue_addrs (m_sendQueue p)) \<subseteq> dom (h_blocks (rt_heap s')))"
  by (rule okr_mono [OF destroy_idle [OF assms]])
     (use core_inv_platform(4) [OF assms(1)] in \<open>auto simp: queue_ok_def\<close>)

definition idle_producer :: Producer where
  "idle_producer = Producer_init\<lparr>m_connection := Some sample_conn, m_isInitialized := True\<rparr>"

lemma idle_producer_core: "heap_wf (rt_heap s) \<Longrightarrow> core_inv ref_platform idle_producer s"
  by (simp add: core_inv_def idle_producer_def ref_platform_ok sample_conn_inv exchange_inv_def
      Producer_init_def)

lemma idle_producer_thread: "thread_inv idle_producer"
  by (simp add: thread_inv_def idle_producer_def Producer_init_def)

lemma quiet_heap_wf: "heap_wf (rt_heap quiet_rt)"
  by (simp add: quiet_rt_def)

theorem destroy_leaks_unsent_witness:
  "okr (Producer_destroy ref_platform idle_producer quiet_rt) (\<lambda>s'.
     set (queue_addrs (m_sendQueue idle_producer)) \<subseteq> dom (h_blocks (rt_heap s')))"
  by (rule destroy_leaks_unsent [OF idle_producer_core [OF quiet_heap_wf] idle_producer_thread])
     (simp_all add: idle_producer_def Producer_init_def)

section \<open>Life cycle\<close>



text \<open>
  \<open>Stop\<close> on a running producer waits for the worker thread, which needs at most four more
  steps wherever it is, and leaves it joined, disconnected and with an empty queue; the
  exchanges and their channels are kept for the next \<open>Start\<close>.
\<close>

theorem stop_joins_and_clears:
  assumes "core_inv P p s" and "thread_inv p" and "m_threadRunning p"
  shows "okr (Producer_Stop P p s) (\<lambda>(r, p', s'). r = ALL_GOOD \<and> core_inv P p' s' \<and>
     m_producerThread p' = None \<and> \<not> isConnected p' \<and> m_sendQueue p' = [] \<and>
     m_exchangeList p' = m_exchangeList p)"
proof -
  from assms(2,3) have "m_isInitialized p" by (simp add: thread_inv_def)
  from Producer_Stop_ok [OF assms(1,2) this] assms(3) show ?thesis
    by (auto simp: okr_def thread_inv_def)
qed

definition running_producer :: Producer where
  "running_producer = idle_producer\<lparr>m_threadRunning := True, m_producerThread := Some P_Loop\<rparr>"

lemma running_producer_inv:
  "core_inv ref_platform running_producer quiet_rt" "thread_inv running_producer"
  using idle_producer_core [OF quiet_heap_wf]
  by (simp_all add: core_inv_def running_producer_def exchange_inv_def thread_inv_def)
     (simp add: idle_producer_def)

theorem stop_joins_and_clears_witness:
  "okr (Producer_Stop ref_platform running_producer quiet_rt) (\<lambda>(r, p', s'). r = ALL_GOOD \<and>
     core_inv ref_platform p' s' \<and> m_producerThread p' = None \<and> \<not> isConnected p' \<and>
     m_sendQueue p' = [] \<and> m_exchangeList p' = m_exchangeList running_producer)"
  by (rule stop_joins_and_clears [OF running_producer_inv]) (simp add: running_producer_def)

text \<open>
  \<open>Initialize\<close> on a running producer clears the flag but neither stops nor joins the
  worker thread, so the next \<open>Start\<close> assigns to a joinable \<open>std::thread\<close> and terminates the
  program.
\<close>

theorem initialize_while_running_terminates:
  assumes "core_inv P p s" and "thread_inv p" and "m_threadRunning p"
  shows "okr (Producer_Initialize P server port user pw p s)
     (\<lambda>(r, p', s'). r = ALL_GOOD \<and> Producer_Start p' = Inl Terminate)"
proof -
  from assms(2,3) have init: "m_isInitialized p" and "m_producerThread p \<noteq> None"
    by (simp_all add: thread_inv_def)
  from assms(1) init obtain c where "m_connection p = Some c" "conn_inv P c"
    by (rule core_inv_connectionE)
  moreover obtain r c' s' where "CloseConnection P c s = Inr (r, c', s')"
    using CloseConnection_ok [OF \<open>conn_inv P c\<close>, of s] by (auto simp: okr_def)
  ultimately show ?thesis
    using \<open>m_producerThread p \<noteq> None\<close>
    by (simp add: Producer_Initialize_def ConnectionBase_destroy_def Producer_Start_def
        Producer_IsInitialized_def Producer_IsRunning_def Producer_setRunning_def
        setInitialized_def Let_def)
qed

theorem initialize_while_running_terminates_witness:
  "okr (Producer_Initialize ref_platform ''localhost'' 5672 ''guest'' ''guest'' running_producer quiet_rt)
     (\<lambda>(r, p', s'). r = ALL_GOOD \<and> Producer_Start p' = Inl Terminate)"
  by (rule initialize_while_running_terminates [OF running_producer_inv])
     (simp add: running_producer_def)

text \<open>
  \<open>Stop\<close> on a producer that has not been initialised is answered with a null pointer
  dereference instead of the code \<open>NOT_INITIALIZED\<close> it has prepared.
\<close>

theorem stop_before_initialize: "Producer_Stop P Producer_init s = Inl NullDeref"
  by (simp add: Producer_Stop_def Producer_init_def Producer_IsInitialized_def the_connection_def)

section \<open>Messages\<close>

text \<open>
  C15. \<open>Send\<close> appends one message to the queue and changes nothing else of it: the new message
  carries the exchange and the routing key (up to their first NUL), a copy of the body, the
  properties and the channel of its exchange, in buffers of its own, and everything that was on
  the heap, the message of the caller included, is as it was.
\<close>

theorem send_enqueues_copy:
  assumes "core_inv P p s" and "m_curChannelNumber p < INT_MAX"
    and "sendable (flags P) (rt_heap s) message body"
  shows "okr (Send P ex rk message p (rt_heap s)) (\<lambda>(r, p', hp'). r = ALL_GOOD \<and> (\<exists>m.
     m_sendQueue p' = m_sendQueue p @ [m] \<and>
     (fully_allocated m \<longrightarrow>
        core_inv P p' (s\<lparr>rt_heap := hp'\<rparr>) \<and> heap_le (rt_heap s) hp' \<and>
        exchange_channel p' ex = Some (rm_channel m) \<and>
        sent_message ex rk message body (rm_channel m) hp' m)))"
proof -
  from assms(1) have "exchange_inv p" by (simp add: core_inv_def)
  note ch = addExchange_result(1) [OF this, of ex]
  show ?thesis
    by (rule okr_mono [OF Send_ok [OF assms, of ex rk]])
       (use ch in \<open>auto simp: sent_message_def exchange_channel_def\<close>)
qed

definition plain_message :: Message where
  "plain_message = sample_message\<lparr>m_properties := indeterminate_properties\<rparr>"

definition sample_rt :: "ref_world rt" where
  "sample_rt = \<lparr>rt_heap = sample_heap, rt_world = quiet_world\<rparr>"

lemma plain_message_sendable: "sendable ref_flags sample_heap plain_message ''hi''"
  by (simp add: sendable_def plain_message_def sample_message_def sample_heap_def self_contained_def
      byte_fields_def ref_flags_def AmqpProperties_def Bytes_def deref_bytes_def load_bytes_def
      indeterminate_properties_def c_str_def)

lemma sample_heap_reachable: "producer_reachable ref_platform Producer_init sample_rt"
  by (rule producer_reachable.start)
     (simp_all add: ref_platform_ok ref_connections_available sample_rt_def sample_heap_wf)

lemma sample_send:
  "okr (Send ref_platform ''amq.direct'' ''test'' plain_message Producer_init sample_heap)
     (\<lambda>(r, p', hp'). fully_allocated (last (m_sendQueue p')))"
  by (simp add: Send_def addExchange_def Producer_init_def ExchangeProperties_init_def
      hare_cstring_bytes_def malloc_def sample_heap_def c_str_def NUL_def plain_message_def
      sample_message_def Bytes_def ref_bapi_def ref_malloc_dup_def load_bytes_def fully_allocated_def
      int_incr_def Let_def)

lemma sample_sendable: "permitted ref_platform (A_Send ''amq.direct'' ''test'' plain_message) Producer_init sample_rt"
  using sample_send plain_message_sendable
  by (auto simp: sample_rt_def okr_def Producer_init_def [THEN arg_cong, of m_curChannelNumber])

theorem send_enqueues_copy_witness:
  "okr (Send ref_platform ''amq.direct'' ''test'' plain_message idle_producer (rt_heap sample_rt))
     (\<lambda>(r, p', hp'). r = ALL_GOOD \<and> (\<exists>m. m_sendQueue p' = m_sendQueue idle_producer @ [m] \<and>
     (fully_allocated m \<longrightarrow>
        core_inv ref_platform p' (sample_rt\<lparr>rt_heap := hp'\<rparr>) \<and> heap_le (rt_heap sample_rt) hp' \<and>
        exchange_channel p' ''amq.direct'' = Some (rm_channel m) \<and>
        sent_message ''amq.direct'' ''test'' plain_message ''hi'' (rm_channel m) hp' m)))"
  by (rule send_enqueues_copy)
     (simp_all add: idle_producer_core sample_rt_def sample_heap_wf plain_message_sendable,
      simp add: idle_producer_def Producer_init_def)


definition loaded_producer :: Producer where
  "loaded_producer = running_producer
     \<lparr>m_connection := Some open_conn, m_channelsConnected := True, m_sendQueue := [sample_raw]\<rparr>"

lemma loaded_producer_inv: "core_inv ref_platform loaded_producer quiet_rt"
proof -
  have "queue_ok ref_flags (rt_heap quiet_rt) [sample_raw]"
    using sample_raw_readable [of "rt_heap quiet_rt"]
    by (simp add: queue_ok_def self_contained_def byte_fields_def ref_flags_def)
       (simp add: sample_raw_def owned_def indeterminate_properties_def)
  with running_producer_inv(1) show ?thesis
    by (auto simp: core_inv_def loaded_producer_def exchange_inv_def open_conn_inv running_producer_def
        idle_producer_def)
qed

lemma loaded_producer_connected: "isConnected loaded_producer"
  by (simp add: loaded_producer_def isConnected_def IsConnected_def open_conn_def)


section \<open>Progress\<close>

text \<open>A broker connection on which publishing does not fail.\<close>

definition publishing_works :: "'w platform \<Rightarrow> bool" where
  "publishing_works P \<longleftrightarrow>
     (\<forall>conn ch ex rk ma im props fields body w.
        0 \<le> fst (amqp_basic_publish (api P) conn ch ex rk ma im props fields body w))"

text \<open>The worker thread at its loop condition, with an open connection and open channels.\<close>

definition ready :: "'w platform \<Rightarrow> Producer \<Rightarrow> 'w rt \<Rightarrow> bool" where
  "ready P p s \<longleftrightarrow>
     core_inv P p s \<and> isConnected p \<and> m_threadRunning p \<and> m_channelsConnected p \<and>
     m_producerThread p = Some P_Loop"

lemma publish_works:
  assumes works: "publishing_works P" and inv: "core_inv P p s" and con: "isConnected p"
    and q: "m_sendQueue p = m # q"
  shows "okr (publishNextInQueue P p s) (\<lambda>(p', s'). p' = p\<lparr>m_sendQueue := q\<rparr> \<and>
     rt_heap s' = drop_blocks (owned m) (rt_heap s) \<and> core_inv P p' s')"
proof -
  from inv con obtain c where c: "the_connection p = Inr c" "conn_inv P c" "IsConnected c"
    by (rule isConnectedE)
  note plat = core_inv_platform [OF inv]
  from plat(4) q have ok: "queue_ok (flags P) (rt_heap s) (m # q)" by simp
  from c(2,3) obtain h where h: "handle (m_conn c) = Inr h" by (rule conn_inv_connectedE)
  have w: "\<not> fst (amqp_basic_publish (api P) x0 x1 x2 x3 x4 x5 x6 x7 x8 x9) < 0"
    for x0 x1 x2 x3 x4 x5 x6 x7 x8 x9
    using works by (simp add: publishing_works_def not_less)
  have "okr (PublishMessage P m c s) (\<lambda>(r, m', s'). r = ALL_GOOD \<and> rt_heap s' = rt_heap s \<and>
      owned m' = owned m)"
    using queue_ok_head(3) [OF ok] h c(3)
    by (auto simp: PublishMessage_def raw_readable_def okr_def stamp_wire_fields [OF plat(2)]
        Let_def from_world_def split_beta w)
  then obtain m' s1 where pub: "PublishMessage P m c s = Inr (ALL_GOOD, m', s1)"
      "rt_heap s1 = rt_heap s" "owned m' = owned m"
    by (auto simp: okr_def)
  have freed: "hare_free_message_risky (bapi P) m' (rt_heap s1) = Inr (drop_blocks (owned m) (rt_heap s))"
    using hare_free_message_risky_ok [OF plat(1), of m' "rt_heap s"] queue_ok_head [OF ok] pub by simp
  let ?s = "s1\<lparr>rt_heap := drop_blocks (owned m) (rt_heap s)\<rparr>"
  have "publishNextInQueue P p s = Inr (p\<lparr>m_sendQueue := q\<rparr>, ?s)"
    using con q c(1) pub freed by (simp add: publishNextInQueue_def)
  moreover have "core_inv P (p\<lparr>m_sendQueue := q\<rparr>) ?s"
    by (rule core_inv_frame [OF inv])
       (use inv ok in \<open>auto simp: core_inv_def same_shell_def queue_ok_tail drop_blocks_wf\<close>)
  ultimately show ?thesis by simp
qed

lemma cycle:
  assumes works: "publishing_works P" and rdy: "ready P p s" and q: "m_sendQueue p = m # q"
  shows "\<exists>p' s'. (\<forall>n. run_thread P (n + 3) p s = run_thread P n p' s') \<and> ready P p' s' \<and>
     m_sendQueue p' = q \<and> rt_heap s' = drop_blocks (owned m) (rt_heap s)"
proof -
  let ?p = "at_pc P_Publish p"
  from rdy have r: "core_inv P p s" "isConnected p" "m_threadRunning p" "m_channelsConnected p"
      "m_producerThread p = Some P_Loop"
    by (simp_all add: ready_def)
  have c: "isConnected (at_pc pc x) = isConnected x" for pc x by (simp add: isConnected_def at_pc_def)
  have "core_inv P ?p s" "isConnected ?p" "m_sendQueue ?p = m # q"
    using r c q by (simp_all, simp add: at_pc_def)
  from publish_works [OF works this] obtain s' where
      pub: "publishNextInQueue P ?p s = Inr (?p\<lparr>m_sendQueue := q\<rparr>, s')"
      "rt_heap s' = drop_blocks (owned m) (rt_heap s)" "core_inv P (?p\<lparr>m_sendQueue := q\<rparr>) s'"
    by (auto simp: okr_def)
  let ?q = "at_pc P_Loop (?p\<lparr>m_sendQueue := q\<rparr>)"
  have s1: "Producer_thread_step P P_Loop p s = Inr (at_pc P_Channels p, s)"
    using r by (simp add: Producer_thread_step_def Producer_IsRunning_def)
  have s2: "Producer_thread_step P P_Channels (at_pc P_Channels p) s = Inr (?p, s)"
    using r by (simp add: Producer_thread_step_def channelsConnected_def at_pc_def)
  have s3: "Producer_thread_step P P_Publish ?p s = Inr (?q, s')"
    using pub(1) by (simp add: Producer_thread_step_def)
  have pcs: "m_producerThread (at_pc pc x) = Some pc" for pc x by (simp add: at_pc_def)
  have "run_thread P (n + 3) p s = run_thread P n ?q s'" for n
    using r(5) s1 s2 s3 by (simp add: numeral_3_eq_3 pcs)
  moreover have "ready P ?q s'"
    using r pub(3) by (simp add: ready_def pcs c) (simp add: at_pc_def isConnected_def)
  ultimately show ?thesis
    using pub(2) by (intro exI [of _ ?q] exI [of _ s']) (simp add: at_pc_def)
qed


lemma ref_publishing_works: "publishing_works (ref_platform\<lparr>api := ref_api\<lparr>amqp_basic_publish :=
    (\<lambda>c ch ex rk ma im p fs body w. (0, w))\<rparr>\<rparr>)"
  by (simp add: publishing_works_def)


section \<open>Channels\<close>

text \<open>
  After any sequence of sends and declarations that names at most 65535 exchanges, two
  exchanges use different channels on the wire, where a channel has 16 bits, and none uses
  channel 0.
\<close>

theorem exchanges_use_distinct_wire_channels:
  assumes "card (exchange_key ` set uses) \<le> 65535"
    and "exchange_channel (fold exchange_add uses Producer_init) k = Some c"
    and "exchange_channel (fold exchange_add uses Producer_init) k' = Some c'" and "k \<noteq> k'"
  shows "wire_channel c \<noteq> wire_channel c' \<and> 0 < wire_channel c"
  using assms by (rule ex_reg.run_wire_distinct [unfolded ex_reg.run_def])

theorem exchanges_use_distinct_wire_channels_witness:
  "wire_channel 1 \<noteq> wire_channel 2 \<and> 0 < wire_channel 1"
  by (rule exchanges_use_distinct_wire_channels
        [of "[Use ''a'', Declare ''b'' ''topic'']" "''a''" 1 "''b''" 2])
     (simp_all add: exchange_channel_def exchange_defs Producer_init_def int_incr_def)

text \<open>
  With more than 65536 exchanges two of them share a channel on the wire, although their
  channel numbers differ: nothing stops the numbering at the 16 bits that AMQP has.
\<close>

theorem exchanges_collide_on_the_wire:
  assumes "65537 \<le> card (exchange_key ` set uses)"
    and "int (card (exchange_key ` set uses)) + 1 < INT_MAX"
  shows "\<exists>k k' c c'. k \<noteq> k' \<and> exchange_channel (fold exchange_add uses Producer_init) k = Some c \<and>
     exchange_channel (fold exchange_add uses Producer_init) k' = Some c' \<and>
     wire_channel c = wire_channel c'"
  using assms by (rule ex_reg.run_wire_collision [unfolded ex_reg.run_def])

text \<open>Names for that many exchanges.\<close>

lemma many_names: "card (exchange_key ` set (map (\<lambda>n. Use (replicate n CHR ''x'')) [0..<n])) = n"
proof -
  have "exchange_key ` set (map (\<lambda>n. Use (replicate n CHR ''x'')) [0..<n]) =
      (\<lambda>n. replicate n CHR ''x'') ` {0..<n}"
    by force
  moreover have "inj_on (\<lambda>n. replicate n CHR ''x'') {0..<n}"
    by (rule inj_onI) (metis length_replicate)
  ultimately show ?thesis by (simp add: card_image)
qed

theorem exchanges_collide_on_the_wire_witness:
  "\<exists>k k' c c'. k \<noteq> k' \<and>
     exchange_channel (fold exchange_add (map (\<lambda>n. Use (replicate n CHR ''x'')) [0..<70000])
       Producer_init) k = Some c \<and>
     exchange_channel (fold exchange_add (map (\<lambda>n. Use (replicate n CHR ''x'')) [0..<70000])
       Producer_init) k' = Some c' \<and>
     wire_channel c = wire_channel c'"
  by (rule exchanges_collide_on_the_wire) (unfold many_names, simp_all)

text \<open>
  C34. After a server failure while publishing, the producer still believes that its channels
  are open: once it is connected again, the worker thread passes the test of the channels
  without opening one, and goes on to publish on channels the new connection does not have.
\<close>

theorem reconnect_skips_channels:
  assumes inv: "core_inv P p s" and con: "isConnected p" and open_chs: "m_channelsConnected p"
    and lost: "publishNextInQueue P p s = Inr (p1, s1)" "\<not> isConnected p1"
  shows "Producer_thread_step P P_Channels (p1\<lparr>m_connection := Some c\<rparr>) s2 =
     Inr (at_pc P_Publish (p1\<lparr>m_connection := Some c\<rparr>), s2)"
proof -
  from publishNextInQueue_ok [OF inv con] lost(1) have "publish_outcome P p s p1 s1"
    by (simp add: okr_def)
  with open_chs have "m_channelsConnected p1"
    by (auto simp: publish_outcome_def closed_from_def split: list.splits)
  then show ?thesis by (simp add: Producer_thread_step_def channelsConnected_def)
qed

definition failing_rt :: "ref_world rt" where
  "failing_rt = quiet_rt\<lparr>rt_world := quiet_world\<lparr>rw_statuses := [- 9]\<rparr>\<rparr>"

lemma failing_publish:
  "PublishMessage ref_platform sample_raw open_conn failing_rt =
     Inr (SERVER_CONNECTION_FAILURE, stamp ref_platform sample_raw failing_rt, quiet_rt)"
  by (simp add: PublishMessage_def open_conn_def IsConnected_def sample_raw_def deref_bytes_def
      load_bytes_def byte_fields_def ref_flags_def indeterminate_properties_def stamp_def ref_api_def
      from_world_def next_status_def failing_rt_def quiet_rt_def quiet_world_def ref_codes_def
      has_flag_def Let_def)

definition lost_producer :: Producer where
  "lost_producer = loaded_producer
     \<lparr>m_connection := Some (open_conn\<lparr>m_isConnected := False, m_conn := Destroyed (Ptr 1)\<rparr>),
      m_sendQueue := []\<rparr>"

lemma lost_producer_reached:
  "publishNextInQueue ref_platform loaded_producer failing_rt = Inr (lost_producer, quiet_rt)"
  using loaded_producer_connected
  by (simp add: publishNextInQueue_def loaded_producer_def the_connection_def failing_publish
      closeConnection_def CloseConnection_def IsConnected_def setConnected_def lost_producer_def)
     (simp add: open_conn_def sample_conn_def ConnectionBase_init_def ref_api_def from_world_def
      on_world_def next_reply_def quiet_rt_def quiet_world_def normal_reply_def ref_codes_def
      clearActiveSendQueue_def hare_free_message_risky_def ref_bapi_def sample_raw_def stamp_def)

theorem reconnect_skips_channels_witness:
  "Producer_thread_step ref_platform P_Channels (lost_producer\<lparr>m_connection := Some open_conn\<rparr>) quiet_rt =
     Inr (at_pc P_Publish (lost_producer\<lparr>m_connection := Some open_conn\<rparr>), quiet_rt)"
  by (rule reconnect_skips_channels [where s = failing_rt, OF _ loaded_producer_connected _ lost_producer_reached])
     (use loaded_producer_inv in \<open>simp_all add: core_inv_def failing_rt_def loaded_producer_def\<close>,
      simp add: lost_producer_def isConnected_def IsConnected_def)

end
