(* ===== verification/Winding_Down.thy ===== *)
theory Winding_Down
  imports Prelude
begin

text \<open>
  A worker thread that has been asked to leave its loop, in the middle of other activity: sequences
  of actions, and the contract under which the thread is out of its loop once it has taken enough
  steps, whatever happens between them. The producer and the consumer interpret it.
\<close>

fun perform_all :: "('a \<Rightarrow> 's \<Rightarrow> 's res) \<Rightarrow> 'a list \<Rightarrow> 's \<Rightarrow> 's res" where
  "perform_all act [] x = Inr x"
| "perform_all act (a # as) x = bindr (act a x) (perform_all act as)"

text \<open>Every action of a sequence is allowed in the state it is taken in.\<close>

fun permitted_all :: "('a \<Rightarrow> 's \<Rightarrow> 's res) \<Rightarrow> ('a \<Rightarrow> 's \<Rightarrow> bool) \<Rightarrow> 'a list \<Rightarrow> 's \<Rightarrow> bool" where
  "permitted_all act allowed [] x \<longleftrightarrow> True"
| "permitted_all act allowed (a # as) x \<longleftrightarrow>
     allowed a x \<and> (case act a x of Inl _ \<Rightarrow> True | Inr y \<Rightarrow> permitted_all act allowed as y)"

definition count_steps :: "('a \<Rightarrow> bool) \<Rightarrow> 'a list \<Rightarrow> nat" where
  "count_steps own as = length (filter own as)"

lemma count_steps_Cons [simp]: "count_steps own (a # as) = (if own a then Suc 0 else 0) + count_steps own as"
  by (simp add: count_steps_def)

lemma count_steps_Nil [simp]: "count_steps own [] = 0"
  by (simp add: count_steps_def)

text \<open>
  \<open>winding n x\<close>: in state \<open>x\<close> the thread is at most \<open>n\<close> steps from its exit. No allowed action takes
  it further away, and each step of its own brings it closer.
\<close>

locale winding_down =
  fixes act :: "'a \<Rightarrow> 's \<Rightarrow> 's res" and allowed :: "'a \<Rightarrow> 's \<Rightarrow> bool" and own :: "'a \<Rightarrow> bool"
    and winding :: "nat \<Rightarrow> 's \<Rightarrow> bool"
  assumes closer: "winding n x \<Longrightarrow> allowed a x \<Longrightarrow>
    okr (act a x) (winding (n - (if own a then 1 else 0)))"
begin

lemma winds_down:
  assumes "winding n x" and "permitted_all act allowed as x"
  shows "okr (perform_all act as x) (winding (n - count_steps own as))"
  using assms
proof (induction as arbitrary: n x)
  case (Cons a as)
  from Cons.prems(2) have "allowed a x" by simp
  from closer [OF Cons.prems(1) this] obtain y where
      y: "act a x = Inr y" "winding (n - (if own a then 1 else 0)) y"
    by (auto simp: okr_def)
  from Cons.prems(2) y(1) have "permitted_all act allowed as y" by simp
  from Cons.IH [OF y(2) this] y(1) show ?case by (cases "own a") simp_all
qed simp

lemma wound_down:
  assumes "winding n x" and "permitted_all act allowed as x" and "n \<le> count_steps own as"
  shows "okr (perform_all act as x) (winding 0)"
  using winds_down [OF assms(1,2)] assms(3) by simp

end

end
