(* ===== verification/Producer_Stopping.thy ===== *)
theory Producer_Stopping
  imports Producer_System Winding_Down
begin

text \<open>
  \<open>Stop\<close> in the middle of other activity. \<open>Producer_Stop\<close> takes the join as one step; here the
  call is split where it waits: the request clears the running flag, then the worker thread
  finishes its round while other threads go on sending and declaring exchanges, and when the
  thread has left its loop the call closes the connection and clears the queue. The first part
  shows that without such activity the phases are \<open>Producer_Stop\<close>, for any number of steps given
  to the thread from four on; the second that activity in between does no harm, except for a
  \<open>Start\<close>, which terminates the program.
\<close>

section \<open>The phases\<close>

definition stop_request :: "Producer \<Rightarrow> Producer" where
  "stop_request p = Producer_setRunning False p"

text \<open>What \<open>Stop\<close> does after \<open>join\<close> has returned.\<close>

definition stop_finish ::
    "'w platform \<Rightarrow> Producer \<Rightarrow> 'w rt \<Rightarrow> (HARE_ERROR_E \<times> Producer \<times> 'w rt) res" where
  "stop_finish P p s =
     (let p1 = p\<lparr>m_producerThread := None, m_channelsConnected := False\<rparr> in
      bindr (the_connection p1) (\<lambda>c.
      bindr (CloseConnection P c s) (\<lambda>(_, c', s2).
      bindr (clearActiveSendQueue P (p1\<lparr>m_connection := Some c'\<rparr>) s2) (\<lambda>(p2, s3).
      Inr (ALL_GOOD, p2, s3)))))"

section \<open>Any number of steps is the same\<close>

lemma run_thread_add: "run_thread P (m + n) p s = bindr (run_thread P m p s) (\<lambda>(p', s'). run_thread P n p' s')"
proof (induction m arbitrary: p s)
  case 0
  then show ?case by simp
next
  case (Suc m)
  have none: "run_thread P n p s = Inr (p, s)" if "m_producerThread p = None" for n
    using that by (cases n) simp_all
  show ?case
  proof (cases "m_producerThread p")
    case None
    then show ?thesis by (simp add: none)
  next
    case (Some pc)
    with Suc.IH show ?thesis by (cases "Producer_thread_step P pc p s") auto
  qed
qed

lemma run_thread_exited: "m_producerThread p = Some P_Exited \<Longrightarrow> run_thread P n p s = Inr (p, s)"
  by (induction n) (simp_all add: Producer_thread_step_def)

lemma join_enough:
  assumes inv: "core_inv P p s" and th: "m_producerThread p = Some pc" and init: "m_isInitialized p"
    and stop: "\<not> m_threadRunning p" and n: "4 \<le> n"
  shows "run_thread P n p s = run_thread P 4 p s"
proof -
  have "pc_rank pc \<le> 4" by (cases pc) (simp_all add: pc_rank_def)
  from run_thread_ok [OF inv th init stop this] obtain p1 s1 where
      "run_thread P 4 p s = Inr (p1, s1)" "m_producerThread p1 = Some P_Exited"
    by (auto simp: okr_def)
  with run_thread_add [of P 4 "n - 4" p s] n show ?thesis by (simp add: run_thread_exited)
qed


section \<open>Activity while stopping\<close>

text \<open>What other threads can do in the meantime: send, declare, or touch memory of their own.\<close>

primrec harmless :: "'w action \<Rightarrow> bool" where
  "harmless (A_Initialize server port user pw) \<longleftrightarrow> False"
| "harmless (A_DeclareExchange ex ty) \<longleftrightarrow> True"
| "harmless (A_Send ex rk message) \<longleftrightarrow> True"
| "harmless A_Start \<longleftrightarrow> False"
| "harmless A_Stop \<longleftrightarrow> False"
| "harmless A_Restart \<longleftrightarrow> False"
| "harmless A_Thread \<longleftrightarrow> True"
| "harmless (A_Environment s') \<longleftrightarrow> True"

definition producer_does :: "'w platform \<Rightarrow> 'w action \<Rightarrow> Producer \<times> 'w rt \<Rightarrow> (Producer \<times> 'w rt) res" where
  "producer_does P a x = producer_action P a (fst x) (snd x)"

definition meanwhile :: "'w platform \<Rightarrow> 'w action \<Rightarrow> Producer \<times> 'w rt \<Rightarrow> bool" where
  "meanwhile P a x \<longleftrightarrow> harmless a \<and> permitted P a (fst x) (snd x)"

primrec thread_step :: "'w action \<Rightarrow> bool" where
  "thread_step (A_Initialize server port user pw) \<longleftrightarrow> False"
| "thread_step (A_DeclareExchange ex ty) \<longleftrightarrow> False"
| "thread_step (A_Send ex rk message) \<longleftrightarrow> False"
| "thread_step A_Start \<longleftrightarrow> False"
| "thread_step A_Stop \<longleftrightarrow> False"
| "thread_step A_Restart \<longleftrightarrow> False"
| "thread_step A_Thread \<longleftrightarrow> True"
| "thread_step (A_Environment s') \<longleftrightarrow> False"

text \<open>The state between the request and the end of the join.\<close>

definition stopping :: "'w platform \<Rightarrow> producer_pc \<Rightarrow> Producer \<Rightarrow> 'w rt \<Rightarrow> bool" where
  "stopping P pc p s \<longleftrightarrow>
     core_inv P p s \<and> m_isInitialized p \<and> \<not> m_threadRunning p \<and> m_producerThread p = Some pc"

lemma stopping_action:
  assumes st: "stopping P pc p s" and h: "harmless a" and perm: "permitted P a p s"
  shows "okr (producer_action P a p s) (\<lambda>(p', s'). \<exists>pc'. stopping P pc' p' s' \<and>
     pc_rank pc' \<le> pc_rank pc - (if thread_step a then 1 else 0))"
proof -
  from st have core: "core_inv P p s" and init: "m_isInitialized p" and run: "\<not> m_threadRunning p"
      and pc: "m_producerThread p = Some pc"
    by (simp_all add: stopping_def)
  show ?thesis
  proof (cases a)
    case (A_DeclareExchange ex ty)
    with Producer_DeclareExchange_ok [OF core, of ex ty] perm st show ?thesis
      by (simp add: stopping_def Producer_DeclareExchange_def split_beta Let_def
          addExchange_declared_shell)
  next
    case (A_Send ex rk message)
    with perm obtain body where "m_curChannelNumber p < INT_MAX"
        "sendable (flags P) (rt_heap s) message body" by auto
    from Send_ok [OF core this, of ex rk] A_Send perm st show ?thesis
      by (auto simp: okr_def stopping_def addExchange_shell)
  next
    case A_Thread
    from Producer_thread_step_ok [OF core pc init] obtain p' s' where
        step: "Producer_thread_step P pc p s = Inr (p', s')" "core_inv P p' s'" "thread_moved pc p p'"
      by (auto simp: okr_def)
    from step(3) run init obtain pc' where "m_producerThread p' = Some pc'"
        "pc_rank pc' \<le> pc_rank pc - 1" "m_isInitialized p'" "\<not> m_threadRunning p'"
      by (auto simp: thread_moved_def same_shell_def)
    with A_Thread pc step show ?thesis by (auto simp: stopping_def)
  next
    case (A_Environment t)
    with perm core have "core_inv P p t" by (auto simp: core_inv_def intro: queue_ok_frame)
    with A_Environment st show ?thesis by (simp add: stopping_def)
  qed (use h in simp_all)
qed

definition prod_winding :: "'w platform \<Rightarrow> nat \<Rightarrow> Producer \<times> 'w rt \<Rightarrow> bool" where
  "prod_winding P n x \<longleftrightarrow> (\<exists>pc. stopping P pc (fst x) (snd x) \<and> pc_rank pc \<le> n)"

interpretation prod_stop: winding_down "producer_does P" "meanwhile P" thread_step "prod_winding P"
  for P :: "'w platform"
proof (unfold_locales, goal_cases)
  case (1 n x a)
  then obtain pc where st: "stopping P pc (fst x) (snd x)" "pc_rank pc \<le> n"
    by (auto simp: prod_winding_def)
  from 1(2) have "harmless a" "permitted P a (fst x) (snd x)" by (simp_all add: meanwhile_def)
  from stopping_action [OF st(1) this] st(2) show ?case
    by (fastforce simp: okr_def producer_does_def prod_winding_def)
qed

lemma stop_finish_ok:
  assumes "stopping P pc p s"
  shows "okr (stop_finish P p s) (\<lambda>(r, p', s'). r = ALL_GOOD \<and> producer_inv P p' s' \<and>
     \<not> m_threadRunning p' \<and> m_isInitialized p' \<and> \<not> isConnected p' \<and> m_sendQueue p' = [] \<and>
     rt_heap s' = drop_blocks (queue_addrs (m_sendQueue p)) (rt_heap s))"
proof -
  let ?p = "p\<lparr>m_producerThread := None, m_channelsConnected := False\<rparr>"
  have "core_inv P ?p s" "m_isInitialized ?p"
    using assms by (auto simp: stopping_def core_inv_def exchange_inv_def)
  from stop_tail [OF this, of ALL_GOOD] assms show ?thesis
    by (auto simp: stop_finish_def Let_def okr_def closed_from_def same_shell_def stopping_def
        producer_inv_def thread_inv_def)
qed

text \<open>
  C20. While \<open>Stop\<close> waits for the worker thread, other threads may send messages and declare
  exchanges in any interleaving with the thread's last steps: nothing faults, four steps of the
  thread are enough for it to leave its loop, and the rest of \<open>Stop\<close> then returns success on a
  disconnected producer with an empty queue, having freed exactly the buffers that were still
  queued, those of messages sent in the meantime included.
\<close>

theorem stop_while_sending:
  assumes "producer_reachable P p s" and "m_threadRunning p"
    and "permitted_all (producer_does P) (meanwhile P) as (stop_request p, s)"
    and "4 \<le> count_steps thread_step as"
  shows "okr (perform_all (producer_does P) as (stop_request p, s)) (\<lambda>(p1, s1).
     m_producerThread p1 = Some P_Exited \<and>
     okr (stop_finish P p1 s1) (\<lambda>(r, p', s'). r = ALL_GOOD \<and> core_inv P p' s' \<and> thread_inv p' \<and>
       \<not> m_threadRunning p' \<and> \<not> isConnected p' \<and> m_sendQueue p' = [] \<and>
       rt_heap s' = drop_blocks (queue_addrs (m_sendQueue p1)) (rt_heap s1)))"
proof -
  from reachable_inv [OF assms(1)] assms(2) obtain pc where st: "stopping P pc (stop_request p) s"
    by (auto simp: producer_inv_def thread_inv_def stopping_def stop_request_def Producer_setRunning_def
        core_inv_def exchange_inv_def)
  have "pc_rank pc \<le> 4" by (cases pc) (simp_all add: pc_rank_def)
  with st have "prod_winding P 4 (stop_request p, s)" by (auto simp: prod_winding_def)
  from prod_stop.wound_down [OF this assms(3,4)] obtain p1 s1 pc1 where
      run: "perform_all (producer_does P) as (stop_request p, s) = Inr (p1, s1)" "stopping P pc1 p1 s1"
      "pc_rank pc1 = 0"
    by (auto simp: okr_def prod_winding_def)
  from run(3) have "pc1 = P_Exited" by (cases pc1) (simp_all add: pc_rank_def)
  with stop_finish_ok [OF run(2)] run(1,2) show ?thesis
    by (auto simp: okr_def stopping_def producer_inv_def)
qed

lemma running_reachable: "producer_reachable ref_platform running_producer quiet_rt"
proof -
  have i: "producer_reachable ref_platform idle_producer quiet_rt"
    by (rule producer_reachable.step [OF sample_reachable,
          where a = "A_Initialize ''localhost'' 5672 ''guest'' ''guest''"])
       (simp_all add: Producer_Initialize_def Producer_init_def Producer_setRunning_def
        setInitialized_def idle_producer_def sample_conn_def)
  show ?thesis
    by (rule producer_reachable.step [OF i, where a = A_Start])
       (simp_all add: producer_start_def Producer_Start_def Producer_IsInitialized_def
        Producer_IsRunning_def Producer_setRunning_def idle_producer_def Producer_init_def
        running_producer_def)
qed


theorem stop_while_sending_witness:
  "okr (perform_all (producer_does ref_platform)
       [A_DeclareExchange ''e'' ''topic'', A_Thread, A_Thread, A_Thread, A_Thread]
       (stop_request running_producer, quiet_rt)) (\<lambda>(p1, s1).
     m_producerThread p1 = Some P_Exited \<and>
     okr (stop_finish ref_platform p1 s1) (\<lambda>(r, p', s'). r = ALL_GOOD \<and> core_inv ref_platform p' s' \<and>
       thread_inv p' \<and> \<not> m_threadRunning p' \<and> \<not> isConnected p' \<and> m_sendQueue p' = [] \<and>
       rt_heap s' = drop_blocks (queue_addrs (m_sendQueue p1)) (rt_heap s1)))"
proof (rule stop_while_sending [OF running_reachable])
  show "m_threadRunning running_producer" by (simp add: running_producer_def)
  show "permitted_all (producer_does ref_platform) (meanwhile ref_platform)
      [A_DeclareExchange ''e'' ''topic'', A_Thread, A_Thread, A_Thread, A_Thread]
      (stop_request running_producer, quiet_rt)"
    by (auto simp: meanwhile_def stop_request_def running_producer_def Producer_setRunning_def
        idle_producer_def Producer_init_def split: sum.split option.split)
qed simp

text \<open>
  C40. A \<open>Start\<close> in that window is the exception: the flag is already cleared, so it goes on to assign
  to the thread that \<open>Stop\<close> is still joining, and the C++ runtime ends the program.
\<close>

theorem start_while_stopping_terminates:
  assumes "stopping P pc p s"
  shows "producer_action P A_Start p s = Inl Terminate"
  using assms
  by (simp add: stopping_def producer_start_def Producer_Start_def Producer_IsInitialized_def
      Producer_IsRunning_def Producer_setRunning_def)

theorem start_while_stopping_terminates_witness:
  "producer_action ref_platform A_Start (stop_request running_producer) quiet_rt = Inl Terminate"
proof (rule start_while_stopping_terminates)
  show "stopping ref_platform P_Loop (stop_request running_producer) quiet_rt"
    using running_producer_inv
    by (simp add: stopping_def stop_request_def Producer_setRunning_def core_inv_def exchange_inv_def)
       (simp add: running_producer_def idle_producer_def)
qed

end
