(* ===== verification/ChannelHandler.thy ===== *)
theory ChannelHandler
  imports HelperStructs Registry
begin

unbundle bit_operations_syntax

text \<open>
  The classes \<open>HashableBindingPair\<close> and \<open>ChannelHandler\<close>: the consumer's registry of callbacks.
  Both lookup tables hold \<open>shared_ptr\<close>s to the same \<open>channelProcessingInfo\<close> objects, so the
  handler has an object store: a table entry is a pointer into it. Tables are association lists.
  The mutex of the class makes every method an atomic step; \<open>LOG\<close> calls are left out.
\<close>

section \<open>Binding pairs\<close>

record HashableBindingPair =
  m_exchangeName :: string
  m_routingKey :: string

definition binding_pair_eq :: "HashableBindingPair \<Rightarrow> HashableBindingPair \<Rightarrow> bool" where
  "binding_pair_eq this other \<longleftrightarrow>
     m_exchangeName this = m_exchangeName other \<and> m_routingKey this = m_routingKey other"

text \<open>The hash of a pair, over the implementation's \<open>std::hash<std::string>\<close>.\<close>

definition binding_pair_hash :: "(string \<Rightarrow> 64 word) \<Rightarrow> HashableBindingPair \<Rightarrow> 64 word" where
  "binding_pair_hash hash_string hbp =
     drop_bit 1 (hash_string (m_exchangeName hbp) XOR push_bit 1 (hash_string (m_routingKey hbp)))"

lemma binding_pair_eq_iff [simp]: "binding_pair_eq p q \<longleftrightarrow> p = q"
  by (cases p; cases q) (auto simp: binding_pair_eq_def)

lemma binding_pair_hash_eq: "binding_pair_eq p q \<Longrightarrow> binding_pair_hash f p = binding_pair_hash f q"
  by simp

section \<open>State\<close>

text \<open>A callback is known by its identity; an empty \<open>std::function\<close> is \<open>None\<close>.\<close>

type_synonym TD_Callback = nat

record channelProcessingInfo =
  ci_channel :: "int option"
  ci_bindingPair :: "HashableBindingPair option"
  ci_callback :: "TD_Callback option"
  ci_queueName :: amqp_bytes
  ci_queueProperties :: queueProperties

text \<open>What \<open>make_shared<channelProcessingInfo>()\<close> value-initialises.\<close>

definition new_info :: channelProcessingInfo where
  "new_info =
     \<lparr>ci_channel = None, ci_bindingPair = None, ci_callback = None,
      ci_queueName = \<lparr>ab_len = 0, ab_bytes = Null\<rparr>,
      ci_queueProperties = default_queueProperties\<rparr>"

record ChannelHandler =
  ch_objs :: "nat \<rightharpoonup> channelProcessingInfo"
  ch_fresh :: nat
  m_bindingPairLookup :: "(HashableBindingPair \<times> ptr) list"
  m_channelLookup :: "(int \<times> ptr) list"
  m_nextAvailableChannel :: int
  m_multiThreaded :: bool

definition ChannelHandler_init :: ChannelHandler where
  "ChannelHandler_init =
     \<lparr>ch_objs = Map.empty, ch_fresh = 0, m_bindingPairLookup = [], m_channelLookup = [],
      m_nextAvailableChannel = 1, m_multiThreaded = False\<rparr>"

text \<open>Dereferencing a \<open>shared_ptr\<close>, and assigning through one.\<close>

fun info_at :: "ChannelHandler \<Rightarrow> ptr \<Rightarrow> channelProcessingInfo res" where
  "info_at h Null = Inl NullDeref"
| "info_at h (Ptr a) = (case ch_objs h a of None \<Rightarrow> Inl UseAfterFree | Some i \<Rightarrow> Inr i)"

fun info_update ::
    "ptr \<Rightarrow> (channelProcessingInfo \<Rightarrow> channelProcessingInfo) \<Rightarrow> ChannelHandler \<Rightarrow>
     ChannelHandler res" where
  "info_update Null f h = Inl NullDeref"
| "info_update (Ptr a) f h =
     (case ch_objs h a of
        None \<Rightarrow> Inl UseAfterFree
      | Some i \<Rightarrow> Inr (h\<lparr>ch_objs := (ch_objs h)(a \<mapsto> f i)\<rparr>))"

text \<open>\<open>m_channelLookup[channel]\<close> for a key that is present (a null pointer otherwise).\<close>

definition channel_ref :: "ChannelHandler \<Rightarrow> int \<Rightarrow> ptr" where
  "channel_ref h channel =
     (case map_of (m_channelLookup h) channel of None \<Rightarrow> Null | Some p \<Rightarrow> p)"

definition has_channel :: "ChannelHandler \<Rightarrow> int \<Rightarrow> bool" where
  "has_channel h channel \<longleftrightarrow> map_of (m_channelLookup h) channel \<noteq> None"

section \<open>Operations\<close>

definition AddChannelProcessor ::
    "HashableBindingPair \<Rightarrow> TD_Callback \<Rightarrow> ChannelHandler \<Rightarrow> (int \<times> ChannelHandler) res" where
  "AddChannelProcessor bindingPair callback h =
     (case map_of (m_bindingPairLookup h) bindingPair of
        Some p \<Rightarrow>
          bindr (info_update p (\<lambda>i. i\<lparr>ci_callback := Some callback\<rparr>) h) (\<lambda>h'. Inr (- 1, h'))
      | None \<Rightarrow>
          let n = m_nextAvailableChannel h;
              h1 = h\<lparr>ch_objs := (ch_objs h)(ch_fresh h \<mapsto> new_info), ch_fresh := Suc (ch_fresh h),
                     m_channelLookup := AList.update n (Ptr (ch_fresh h)) (m_channelLookup h)\<rparr>;
              h2 = h1\<lparr>m_bindingPairLookup :=
                      AList.update bindingPair (channel_ref h1 n) (m_bindingPairLookup h1)\<rparr> in
          bindr (info_update (channel_ref h2 n) (\<lambda>i. i\<lparr>ci_callback := Some callback\<rparr>) h2) (\<lambda>h3.
          bindr (info_update (channel_ref h3 n)
                   (\<lambda>i. i\<lparr>ci_bindingPair := Some bindingPair\<rparr>) h3) (\<lambda>h4.
          Inr (n, h4\<lparr>m_nextAvailableChannel := int_incr n\<rparr>))))"

definition RemoveChannelProcessor ::
    "HashableBindingPair \<Rightarrow> ChannelHandler \<Rightarrow> (int \<times> ChannelHandler) res" where
  "RemoveChannelProcessor bindingPair h =
     (case map_of (m_bindingPairLookup h) bindingPair of
        Some p \<Rightarrow>
          bindr (info_at h p) (\<lambda>i.
          case ci_channel i of
            None \<Rightarrow> Inl NullDeref
          | Some c \<Rightarrow>
              Inr (1, h\<lparr>m_channelLookup := AList.delete c (m_channelLookup h),
                        m_bindingPairLookup := AList.delete bindingPair (m_bindingPairLookup h)\<rparr>))
      | None \<Rightarrow> Inr (- 1, h))"

definition SetMultiThreaded :: "bool \<Rightarrow> ChannelHandler \<Rightarrow> ChannelHandler" where
  "SetMultiThreaded multiThread h = h\<lparr>m_multiThreaded := multiThread\<rparr>"

text \<open>
  How \<open>Process\<close> hands a message on: it calls the callback itself, or a detached thread calls it
  with its own copy of the message. (Handing the lambda over to the thread may copy the message
  again and destroy the copy in between; the model has the copy the callback sees.)
\<close>

datatype invocation = CallInline TD_Callback Message | CallDetached TD_Callback Message

definition Process ::
    "basic_flags \<Rightarrow> bytes_api \<Rightarrow> HashableBindingPair \<Rightarrow> Message \<Rightarrow> ChannelHandler \<Rightarrow> heap \<Rightarrow>
     (invocation option \<times> heap) res" where
  "Process F B bindingPair message h hp =
     (case map_of (m_bindingPairLookup h) bindingPair of
        None \<Rightarrow> Inr (None, hp)
      | Some p \<Rightarrow>
          if p = Null then Inr (None, hp)
          else bindr (info_at h p) (\<lambda>i.
               case ci_callback i of
                 None \<Rightarrow> Inl Terminate
               | Some f \<Rightarrow>
                   if m_multiThreaded h
                   then bindr (Message_copy F B message hp) (\<lambda>(m', hp').
                        Inr (Some (CallDetached f m'), hp'))
                   else Inr (Some (CallInline f message), hp)))"

definition GetChannelList :: "(int list \<Rightarrow> int list) \<Rightarrow> ChannelHandler \<Rightarrow> int list" where
  "GetChannelList order h =
     (if length (m_channelLookup h) = 0 then [] else order (keys (m_channelLookup h)))"

definition GetExchange :: "int \<Rightarrow> ChannelHandler \<Rightarrow> string res" where
  "GetExchange channel h =
     (if has_channel h channel
      then bindr (info_at h (channel_ref h channel)) (\<lambda>i.
           case ci_bindingPair i of None \<Rightarrow> Inl NullDeref | Some bp \<Rightarrow> Inr (m_exchangeName bp))
      else Inr '''')"

definition GetBindingKey :: "int \<Rightarrow> ChannelHandler \<Rightarrow> string res" where
  "GetBindingKey channel h =
     (if has_channel h channel
      then bindr (info_at h (channel_ref h channel)) (\<lambda>i.
           case ci_bindingPair i of None \<Rightarrow> Inl NullDeref | Some bp \<Rightarrow> Inr (m_routingKey bp))
      else Inr '''')"

definition GetQueueName :: "bytes_api \<Rightarrow> int \<Rightarrow> ChannelHandler \<Rightarrow> amqp_bytes res" where
  "GetQueueName B channel h =
     (if has_channel h channel
      then bindr (info_at h (channel_ref h channel)) (\<lambda>i. Inr (ci_queueName i))
      else Inr (amqp_empty_bytes B))"

definition SetQueueName ::
    "bytes_api \<Rightarrow> int \<Rightarrow> amqp_bytes \<Rightarrow> ChannelHandler \<Rightarrow> heap \<Rightarrow> (ChannelHandler \<times> heap) res" where
  "SetQueueName B channel queueName h hp =
     (if has_channel h channel
      then bindr (info_at h (channel_ref h channel)) (\<lambda>i.
           bindr (amqp_bytes_free B (ci_queueName i) hp) (\<lambda>hp'.
           bindr (info_update (channel_ref h channel) (\<lambda>i. i\<lparr>ci_queueName := queueName\<rparr>) h) (\<lambda>h'.
           Inr (h', hp'))))
      else Inr (h, hp))"

definition GetQueueProperties :: "int \<Rightarrow> ChannelHandler \<Rightarrow> queueProperties res" where
  "GetQueueProperties channel h =
     (if has_channel h channel
      then bindr (info_at h (channel_ref h channel)) (\<lambda>i. Inr (ci_queueProperties i))
      else Inr default_queueProperties)"

definition SetQueueProperties ::
    "int \<Rightarrow> queueProperties \<Rightarrow> ChannelHandler \<Rightarrow> ChannelHandler res" where
  "SetQueueProperties channel queueProps h =
     (if has_channel h channel
      then info_update (channel_ref h channel) (\<lambda>i. i\<lparr>ci_queueProperties := queueProps\<rparr>) h
      else Inr h)"

text \<open>The destructor frees the queue name of every channel (\<open>cs\<close>: the entries in loop order).\<close>

fun free_queue_names :: "ChannelHandler \<Rightarrow> int list \<Rightarrow> heap \<Rightarrow> heap res" where
  "free_queue_names h [] hp = Inr hp"
| "free_queue_names h (c # cs) hp =
     bindr (info_at h (channel_ref h c)) (\<lambda>i.
     bindr (free (ab_bytes (ci_queueName i)) hp) (\<lambda>hp'. free_queue_names h cs hp'))"

definition ChannelHandler_destroy ::
    "(int list \<Rightarrow> int list) \<Rightarrow> ChannelHandler \<Rightarrow> heap \<Rightarrow> heap res" where
  "ChannelHandler_destroy order h hp = free_queue_names h (order (keys (m_channelLookup h))) hp"

section \<open>Invariant\<close>

text \<open>
  The tables describe the same objects: the \<open>i\<close>-th pair registered owns object \<open>i\<close>, which both
  tables point to, knows its pair, and is channel \<open>i + 1\<close>. No object ever gets a channel number
  of its own (\<open>ci_channel\<close> stays null).
\<close>

definition handler_inv :: "ChannelHandler \<Rightarrow> bool" where
  "handler_inv h \<longleftrightarrow>
     (let n = length (m_bindingPairLookup h) in
      distinct (keys (m_bindingPairLookup h)) \<and>
      map snd (m_bindingPairLookup h) = map Ptr [0..<n] \<and>
      m_channelLookup h = map (\<lambda>i. (int i + 1, Ptr i)) [0..<n] \<and>
      (\<forall>i<n. \<exists>info. ch_objs h i = Some info \<and>
         ci_bindingPair info = Some (fst (m_bindingPairLookup h ! i)) \<and>
         ci_channel info = None \<and> ci_callback info \<noteq> None) \<and>
      ch_fresh h = n \<and> m_nextAvailableChannel h = int n + 1 \<and> int n < INT_MAX)"

lemma handler_inv_init [simp]: "handler_inv ChannelHandler_init"
  by (simp add: handler_inv_def ChannelHandler_init_def)

lemma map_of_channels:
  "map_of (map (\<lambda>i. (int i + 1, Ptr i)) [0..<n]) c =
     (if 1 \<le> c \<and> c \<le> int n then Some (Ptr (nat (c - 1))) else None)"
  by (induction n) (auto simp: map_add_def split: option.splits)

lemma handler_inv_channel:
  "handler_inv h \<Longrightarrow> map_of (m_channelLookup h) c =
     (if 1 \<le> c \<and> c \<le> int (length (m_bindingPairLookup h)) then Some (Ptr (nat (c - 1))) else None)"
  by (simp add: handler_inv_def Let_def map_of_channels)

lemma handler_inv_entry:
  assumes "handler_inv h" and "i < length (m_bindingPairLookup h)"
  obtains info where "ch_objs h i = Some info"
    and "ci_bindingPair info = Some (fst (m_bindingPairLookup h ! i))"
    and "ci_channel info = None" and "ci_callback info \<noteq> None"
  using assms unfolding handler_inv_def Let_def by blast

lemma handler_inv_lookup:
  assumes "handler_inv h" and "map_of (m_bindingPairLookup h) bp = Some p"
  obtains i where "i < length (m_bindingPairLookup h)" and "p = Ptr i"
    and "fst (m_bindingPairLookup h ! i) = bp"
proof -
  from assms(2) obtain i where i: "i < length (m_bindingPairLookup h)"
      "m_bindingPairLookup h ! i = (bp, p)"
    by (meson map_of_SomeD in_set_conv_nth)
  from assms(1) have "map snd (m_bindingPairLookup h) ! i =
      map Ptr [0..<length (m_bindingPairLookup h)] ! i"
    unfolding handler_inv_def Let_def by presburger
  with i have "p = Ptr i" by simp
  with i that show thesis by simp
qed

lemma handler_inv_lookup_nth:
  assumes "handler_inv h" and "i < length (m_bindingPairLookup h)"
  shows "map_of (m_bindingPairLookup h) (fst (m_bindingPairLookup h ! i)) = Some (Ptr i)"
proof -
  from assms have d: "distinct (keys (m_bindingPairLookup h))"
    and s: "map snd (m_bindingPairLookup h) = map Ptr [0..<length (m_bindingPairLookup h)]"
    by (simp_all add: handler_inv_def Let_def)
  from arg_cong [OF s, of "\<lambda>xs. xs ! i"] assms(2) have "snd (m_bindingPairLookup h ! i) = Ptr i"
    by simp
  with d assms(2) show ?thesis
    by (metis map_of_eq_Some_iff nth_mem prod.collapse)
qed

text \<open>Assigning to fields of an object other than its pair and its channel keeps the invariant.\<close>

lemma handler_inv_update:
  assumes inv: "handler_inv h" and p: "p = Ptr i" "i < length (m_bindingPairLookup h)"
    and f: "\<And>x. ci_bindingPair (f x) = ci_bindingPair x" "\<And>x. ci_channel (f x) = ci_channel x"
      "\<And>x. ci_callback x \<noteq> None \<Longrightarrow> ci_callback (f x) \<noteq> None"
  shows "okr (info_update p f h) (\<lambda>h'. handler_inv h' \<and>
     (\<exists>info. ch_objs h i = Some info \<and> h' = h\<lparr>ch_objs := (ch_objs h)(i \<mapsto> f info)\<rparr>))"
proof -
  from inv p(2) obtain info where "ch_objs h i = Some info"
      "ci_bindingPair info = Some (fst (m_bindingPairLookup h ! i))"
      "ci_channel info = None" "ci_callback info \<noteq> None"
    by (rule handler_inv_entry)
  with inv p f show ?thesis by (simp add: handler_inv_def Let_def)
qed

section \<open>Adding\<close>

text \<open>The state after a new pair has been added.\<close>

lemma AddChannelProcessor_new:
  assumes inv: "handler_inv h" and new: "map_of (m_bindingPairLookup h) bp = None"
  shows "AddChannelProcessor bp cb h = Inr (m_nextAvailableChannel h,
     h\<lparr>ch_objs := (ch_objs h)(length (m_bindingPairLookup h) \<mapsto>
            new_info\<lparr>ci_callback := Some cb, ci_bindingPair := Some bp\<rparr>),
       ch_fresh := Suc (length (m_bindingPairLookup h)),
       m_channelLookup := m_channelLookup h @
          [(int (length (m_bindingPairLookup h)) + 1, Ptr (length (m_bindingPairLookup h)))],
       m_bindingPairLookup := m_bindingPairLookup h @ [(bp, Ptr (length (m_bindingPairLookup h)))],
       m_nextAvailableChannel := int_incr (m_nextAvailableChannel h)\<rparr>)"
proof -
  let ?n = "length (m_bindingPairLookup h)"
  from inv have nx: "m_nextAvailableChannel h = int ?n + 1" and fr: "ch_fresh h = ?n"
    by (simp_all add: handler_inv_def Let_def)
  have none: "map_of (m_channelLookup h) (int ?n + 1) = None"
    by (simp add: handler_inv_channel [OF inv])
  then have "int ?n + 1 \<notin> set (keys (m_channelLookup h))" by (simp add: map_of_eq_None_iff)
  moreover from new have "bp \<notin> set (keys (m_bindingPairLookup h))" by (simp add: map_of_eq_None_iff)
  ultimately show ?thesis
    using new none
    by (simp add: AddChannelProcessor_def Let_def nx fr update_fresh channel_ref_def map_add_def)
qed

lemma AddChannelProcessor_known:
  assumes inv: "handler_inv h" and known: "map_of (m_bindingPairLookup h) bp = Some p"
  shows "okr (AddChannelProcessor bp cb h) (\<lambda>(r, h'). r = - 1 \<and> handler_inv h' \<and>
     (\<exists>i info. p = Ptr i \<and> ch_objs h i = Some info \<and>
        h' = h\<lparr>ch_objs := (ch_objs h)(i \<mapsto> info\<lparr>ci_callback := Some cb\<rparr>)\<rparr>))"
proof -
  from inv known obtain i where i: "i < length (m_bindingPairLookup h)" "p = Ptr i"
    by (rule handler_inv_lookup)
  have "okr (info_update p (\<lambda>i. i\<lparr>ci_callback := Some cb\<rparr>) h) (\<lambda>h'. handler_inv h' \<and>
      (\<exists>info. ch_objs h i = Some info \<and>
         h' = h\<lparr>ch_objs := (ch_objs h)(i \<mapsto> info\<lparr>ci_callback := Some cb\<rparr>)\<rparr>))"
    by (rule handler_inv_update [OF inv i(2,1)]) simp_all
  with known i(2) show ?thesis
    by (auto simp: AddChannelProcessor_def wp elim!: okr_mono)
qed

lemma handler_inv_Add:
  assumes inv: "handler_inv h" and room: "m_nextAvailableChannel h < INT_MAX"
  shows "okr (AddChannelProcessor bp cb h) (\<lambda>(r, h'). handler_inv h')"
proof (cases "map_of (m_bindingPairLookup h) bp")
  case (Some p)
  from AddChannelProcessor_known [OF inv this, of cb] show ?thesis by (auto elim!: okr_mono)
next
  case None
  then have "bp \<notin> set (keys (m_bindingPairLookup h))" by (simp add: map_of_eq_None_iff)
  with inv room show ?thesis
    by (auto simp: AddChannelProcessor_new [OF inv None] handler_inv_def Let_def int_incr_below
        nth_append less_Suc_eq new_info_def)
qed

section \<open>Abstraction: a map from binding pairs to callbacks\<close>

definition callback_of :: "ChannelHandler \<Rightarrow> HashableBindingPair \<Rightarrow> TD_Callback option" where
  "callback_of h bp =
     (case map_of (m_bindingPairLookup h) bp of
        None \<Rightarrow> None
      | Some p \<Rightarrow> (case info_at h p of Inl _ \<Rightarrow> None | Inr i \<Rightarrow> ci_callback i))"

lemma callback_of_None_iff:
  assumes "handler_inv h"
  shows "callback_of h bp = None \<longleftrightarrow> map_of (m_bindingPairLookup h) bp = None"
proof (cases "map_of (m_bindingPairLookup h) bp")
  case None
  then show ?thesis by (simp add: callback_of_def)
next
  case (Some p)
  with assms obtain i where "i < length (m_bindingPairLookup h)" "p = Ptr i"
    by (rule handler_inv_lookup)
  with assms Some show ?thesis
    by (auto simp: callback_of_def elim!: handler_inv_entry)
qed

lemma callback_of_new:
  assumes inv: "handler_inv h" and new: "map_of (m_bindingPairLookup h) bp = None"
    and h': "AddChannelProcessor bp cb h = Inr (r, h')"
  shows "callback_of h' = (callback_of h)(bp \<mapsto> cb)"
proof
  fix q
  show "callback_of h' q = ((callback_of h)(bp \<mapsto> cb)) q"
  proof (cases "q = bp")
    case True
    with new h' show ?thesis
      by (auto simp: AddChannelProcessor_new [OF inv new] callback_of_def map_add_def)
  next
    case False
    show ?thesis
    proof (cases "map_of (m_bindingPairLookup h) q")
      case None
      with False h' show ?thesis
        by (auto simp: AddChannelProcessor_new [OF inv new] callback_of_def map_add_def)
    next
      case (Some p)
      with inv obtain i where "i < length (m_bindingPairLookup h)" "p = Ptr i"
        by (rule handler_inv_lookup)
      with False Some h' show ?thesis
        by (auto simp: AddChannelProcessor_new [OF inv new] callback_of_def map_add_def)
    qed
  qed
qed

lemma callback_of_update:
  assumes inv: "handler_inv h" and known: "map_of (m_bindingPairLookup h) bp = Some (Ptr i)"
    and i: "ch_objs h i = Some info"
  shows "callback_of (h\<lparr>ch_objs := (ch_objs h)(i \<mapsto> info\<lparr>ci_callback := Some cb\<rparr>)\<rparr>)
     = (callback_of h)(bp \<mapsto> cb)"
proof
  fix q
  let ?h = "h\<lparr>ch_objs := (ch_objs h)(i \<mapsto> info\<lparr>ci_callback := Some cb\<rparr>)\<rparr>"
  have uniq: "q = bp" if "map_of (m_bindingPairLookup h) q = Some (Ptr i)"
    using handler_inv_lookup [OF inv that] handler_inv_lookup [OF inv known] by (metis ptr.inject)
  show "callback_of ?h q = ((callback_of h)(bp \<mapsto> cb)) q"
  proof (cases "map_of (m_bindingPairLookup h) q")
    case None
    with known show ?thesis by (auto simp: callback_of_def)
  next
    case (Some p)
    with inv obtain j where "p = Ptr j" by (rule handler_inv_lookup)
    with Some uniq known i show ?thesis by (cases "j = i") (auto simp: callback_of_def)
  qed
qed

lemma AddChannelProcessor_ok:
  assumes inv: "handler_inv h" and room: "m_nextAvailableChannel h < INT_MAX"
  shows "okr (AddChannelProcessor bp cb h) (\<lambda>(r, h').
     handler_inv h' \<and> callback_of h' = (callback_of h)(bp \<mapsto> cb) \<and>
     r = (if callback_of h bp = None then m_nextAvailableChannel h else - 1))"
proof (cases "map_of (m_bindingPairLookup h) bp")
  case None
  with handler_inv_Add [OF inv room, of bp cb] show ?thesis
    by (auto simp: callback_of_None_iff [OF inv] AddChannelProcessor_new [OF inv None]
        dest: callback_of_new [OF inv None])
       (auto simp: AddChannelProcessor_new [OF inv None] intro!: callback_of_new [OF inv None])
next
  case (Some p)
  with AddChannelProcessor_known [OF inv Some, of cb] show ?thesis
    by (auto elim!: okr_mono simp: callback_of_None_iff [OF inv] callback_of_update [OF inv])
qed

text \<open>
  C19. Adding a channel processor refines a map update: whatever was registered before, the pair
  is afterwards served by the new callback and every other pair by its old one; the invariant
  holds again. The result is the new channel number for a new pair, and -1 (the code for
  failure) when the pair was known, although its callback has been replaced.
\<close>

theorem add_processor_refines_map_update:
  assumes inv: "handler_inv h" and room: "m_nextAvailableChannel h < INT_MAX"
  shows "okr (AddChannelProcessor bp cb h) (\<lambda>(r, h').
     handler_inv h' \<and> callback_of h' = (callback_of h)(bp \<mapsto> cb) \<and>
     r = (if callback_of h bp = None then m_nextAvailableChannel h else - 1))"
  using assms by (rule AddChannelProcessor_ok)

definition sample_pair :: HashableBindingPair where
  "sample_pair = \<lparr>m_exchangeName = ''amq.direct'', m_routingKey = ''test''\<rparr>"

theorem add_processor_refines_map_update_witness:
  "okr (AddChannelProcessor sample_pair 7 ChannelHandler_init) (\<lambda>(r, h').
     handler_inv h' \<and> callback_of h' = (callback_of ChannelHandler_init)(sample_pair \<mapsto> 7) \<and>
     r = (if callback_of ChannelHandler_init sample_pair = None
          then m_nextAvailableChannel ChannelHandler_init else - 1))"
  by (rule add_processor_refines_map_update) (simp_all add: ChannelHandler_init_def handler_inv_def)

lemma Process_inline:
  assumes inv: "handler_inv h" and "\<not> m_multiThreaded h"
  shows "Process F B bp msg h hp =
     Inr (map_option (\<lambda>f. CallInline f msg) (callback_of h bp), hp)"
proof (cases "map_of (m_bindingPairLookup h) bp")
  case None
  then show ?thesis by (simp add: Process_def callback_of_def)
next
  case (Some p)
  with inv obtain i where "i < length (m_bindingPairLookup h)" "p = Ptr i"
    by (rule handler_inv_lookup)
  with inv Some assms(2) show ?thesis
    by (auto simp: Process_def callback_of_def elim!: handler_inv_entry)
qed

text \<open>
  Without multi-threading, \<open>Process\<close> calls exactly the callback the abstract map has for the
  message's exchange and routing key, with the message itself, and calls nothing when there is
  none; it never fails and does not touch the heap.
\<close>

theorem process_dispatches_inline:
  assumes inv: "handler_inv h" and "\<not> m_multiThreaded h"
  shows "Process F B bp msg h hp =
     Inr (map_option (\<lambda>f. CallInline f msg) (callback_of h bp), hp)"
  using assms by (rule Process_inline)

text \<open>A handler with one subscription, for the witnesses.\<close>

definition sample_handler :: ChannelHandler where
  "sample_handler =
     \<lparr>ch_objs = [0 \<mapsto> new_info\<lparr>ci_callback := Some 7, ci_bindingPair := Some sample_pair\<rparr>],
      ch_fresh = 1, m_bindingPairLookup = [(sample_pair, Ptr 0)], m_channelLookup = [(1, Ptr 0)],
      m_nextAvailableChannel = 2, m_multiThreaded = False\<rparr>"

lemma sample_handler_reached: "AddChannelProcessor sample_pair 7 ChannelHandler_init = Inr (1, sample_handler)"
  by (simp add: AddChannelProcessor_def ChannelHandler_init_def sample_handler_def channel_ref_def
      int_incr_def)

lemma sample_handler_inv: "handler_inv sample_handler"
  by (simp add: handler_inv_def sample_handler_def new_info_def)

theorem process_dispatches_inline_witness:
  "Process ref_flags ref_bapi sample_pair sample_message sample_handler sample_heap =
     Inr (map_option (\<lambda>f. CallInline f sample_message) (callback_of sample_handler sample_pair),
          sample_heap)"
  by (rule process_dispatches_inline [OF sample_handler_inv]) (simp add: sample_handler_def)



text \<open>
  Removing a registered pair always dereferences a null pointer: the channel number that
  \<open>RemoveChannelProcessor\<close> looks up in the object is never stored there. Removing an unknown
  pair returns -1 and changes nothing.
\<close>

theorem remove_processor_never_succeeds:
  assumes inv: "handler_inv h"
  shows "RemoveChannelProcessor bp h =
     (if callback_of h bp = None then Inr (- 1, h) else Inl NullDeref)"
proof (cases "map_of (m_bindingPairLookup h) bp")
  case None
  then show ?thesis by (simp add: RemoveChannelProcessor_def callback_of_def)
next
  case (Some p)
  with inv obtain i where "i < length (m_bindingPairLookup h)" "p = Ptr i"
    by (rule handler_inv_lookup)
  with inv Some show ?thesis
    by (auto simp: RemoveChannelProcessor_def callback_of_def elim!: handler_inv_entry)
qed

theorem remove_processor_never_succeeds_witness:
  "RemoveChannelProcessor sample_pair sample_handler =
     (if callback_of sample_handler sample_pair = None then Inr (- 1, sample_handler)
      else Inl NullDeref)"
  by (rule remove_processor_never_succeeds [OF sample_handler_inv])

section \<open>Channels\<close>

definition channel_of :: "ChannelHandler \<Rightarrow> HashableBindingPair \<Rightarrow> int option" where
  "channel_of h bp =
     (case map_of (m_bindingPairLookup h) bp of
        None \<Rightarrow> None
      | Some p \<Rightarrow> map_option fst (List.find (\<lambda>(c, q). q = p) (m_channelLookup h)))"

lemma find_channels:
  "i < n \<Longrightarrow> List.find (\<lambda>(c, q). q = Ptr i) (map (\<lambda>i. (int i + 1, Ptr i)) [0..<n]) =
     Some (int i + 1, Ptr i)"
  by (subst find_Some_iff) auto

lemma channel_of_inv:
  assumes "handler_inv h" and "map_of (m_bindingPairLookup h) bp = Some (Ptr i)"
  shows "channel_of h bp = Some (int i + 1)"
proof -
  from assms obtain j where "j < length (m_bindingPairLookup h)" "Ptr i = Ptr j"
    by (rule handler_inv_lookup)
  with assms show ?thesis
    by (simp add: channel_of_def handler_inv_def Let_def find_channels)
qed

lemma channel_of_None_iff:
  assumes "handler_inv h"
  shows "channel_of h bp = None \<longleftrightarrow> map_of (m_bindingPairLookup h) bp = None"
proof (cases "map_of (m_bindingPairLookup h) bp")
  case None
  then show ?thesis by (simp add: channel_of_def)
next
  case (Some p)
  with assms obtain i where "p = Ptr i" by (rule handler_inv_lookup)
  with assms Some have "channel_of h bp = Some (int i + 1)" by (simp add: channel_of_inv)
  with Some show ?thesis by simp
qed

lemma channel_ofE:
  assumes "handler_inv h" and "channel_of h bp = Some c"
  obtains i where "map_of (m_bindingPairLookup h) bp = Some (Ptr i)" and "c = int i + 1"
    and "i < length (m_bindingPairLookup h)" and "fst (m_bindingPairLookup h ! i) = bp"
proof -
  from assms obtain p where p: "map_of (m_bindingPairLookup h) bp = Some p"
    by (auto simp: channel_of_def split: option.splits)
  from assms(1) p obtain i where i: "i < length (m_bindingPairLookup h)" "p = Ptr i"
      "fst (m_bindingPairLookup h ! i) = bp"
    by (rule handler_inv_lookup)
  with p assms have "c = int i + 1" by (simp add: channel_of_inv)
  with that p i show thesis by simp
qed

lemma handler_inv_ref:
  assumes "handler_inv h" and "i < length (m_bindingPairLookup h)"
  shows "has_channel h (int i + 1)" and "channel_ref h (int i + 1) = Ptr i"
  using assms by (simp_all add: has_channel_def channel_ref_def handler_inv_channel)

lemma has_channelE:
  assumes "handler_inv h" and "has_channel h c"
  obtains i where "i < length (m_bindingPairLookup h)" and "channel_ref h c = Ptr i"
    and "c = int i + 1"
proof -
  from assms have c: "1 \<le> c" "c \<le> int (length (m_bindingPairLookup h))"
    by (auto simp: has_channel_def handler_inv_channel split: if_splits)
  show thesis
    by (rule that [of "nat (c - 1)"])
       (use c assms(1) in \<open>auto simp: channel_ref_def handler_inv_channel\<close>)
qed

lemma channel_refs_differ:
  assumes "handler_inv h" and "channel_ref h c = Ptr i" and "channel_ref h d = Ptr i"
  shows "d = c"
  using assms by (auto simp: channel_ref_def handler_inv_channel split: if_splits)

lemma callback_of_frame:
  assumes "ch_objs h i = Some info" and "ci_callback info' = ci_callback info"
  shows "callback_of (h\<lparr>ch_objs := (ch_objs h)(i \<mapsto> info')\<rparr>) = callback_of h"
proof
  fix bp
  show "callback_of (h\<lparr>ch_objs := (ch_objs h)(i \<mapsto> info')\<rparr>) bp = callback_of h bp"
  proof (cases "map_of (m_bindingPairLookup h) bp")
    case None
    then show ?thesis by (simp add: callback_of_def)
  next
    case (Some p)
    with assms show ?thesis by (cases p) (auto simp: callback_of_def)
  qed
qed

text \<open>
  The lookup by channel is the inverse of the lookup by pair: the channel that serves a
  pair gives back the pair's exchange and routing key, which is what the consumer binds to.
\<close>

theorem channel_lookup_inverse:
  assumes inv: "handler_inv h" and c: "channel_of h bp = Some c"
  shows "GetExchange c h = Inr (m_exchangeName bp) \<and> GetBindingKey c h = Inr (m_routingKey bp)"
proof -
  from inv c obtain i where i: "i < length (m_bindingPairLookup h)" "c = int i + 1"
      "fst (m_bindingPairLookup h ! i) = bp"
    by (rule channel_ofE)
  with inv handler_inv_ref [OF inv i(1)] show ?thesis
    by (auto simp: GetExchange_def GetBindingKey_def elim!: handler_inv_entry)
qed

theorem channel_lookup_inverse_witness:
  "GetExchange 1 sample_handler = Inr (m_exchangeName sample_pair) \<and>
   GetBindingKey 1 sample_handler = Inr (m_routingKey sample_pair)"
  by (rule channel_lookup_inverse [OF sample_handler_inv])
     (simp add: channel_of_def sample_handler_def)

lemma SetQueueProperties_ok:
  assumes inv: "handler_inv h" and c: "has_channel h c"
  shows "okr (SetQueueProperties c qp h) (\<lambda>h'. handler_inv h' \<and>
     GetQueueProperties c h' = Inr qp \<and>
     (\<forall>d. d \<noteq> c \<longrightarrow> GetQueueProperties d h' = GetQueueProperties d h) \<and>
     callback_of h' = callback_of h)"
proof -
  let ?f = "\<lambda>i. i\<lparr>ci_queueProperties := qp\<rparr>"
  from inv c obtain i where i: "i < length (m_bindingPairLookup h)" "channel_ref h c = Ptr i"
      "c = int i + 1"
    by (rule has_channelE)
  have "okr (info_update (Ptr i) ?f h) (\<lambda>h'. handler_inv h' \<and>
      (\<exists>info. ch_objs h i = Some info \<and> h' = h\<lparr>ch_objs := (ch_objs h)(i \<mapsto> ?f info)\<rparr>))"
    by (rule handler_inv_update [OF inv refl i(1)]) simp_all
  then obtain info where info: "ch_objs h i = Some info"
      and upd: "info_update (Ptr i) ?f h = Inr (h\<lparr>ch_objs := (ch_objs h)(i \<mapsto> ?f info)\<rparr>)"
      and inv': "handler_inv (h\<lparr>ch_objs := (ch_objs h)(i \<mapsto> ?f info)\<rparr>)"
    by (auto simp: okr_def)
  let ?h = "h\<lparr>ch_objs := (ch_objs h)(i \<mapsto> ?f info)\<rparr>"
  have ref: "channel_ref ?h d = channel_ref h d" "has_channel ?h d = has_channel h d" for d
    by (simp_all add: channel_ref_def has_channel_def)
  have "SetQueueProperties c qp h = Inr ?h"
    using c upd by (simp add: SetQueueProperties_def i(2))
  moreover have "GetQueueProperties c ?h = Inr qp"
    using c by (simp add: GetQueueProperties_def ref i(2))
  moreover have "GetQueueProperties d ?h = GetQueueProperties d h" if "d \<noteq> c" for d
  proof (cases "channel_ref h d")
    case Null
    then show ?thesis by (simp add: GetQueueProperties_def ref)
  next
    case (Ptr j)
    with channel_refs_differ [OF inv i(2)] that have "j \<noteq> i" by auto
    with Ptr show ?thesis by (simp add: GetQueueProperties_def ref)
  qed
  moreover have "callback_of ?h = callback_of h"
    using info by (rule callback_of_frame) simp
  ultimately show ?thesis using inv' by simp
qed

text \<open>
  Queue properties set for a channel in use are the ones read back for it, and those of
  every other channel stay as they were.
\<close>

theorem queue_properties_roundtrip:
  assumes inv: "handler_inv h" and c: "has_channel h c"
  shows "okr (SetQueueProperties c qp h) (\<lambda>h'. handler_inv h' \<and>
     GetQueueProperties c h' = Inr qp \<and>
     (\<forall>d. d \<noteq> c \<longrightarrow> GetQueueProperties d h' = GetQueueProperties d h) \<and>
     callback_of h' = callback_of h)"
  using assms by (rule SetQueueProperties_ok)

theorem queue_properties_roundtrip_witness:
  "okr (SetQueueProperties 1 (default_queueProperties) sample_handler) (\<lambda>h'. handler_inv h' \<and>
     GetQueueProperties 1 h' = Inr default_queueProperties \<and>
     (\<forall>d. d \<noteq> 1 \<longrightarrow> GetQueueProperties d h' = GetQueueProperties d sample_handler) \<and>
     callback_of h' = callback_of sample_handler)"
  by (rule queue_properties_roundtrip [OF sample_handler_inv])
     (simp add: has_channel_def sample_handler_def)

text \<open>
  \<open>GetChannelList\<close> gives every channel in use exactly once, whatever the hash map's
  iteration order: the numbers from 1 to the number of registered pairs.
\<close>

theorem channel_list_complete:
  assumes "permuting order" and "handler_inv h"
  shows "mset (GetChannelList order h) =
     mset (map int [1..<Suc (length (m_bindingPairLookup h))])"
proof -
  let ?n = "length (m_bindingPairLookup h)"
  from assms(2) have "m_channelLookup h = map (\<lambda>i. (int i + 1, Ptr i)) [0..<?n]"
    by (simp add: handler_inv_def Let_def)
  then have k: "keys (m_channelLookup h) = map int [1..<Suc ?n]"
    by (simp add: map_Suc_upt [symmetric] comp_def add.commute del: upt_Suc)
  show ?thesis
  proof (cases "m_channelLookup h = []")
    case True
    with k show ?thesis by (simp add: GetChannelList_def del: upt_Suc)
  next
    case False
    with assms(1) k show ?thesis by (simp add: GetChannelList_def permuting_def del: upt_Suc)
  qed
qed

theorem channel_list_complete_witness:
  "mset (GetChannelList rev sample_handler) =
     mset (map int [1..<Suc (length (m_bindingPairLookup sample_handler))])"
  by (rule channel_list_complete [OF _ sample_handler_inv]) (simp add: permuting_def)

section \<open>The handler as a channel registry\<close>

text \<open>One subscription, as a state change: a fault would leave the state as it is.\<close>

definition handler_add :: "HashableBindingPair \<times> TD_Callback \<Rightarrow> ChannelHandler \<Rightarrow> ChannelHandler" where
  "handler_add a h = (case AddChannelProcessor (fst a) (snd a) h of Inl _ \<Rightarrow> h | Inr (_, h') \<Rightarrow> h')"

lemma handler_add_known:
  assumes inv: "handler_inv h" and known: "channel_of h (fst a) = Some c"
  shows "channel_of (handler_add a h) = channel_of h \<and>
     m_nextAvailableChannel (handler_add a h) = m_nextAvailableChannel h"
proof -
  from inv known obtain i where p: "map_of (m_bindingPairLookup h) (fst a) = Some (Ptr i)"
    by (rule channel_ofE)
  from AddChannelProcessor_known [OF inv p, of "snd a"]
  obtain objs where "handler_add a h = h\<lparr>ch_objs := objs\<rparr>"
    by (auto simp: handler_add_def okr_def)
  then show ?thesis by (auto simp: channel_of_def fun_eq_iff split: option.splits)
qed

lemma handler_add_unknown:
  assumes inv: "handler_inv h" and room: "m_nextAvailableChannel h < INT_MAX"
    and new: "channel_of h (fst a) = None"
  shows "channel_of (handler_add a h) = (channel_of h)(fst a \<mapsto> m_nextAvailableChannel h) \<and>
     m_nextAvailableChannel (handler_add a h) = m_nextAvailableChannel h + 1"
proof -
  let ?n = "length (m_bindingPairLookup h)"
  from inv new have none: "map_of (m_bindingPairLookup h) (fst a) = None"
    by (simp add: channel_of_None_iff)
  note st = AddChannelProcessor_new [OF inv none, of "snd a"]
  from handler_inv_Add [OF inv room, of "fst a" "snd a"] st
  have inv': "handler_inv (handler_add a h)" by (simp add: handler_add_def)
  from inv have nx: "m_nextAvailableChannel h = int ?n + 1" by (simp add: handler_inv_def Let_def)
  have tab: "m_bindingPairLookup (handler_add a h) = m_bindingPairLookup h @ [(fst a, Ptr ?n)]"
    by (simp add: handler_add_def st)
  have "channel_of (handler_add a h) bp = ((channel_of h)(fst a \<mapsto> int ?n + 1)) bp" for bp
  proof (cases "bp = fst a")
    case True
    have "map_of (m_bindingPairLookup (handler_add a h)) bp = Some (Ptr ?n)"
      using none True by (simp add: tab map_add_def)
    with inv' True show ?thesis by (simp add: channel_of_inv)
  next
    case False
    then have same: "map_of (m_bindingPairLookup (handler_add a h)) bp =
        map_of (m_bindingPairLookup h) bp"
      by (simp add: tab map_add_def split: option.split)
    show ?thesis
    proof (cases "map_of (m_bindingPairLookup h) bp")
      case None
      with False same inv inv' show ?thesis by (simp add: channel_of_def)
    next
      case (Some p)
      with inv obtain i where "p = Ptr i" by (rule handler_inv_lookup)
      with Some False same inv inv' show ?thesis by (simp add: channel_of_inv)
    qed
  qed
  then show ?thesis
    using room nx by (auto simp: handler_add_def st int_incr_below)
qed

lemma handler_add_inv:
  "handler_inv h \<Longrightarrow> m_nextAvailableChannel h < INT_MAX \<Longrightarrow> handler_inv (handler_add a h)"
  using handler_inv_Add [of h "fst a" "snd a"] by (auto simp: handler_add_def okr_def)

interpretation ch_reg: channel_registry channel_of handler_add fst m_nextAvailableChannel
    handler_inv ChannelHandler_init
  by unfold_locales
     (simp_all add: handler_add_inv handler_add_known handler_add_unknown,
      simp_all add: ChannelHandler_init_def channel_of_def)

text \<open>
  C32. After any sequence of subscriptions to at most 65535 different pairs, two different pairs
  use different channels on the wire, where a channel has 16 bits, and none of them uses
  channel 0, which AMQP reserves for the connection.
\<close>

theorem subscriptions_use_distinct_wire_channels:
  assumes "card (fst ` set subs) \<le> 65535"
    and "channel_of (fold handler_add subs ChannelHandler_init) bp = Some c"
    and "channel_of (fold handler_add subs ChannelHandler_init) bp' = Some c'" and "bp \<noteq> bp'"
  shows "wire_channel c \<noteq> wire_channel c' \<and> 0 < wire_channel c"
  using assms by (rule ch_reg.run_wire_distinct [unfolded ch_reg.run_def])

theorem subscriptions_use_distinct_wire_channels_witness:
  "wire_channel 1 \<noteq> wire_channel 2 \<and> 0 < wire_channel 1"
  by (rule subscriptions_use_distinct_wire_channels
       [of "[(sample_pair, 7), (sample_pair\<lparr>m_routingKey := ''other''\<rparr>, 8)]" sample_pair 1
           "sample_pair\<lparr>m_routingKey := ''other''\<rparr>" 2])
     (simp_all add: sample_pair_def card_insert_if handler_add_def AddChannelProcessor_def
        ChannelHandler_init_def channel_of_def channel_ref_def int_incr_def Let_def)

text \<open>
  A subscription never loses or changes its channel by later subscriptions, whatever they
  are, as long as the numbers stay within a C++ \<open>int\<close>.
\<close>

theorem subscription_channel_stable:
  assumes "int (card (fst ` set (subs @ later))) + 1 < INT_MAX"
    and "channel_of (fold handler_add subs ChannelHandler_init) bp = Some c"
  shows "channel_of (fold handler_add (subs @ later) ChannelHandler_init) bp = Some c"
  using assms by (rule ch_reg.run_stable [unfolded ch_reg.run_def])

theorem subscription_channel_stable_witness:
  "channel_of (fold handler_add ([(sample_pair, 7)] @ [(sample_pair, 8)]) ChannelHandler_init)
     sample_pair = Some 1"
  by (rule subscription_channel_stable)
     (simp_all add: handler_add_def AddChannelProcessor_def
        ChannelHandler_init_def channel_of_def channel_ref_def int_incr_def Let_def)

end
