(* ===== verification/Consumer.thy ===== *)
theory Consumer
  imports ConnectionBase ChannelHandler
begin

text \<open>
  The class \<open>Consumer\<close>: it registers callbacks with the \<open>ChannelHandler\<close>, opens a channel and a
  queue for each, and hands arriving messages on. Like the producer it has a worker thread,
  modelled as a program counter that \<open>Consumer_thread_step\<close> moves from one call in its loop to
  the next. Callbacks belong to the application: a step only records the call it makes in the
  ghost field \<open>calls\<close>; what the callback does is activity of the environment.
\<close>

section \<open>State\<close>

text \<open>
  Where the worker thread is: at the loop condition, before \<open>connectAndStartConsumption\<close>, before
  \<open>pullNextMessage\<close>, before the test of the pending channels, or past the loop.
\<close>

datatype consumer_pc = C_Loop | C_Connect | C_Pull | C_Pending | C_Exited

record Consumer =
  m_channelHandler :: ChannelHandler
  m_isInitialized :: bool
  m_connection :: "ConnectionBase option"
  m_threadRunning :: bool
  m_consumerThread :: "consumer_pc option"
  m_pendingChannels :: "int list"
  calls :: "invocation list"

definition Consumer_init :: Consumer where
  "Consumer_init =
     \<lparr>m_channelHandler = ChannelHandler_init, m_isInitialized = False, m_connection = None,
      m_threadRunning = False, m_consumerThread = None, m_pendingChannels = [], calls = []\<rparr>"

type_synonym 'w consumer_res = "(HARE_ERROR_E \<times> Consumer \<times> 'w rt) res"

definition Consumer_IsInitialized :: "Consumer \<Rightarrow> bool" where
  "Consumer_IsInitialized c = m_isInitialized c"

definition Consumer_IsRunning :: "Consumer \<Rightarrow> bool" where
  "Consumer_IsRunning c = m_threadRunning c"

definition Consumer_setRunning :: "bool \<Rightarrow> Consumer \<Rightarrow> Consumer" where
  "Consumer_setRunning running c = c\<lparr>m_threadRunning := running\<rparr>"

text \<open>\<open>m_connection->\<close>\<close>

definition consumer_connection :: "Consumer \<Rightarrow> ConnectionBase res" where
  "consumer_connection c = (case m_connection c of None \<Rightarrow> Inl NullDeref | Some k \<Rightarrow> Inr k)"

section \<open>Setting up a channel\<close>

definition openChannel :: "'w platform \<Rightarrow> int \<Rightarrow> Consumer \<Rightarrow> 'w rt \<Rightarrow> (HARE_ERROR_E \<times> 'w rt) res" where
  "openChannel P channel c s =
     bindr (consumer_connection c) (\<lambda>k. OpenChannel P channel k s)"

text \<open>
  The queue name is a reference to an \<open>amqp_bytes_t\<close> of the caller, \<open>None\<close> while it is
  indeterminate; the log line reads the name.
\<close>

definition declareQueue ::
    "'w platform \<Rightarrow> int \<Rightarrow> amqp_bytes option \<Rightarrow> Consumer \<Rightarrow> 'w rt \<Rightarrow>
     (HARE_ERROR_E \<times> amqp_bytes option \<times> Consumer \<times> 'w rt) res" where
  "declareQueue P channel queueName c s =
     bindr (consumer_connection c) (\<lambda>k.
     bindr (GetQueueProperties channel (m_channelHandler c)) (\<lambda>queueProps.
     bindr (DeclareQueue P channel queueProps queueName k s) (\<lambda>(retCode, queueName, s1).
     if noError retCode
     then (case queueName of
             None \<Rightarrow> Inl UninitRead
           | Some q \<Rightarrow>
               bindr (hare_bytes_to_string (rt_heap s1) q) (\<lambda>_.
               bindr (SetQueueName (bapi P) channel q (m_channelHandler c) (rt_heap s1))
                 (\<lambda>(h, hp).
               Inr (retCode, queueName, c\<lparr>m_channelHandler := h\<rparr>, s1\<lparr>rt_heap := hp\<rparr>))))
     else Inr (retCode, queueName, c, s1))))"

definition bindQueue ::
    "'w platform \<Rightarrow> int \<Rightarrow> amqp_bytes option \<Rightarrow> Consumer \<Rightarrow> 'w rt \<Rightarrow> (HARE_ERROR_E \<times> 'w rt) res" where
  "bindQueue P channel queueName c s =
     (case queueName of
        None \<Rightarrow> Inl UninitRead
      | Some q \<Rightarrow>
          bindr (hare_bytes_to_string (rt_heap s) q) (\<lambda>_.
          bindr (GetExchange channel (m_channelHandler c)) (\<lambda>exchange.
          bindr (GetBindingKey channel (m_channelHandler c)) (\<lambda>bindingKey.
          bindr (consumer_connection c) (\<lambda>k.
          BindQueue P channel q exchange bindingKey k s)))))"

definition consume ::
    "'w platform \<Rightarrow> int \<Rightarrow> amqp_bytes option \<Rightarrow> Consumer \<Rightarrow> 'w rt \<Rightarrow> (HARE_ERROR_E \<times> 'w rt) res" where
  "consume P channel queueName c s =
     bindr (consumer_connection c) (\<lambda>k.
     case queueName of
       None \<Rightarrow> Inl UninitRead
     | Some q \<Rightarrow> StartConsumption P channel q k s)"

section \<open>Pending channels\<close>

definition pendingChannelSize :: "Consumer \<Rightarrow> int" where
  "pendingChannelSize c =
     (int (length (m_pendingChannels c)) + 2147483648) mod 4294967296 - 2147483648"

definition popNextPendingChannel :: "Consumer \<Rightarrow> (int \<times> Consumer) res" where
  "popNextPendingChannel c =
     (case m_pendingChannels c of
        [] \<Rightarrow> Inl EmptyContainer
      | ch # chs \<Rightarrow> Inr (ch, c\<lparr>m_pendingChannels := chs\<rparr>))"

definition pushIntoPendingChannels :: "int \<Rightarrow> Consumer \<Rightarrow> Consumer" where
  "pushIntoPendingChannels channel c = c\<lparr>m_pendingChannels := m_pendingChannels c @ [channel]\<rparr>"

definition emptyPendingChannels :: "Consumer \<Rightarrow> Consumer" where
  "emptyPendingChannels c = c\<lparr>m_pendingChannels := []\<rparr>"

definition setupAndConsume :: "'w platform \<Rightarrow> int \<Rightarrow> Consumer \<Rightarrow> 'w rt \<Rightarrow> 'w consumer_res" where
  "setupAndConsume P channel c s =
     bindr (openChannel P channel c s) (\<lambda>(retCode, s1).
     bindr (if noError retCode then declareQueue P channel None c s1
            else Inr (retCode, None, c, s1)) (\<lambda>(retCode, queueName, c2, s2).
     bindr (if noError retCode then bindQueue P channel queueName c2 s2
            else Inr (retCode, s2)) (\<lambda>(retCode, s3).
     bindr (if noError retCode then consume P channel queueName c2 s3
            else Inr (retCode, s3)) (\<lambda>(retCode, s4).
     Inr (retCode, if \<not> noError retCode then pushIntoPendingChannels channel c2 else c2, s4)))))"

fun consumption_loop ::
    "'w platform \<Rightarrow> int list \<Rightarrow> HARE_ERROR_E \<Rightarrow> Consumer \<Rightarrow> 'w rt \<Rightarrow> 'w consumer_res" where
  "consumption_loop P [] retCode c s = Inr (retCode, c, s)"
| "consumption_loop P (ch # chs) retCode c s =
     bindr (setupAndConsume P ch c s) (\<lambda>(retCode, c1, s1).
     if serverFailure retCode then Inr (retCode, c1, s1)
     else consumption_loop P chs retCode c1 s1)"

definition startConsumption :: "'w platform \<Rightarrow> Consumer \<Rightarrow> 'w rt \<Rightarrow> 'w consumer_res" where
  "startConsumption P c s =
     consumption_loop P
       (GetChannelList (channel_order (runtime P) (rt_world s)) (m_channelHandler c))
       ALL_GOOD (emptyPendingChannels c) s"

section \<open>The worker thread\<close>

definition connectAndStartConsumption ::
    "'w platform \<Rightarrow> Consumer \<Rightarrow> 'w rt \<Rightarrow> 'w consumer_res" where
  "connectAndStartConsumption P c s =
     bindr (consumer_connection c) (\<lambda>k.
     bindr (Connect P k s) (\<lambda>(retCode, k1, s1).
     let c1 = c\<lparr>m_connection := Some k1\<rparr> in
     if noError retCode
     then bindr (startConsumption P c1 s1) (\<lambda>(retCode, c2, s2).
          if serverFailure retCode
          then bindr (consumer_connection c2) (\<lambda>k2.
               bindr (CloseConnection P k2 s2) (\<lambda>(_, k3, s3).
               Inr (retCode, c2\<lparr>m_connection := Some k3\<rparr>, s3)))
          else Inr (retCode, c2, s2))
     else Inr (retCode, c1, s1)))"

text \<open>
  A received envelope: the message object is built from it, dispatched by exchange and routing
  key, and destroyed at the end of the block, after the envelope. An envelope without an
  exchange is dropped. Using an envelope that the library has not filled in reads indeterminate
  memory.
\<close>

definition handle_envelope ::
    "'w platform \<Rightarrow> amqp_envelope option \<Rightarrow> Consumer \<Rightarrow> 'w rt \<Rightarrow> (Consumer \<times> 'w rt) res" where
  "handle_envelope P envelope c s =
     (case envelope of
        None \<Rightarrow> Inl UninitRead
      | Some e \<Rightarrow>
          bindr (Message_envelope (flags P) (bapi P) e (rt_heap s)) (\<lambda>(newMessage, hp1).
          bindr (if ab_len (env_exchange e) = 0 then Inr (None, hp1)
                 else
                   bindr (deref_bytes hp1 (env_exchange e)) (\<lambda>exchange.
                   bindr (deref_bytes hp1 (env_routing_key e)) (\<lambda>routing_key.
                   Process (flags P) (bapi P)
                     \<lparr>m_exchangeName = exchange, m_routingKey = routing_key\<rparr> newMessage
                     (m_channelHandler c) hp1))) (\<lambda>(call, hp2).
          case amqp_destroy_envelope (api P) e hp2 (rt_world s) of
            (hp3, w) \<Rightarrow>
              bindr (Message_destroy newMessage hp3) (\<lambda>hp4.
              Inr (c\<lparr>calls := calls c @ (case call of None \<Rightarrow> [] | Some f \<Rightarrow> [f])\<rparr>,
                   s\<lparr>rt_heap := hp4, rt_world := w\<rparr>)))))"

definition pullNextMessage :: "'w platform \<Rightarrow> Consumer \<Rightarrow> 'w rt \<Rightarrow> (Consumer \<times> 'w rt) res" where
  "pullNextMessage P c s =
     bindr (consumer_connection c) (\<lambda>k.
     if \<not> IsConnected k then Inr (c, s)
     else
       bindr (handle (Connection k)) (\<lambda>conn.
       case amqp_maybe_release_buffers (api P) conn (rt_heap s) (rt_world s) of
         (hp, w) \<Rightarrow>
           bindr (ConsumeMessage P None k (s\<lparr>rt_heap := hp, rt_world := w\<rparr>))
             (\<lambda>(ret, envelope, s1).
           if noError ret then handle_envelope P envelope c s1
           else if serverFailure ret \<and> Consumer_IsRunning c
           then bindr (CloseConnection P k s1) (\<lambda>(_, k1, s2).
                Inr (c\<lparr>m_connection := Some k1\<rparr>, s2))
           else Inr (c, s1))))"

definition consumer_at :: "consumer_pc \<Rightarrow> Consumer \<Rightarrow> Consumer" where
  "consumer_at pc c = c\<lparr>m_consumerThread := Some pc\<rparr>"

definition Consumer_thread_step ::
    "'w platform \<Rightarrow> consumer_pc \<Rightarrow> Consumer \<Rightarrow> 'w rt \<Rightarrow> (Consumer \<times> 'w rt) res" where
  "Consumer_thread_step P pc c s =
     (case pc of
        C_Loop \<Rightarrow>
          if \<not> Consumer_IsRunning c then Inr (consumer_at C_Exited c, s)
          else bindr (consumer_connection c) (\<lambda>k.
               Inr (consumer_at (if \<not> IsConnected k then C_Connect else C_Pull) c, s))
      | C_Connect \<Rightarrow>
          bindr (connectAndStartConsumption P c s) (\<lambda>(retCode, c1, s1).
          Inr (consumer_at (if noError retCode then C_Pull else C_Pending) c1, s1))
      | C_Pull \<Rightarrow>
          bindr (pullNextMessage P c s) (\<lambda>(c1, s1). Inr (consumer_at C_Pending c1, s1))
      | C_Pending \<Rightarrow>
          if pendingChannelSize c \<noteq> 0
          then bindr (popNextPendingChannel c) (\<lambda>(channel, c1).
               bindr (setupAndConsume P channel c1 s) (\<lambda>(_, c2, s2).
               Inr (consumer_at C_Loop c2, s2)))
          else Inr (consumer_at C_Loop c, s)
      | C_Exited \<Rightarrow> Inr (c, s))"

section \<open>The methods\<close>

definition Subscribe ::
    "string \<Rightarrow> string \<Rightarrow> TD_Callback \<Rightarrow> queueProperties \<Rightarrow> Consumer \<Rightarrow>
     (HARE_ERROR_E \<times> Consumer) res" where
  "Subscribe exchange binding_key f queueProps c =
     (if \<not> Consumer_IsInitialized c then Inr (NOT_INITIALIZED, c)
      else
        bindr (AddChannelProcessor \<lparr>m_exchangeName = exchange, m_routingKey = binding_key\<rparr> f
                 (m_channelHandler c)) (\<lambda>(channel, h).
        let c1 = c\<lparr>m_channelHandler := h\<rparr> in
        if channel = - 1 then Inr (UNABLE_TO_SUBSCRIBE, c1)
        else
          bindr (SetQueueProperties channel queueProps h) (\<lambda>h2.
          let c2 = c1\<lparr>m_channelHandler := h2\<rparr> in
          Inr (ALL_GOOD,
               if Consumer_IsRunning c2 then pushIntoPendingChannels channel c2 else c2))))"

text \<open>\<open>join\<close> as for the producer: four steps take a thread that is not to run to its end.\<close>

fun run_consumer :: "'w platform \<Rightarrow> nat \<Rightarrow> Consumer \<Rightarrow> 'w rt \<Rightarrow> (Consumer \<times> 'w rt) res" where
  "run_consumer P 0 c s = Inr (c, s)"
| "run_consumer P (Suc n) c s =
     (case m_consumerThread c of
        None \<Rightarrow> Inr (c, s)
      | Some pc \<Rightarrow> bindr (Consumer_thread_step P pc c s) (\<lambda>(c', s'). run_consumer P n c' s'))"

definition Consumer_join :: "'w platform \<Rightarrow> Consumer \<Rightarrow> 'w rt \<Rightarrow> (Consumer \<times> 'w rt) res" where
  "Consumer_join P c s =
     (if m_consumerThread c = None then Inl Terminate
      else bindr (run_consumer P 4 c s) (\<lambda>(c', s'). Inr (c'\<lparr>m_consumerThread := None\<rparr>, s')))"

definition Consumer_Start :: "Consumer \<Rightarrow> (HARE_ERROR_E \<times> Consumer) res" where
  "Consumer_Start c =
     (let retCode = (if \<not> m_isInitialized c then NOT_INITIALIZED
                     else if m_threadRunning c then THREAD_ALREADY_RUNNING else ALL_GOOD) in
      if noError retCode
      then let c1 = c\<lparr>m_threadRunning := True\<rparr> in
           if m_consumerThread c1 \<noteq> None then Inl Terminate
           else Inr (retCode, c1\<lparr>m_consumerThread := Some C_Loop\<rparr>)
      else Inr (retCode, c))"

definition Consumer_Stop :: "'w platform \<Rightarrow> Consumer \<Rightarrow> 'w rt \<Rightarrow> 'w consumer_res" where
  "Consumer_Stop P c s =
     (let c0 = emptyPendingChannels c in
      if \<not> Consumer_IsInitialized c0 then Inr (NOT_INITIALIZED, c0, s)
      else if \<not> Consumer_IsRunning c0 then Inr (THREAD_NOT_RUNNING, c0, s)
      else
        bindr (Consumer_join P (Consumer_setRunning False c0) s) (\<lambda>(c1, s1).
        bindr (consumer_connection c1) (\<lambda>k.
        bindr (CloseConnection P k s1) (\<lambda>(retCode, k1, s2).
        Inr (retCode, c1\<lparr>m_connection := Some k1\<rparr>, s2)))))"

definition Consumer_Initialize ::
    "'w platform \<Rightarrow> string \<Rightarrow> int \<Rightarrow> string \<Rightarrow> string \<Rightarrow> Consumer \<Rightarrow> 'w rt \<Rightarrow> 'w consumer_res" where
  "Consumer_Initialize P server port username password c s =
     bindr (case m_connection c of
              None \<Rightarrow> Inr s
            | Some old \<Rightarrow> bindr (ConnectionBase_destroy P old s) (\<lambda>(_, _, s'). Inr s')) (\<lambda>s1.
     let c1 = c\<lparr>m_connection := Some (ConnectionBase_init server port username password)\<rparr> in
     Inr (ALL_GOOD, c1\<lparr>m_isInitialized := True, m_threadRunning := False\<rparr>, s1))"

definition Consumer_Restart :: "'w platform \<Rightarrow> Consumer \<Rightarrow> 'w rt \<Rightarrow> 'w consumer_res" where
  "Consumer_Restart P c s =
     bindr (Consumer_Stop P c s) (\<lambda>(retCode, c1, s1).
     if noError retCode
     then bindr (Consumer_Start c1) (\<lambda>(retCode, c2). Inr (retCode, c2, s1))
     else Inr (retCode, c1, s1))"

text \<open>
  The destructor, with the destructors of the members in the reverse order of their
  declaration: the thread (which must have been joined), the connection, the handler.
\<close>

definition Consumer_destroy :: "'w platform \<Rightarrow> Consumer \<Rightarrow> 'w rt \<Rightarrow> 'w rt res" where
  "Consumer_destroy P c s =
     bindr (if m_threadRunning c
            then bindr (Consumer_Stop P c s) (\<lambda>(_, c', s'). Inr (c', s'))
            else Inr (c, s)) (\<lambda>(c1, s1).
     bindr (if m_isInitialized c1
            then bindr (consumer_connection c1) (\<lambda>k.
                 bindr (CloseConnection P k s1) (\<lambda>(_, k1, s2).
                 Inr (c1\<lparr>m_connection := Some k1\<rparr>, s2)))
            else Inr (c1, s1)) (\<lambda>(c2, s3).
     if m_consumerThread c2 \<noteq> None then Inl Terminate
     else
       bindr (case m_connection c2 of
                None \<Rightarrow> Inr s3
              | Some k \<Rightarrow> bindr (ConnectionBase_destroy P k s3) (\<lambda>(_, _, s4). Inr s4)) (\<lambda>s5.
       bindr (ChannelHandler_destroy (channel_order (runtime P) (rt_world s5)) (m_channelHandler c2)
                (rt_heap s5)) (\<lambda>hp.
       Inr (s5\<lparr>rt_heap := hp\<rparr>)))))"

section \<open>Subscribing\<close>

lemma SetQueueProperties_tables:
  assumes "SetQueueProperties ch qp h = Inr h'"
  shows "m_bindingPairLookup h' = m_bindingPairLookup h" and "m_channelLookup h' = m_channelLookup h"
  using assms
  by (cases "channel_ref h ch"; auto simp: SetQueueProperties_def split: if_splits option.splits)+

lemma channel_of_cong:
  "m_bindingPairLookup h' = m_bindingPairLookup h \<Longrightarrow> m_channelLookup h' = m_channelLookup h \<Longrightarrow>
     channel_of h' = channel_of h"
  by (simp add: channel_of_def fun_eq_iff split: option.split)

text \<open>A new pair has the channel that \<open>AddChannelProcessor\<close> returned.\<close>

lemma added_channel:
  assumes inv: "handler_inv h" and room: "m_nextAvailableChannel h < INT_MAX"
    and new: "callback_of h bp = None" and add: "AddChannelProcessor bp f h = Inr (ch, h1)"
  shows "ch = m_nextAvailableChannel h" and "channel_of h1 bp = Some ch" and "has_channel h1 ch"
    and "ch \<noteq> - 1"
proof -
  from AddChannelProcessor_ok [OF inv room, of bp f] new add
  show ch: "ch = m_nextAvailableChannel h" by (simp add: okr_def)
  from AddChannelProcessor_ok [OF inv room, of bp f] add have inv1: "handler_inv h1"
    by (simp add: okr_def)
  from inv new have "channel_of h bp = None"
    by (simp add: channel_of_None_iff callback_of_None_iff)
  from handler_add_unknown [OF inv room, of "(bp, f)"] this add ch
  show c: "channel_of h1 bp = Some ch" by (simp add: handler_add_def)
  from inv1 c obtain i where "ch = int i + 1" "i < length (m_bindingPairLookup h1)"
    by (rule channel_ofE)
  with handler_inv_ref(1) [OF inv1] show "has_channel h1 ch" and "ch \<noteq> - 1" by simp_all
qed


definition idle_consumer :: Consumer where
  "idle_consumer = Consumer_init\<lparr>m_isInitialized := True, m_connection := Some sample_conn\<rparr>"


section \<open>Pending channels\<close>

text \<open>
  While the connection is closed no pending subscription is lost and the library is not
  called: the worker thread takes the first pending channel and puts it back at the end.
\<close>

theorem pending_rotates_while_closed:
  assumes k: "m_connection c = Some k" and closed: "\<not> IsConnected k"
    and pend: "m_pendingChannels c = ch # chs" and small: "length chs < 2147483647"
  shows "Consumer_thread_step P C_Pending c s =
     Inr (consumer_at C_Loop (c\<lparr>m_pendingChannels := chs @ [ch]\<rparr>), s)"
proof -
  have "pendingChannelSize c \<noteq> 0"
    using small by (simp add: pendingChannelSize_def pend)
  moreover have "setupAndConsume P ch (c\<lparr>m_pendingChannels := chs\<rparr>) s =
      Inr (SERVER_CONNECTION_FAILURE, c\<lparr>m_pendingChannels := chs @ [ch]\<rparr>, s)"
    using k closed
    by (simp add: setupAndConsume_def openChannel_def consumer_connection_def OpenChannel_def
        pushIntoPendingChannels_def)
  ultimately show ?thesis
    by (simp add: Consumer_thread_step_def popNextPendingChannel_def pend)
qed

theorem pending_rotates_while_closed_witness:
  "Consumer_thread_step ref_platform C_Pending (idle_consumer\<lparr>m_pendingChannels := [1, 2]\<rparr>) quiet_rt =
     Inr (consumer_at C_Loop (idle_consumer\<lparr>m_pendingChannels := [1, 2], m_pendingChannels := [2] @ [1]\<rparr>),
       quiet_rt)"
  by (rule pending_rotates_while_closed [where k = sample_conn])
     (simp_all add: idle_consumer_def sample_conn_closed)

section \<open>Receiving\<close>


definition open_consumer :: Consumer where
  "open_consumer = idle_consumer\<lparr>m_connection := Some open_conn, m_threadRunning := True,
     m_consumerThread := Some C_Pull, m_channelHandler := sample_handler\<rparr>"

definition odd_platform :: "ref_world platform" where
  "odd_platform = ref_platform\<lparr>api := ref_api\<lparr>amqp_consume_message :=
     (\<lambda>c t fl h w. (library_reply (- 1), None, h, w))\<rparr>\<rparr>"


lemma Message_envelope_ok:
  assumes B: "bytes_api_ok B" and wf: "heap_wf h" and c: "load_bytes h (env_body e) = Inr c"
    and p: "props_readable F h (env_properties e)"
  shows "okr (Message_envelope F B e h) (\<lambda>(m, h'). heap_wf h' \<and> heap_le h h' \<and>
     m_bodyHasBeenSet m \<and> dup_of h (Some (env_body e)) h' (m_body m))"
proof -
  from bytes_api_dup [OF B c] obtain b' h1 where
      d: "amqp_bytes_malloc_dup B (env_body e) h = Inr (b', h1)" "dup_spec h (env_body e) c b' h1"
    by (auto simp: okr_def)
  have le: "heap_le h h1" and wf1: "heap_wf h1"
    using dup_spec_ext [OF wf d(2)] dup_spec_wf [OF wf d(2)] .
  from props_dup_ok [OF B wf1 props_readable_le [OF p le], of indeterminate_properties]
  obtain q h2 where q: "hare_basic_properties_malloc_dup F B (env_properties e)
        indeterminate_properties h1 = Inr (q, h2)" "heap_wf h2" "heap_le h1 h2"
    by (auto simp: okr_def)
  have "dup_of h (Some (env_body e)) h1 (Some b')"
    using c d(2) by (auto simp: dup_of_def dup_spec_def alloc_spec_def)
  then have "dup_of h (Some (env_body e)) h2 (Some b')" using q(3) by (rule dup_of_ext)
  with d q heap_le_trans [OF le q(3)] show ?thesis by (simp add: Message_envelope_def)
qed

text \<open>Destroying an envelope frees only memory that was allocated when it was received.\<close>

definition releases_only :: "'w platform \<Rightarrow> amqp_envelope \<Rightarrow> nat set \<Rightarrow> bool" where
  "releases_only P e A \<longleftrightarrow>
     (\<forall>hp w a. a \<notin> A \<longrightarrow> h_blocks (fst (amqp_destroy_envelope (api P) e hp w)) a = h_blocks hp a)"

lemma destroy_after_release:
  assumes wf: "heap_wf h" and d: "dup_of h (Some b) h' (m_body m)"
    and rel: "releases_only P e (dom (h_blocks h))"
  shows "okr (Message_destroy m (fst (amqp_destroy_envelope (api P) e h' w))) (\<lambda>_. True)"
proof -
  from d obtain b' c where b': "m_body m = Some b'"
      "ab_bytes b' = Null \<or> (\<exists>a. ab_bytes b' = Ptr a \<and> h_next h \<le> a \<and> h_blocks h' a = Some c)"
    by (auto simp: dup_of_def)
  have "h_blocks (fst (amqp_destroy_envelope (api P) e h' w)) a = h_blocks h' a" if "h_next h \<le> a" for a
    using rel heap_wf_fresh [OF wf that] by (simp add: releases_only_def domIff)
  with b' show ?thesis by (auto simp: Message_destroy_def)
qed

text \<open>
  C12. A received message reaches exactly the callback registered for its exchange and routing
  key, once and with the body it arrived with, or nobody when there is none; afterwards the
  envelope and the message object are given back without a fault.
\<close>

theorem message_delivered_once:
  assumes P: "platform_ok P" and wf: "heap_wf (rt_heap s)"
    and inv: "handler_inv (m_channelHandler c)" and inl: "\<not> m_multiThreaded (m_channelHandler c)"
    and ex: "deref_bytes (rt_heap s) (env_exchange e) = Inr exchange" "exchange \<noteq> []"
    and rk: "deref_bytes (rt_heap s) (env_routing_key e) = Inr key"
    and body: "deref_bytes (rt_heap s) (env_body e) = Inr body"
    and props: "props_readable (flags P) (rt_heap s) (env_properties e)"
    and rel: "releases_only P e (dom (h_blocks (rt_heap s)))"
  shows "okr (handle_envelope P (Some e) c s) (\<lambda>(c', s'). \<exists>m hp.
     calls c' = calls c @
       (case callback_of (m_channelHandler c) \<lparr>m_exchangeName = exchange, m_routingKey = key\<rparr> of
          None \<Rightarrow> [] | Some f \<Rightarrow> [CallInline f m]) \<and>
     heap_le (rt_heap s) hp \<and> (Payload m \<noteq> Inr Null \<longrightarrow> Message_String hp m = Inr body))"
proof -
  let ?hp = "rt_heap s" and ?bp = "\<lparr>m_exchangeName = exchange, m_routingKey = key\<rparr>"
  from P have B: "bytes_api_ok (bapi P)" by (simp add: platform_ok_def)
  from body obtain b where ld: "load_bytes ?hp (env_body e) = Inr b"
    by (auto simp: deref_bytes_def bindr_eq_Inr_iff)
  from Message_envelope_ok [OF B wf ld props] obtain m hp1 where
      m: "Message_envelope (flags P) (bapi P) e ?hp = Inr (m, hp1)" "heap_le ?hp hp1"
      "m_bodyHasBeenSet m" "dup_of ?hp (Some (env_body e)) hp1 (m_body m)"
    by (auto simp: okr_def)
  have len: "ab_len (env_exchange e) \<noteq> 0"
  proof
    assume "ab_len (env_exchange e) = 0"
    then have "deref_bytes ?hp (env_exchange e) = Inr []"
      by (cases "ab_bytes (env_exchange e)") (simp_all add: deref_bytes_def load_bytes_def)
    with ex show False by simp
  qed
  obtain hp3 w where de: "amqp_destroy_envelope (api P) e hp1 (rt_world s) = (hp3, w)" by fastforce
  from destroy_after_release [OF wf m(4) rel, of "rt_world s"] de obtain hp4 where
      "Message_destroy m hp3 = Inr hp4"
    by (auto simp: okr_def)
  moreover note heap_le_deref_bytes [OF m(2) ex(1)] heap_le_deref_bytes [OF m(2) rk]
    Process_inline [OF inv inl, of "flags P" "bapi P" ?bp m hp1]
  ultimately have run: "handle_envelope P (Some e) c s =
      Inr (c\<lparr>calls := calls c @ (case callback_of (m_channelHandler c) ?bp of
        None \<Rightarrow> [] | Some f \<Rightarrow> [CallInline f m])\<rparr>, s\<lparr>rt_heap := hp4, rt_world := w\<rparr>)"
    using m(1) len de by (simp add: handle_envelope_def split: option.split)
  let ?src = "\<lparr>m_body = Some (env_body e), m_bodyHasBeenSet = True,
      m_properties = indeterminate_properties\<rparr>"
  have "Message_String hp1 m = Message_String ?hp ?src" if "Payload m \<noteq> Inr Null"
    by (rule dup_of_body_String) (use m that in simp_all)
  moreover have "Message_String ?hp ?src = Inr body"
    using body by (simp add: Message_String_def deref_bytes_def load_bytes_def)
  ultimately show ?thesis using run m(2) by auto
qed

definition delivery_rt :: "ref_world rt" where
  "delivery_rt =
     \<lparr>rt_heap = \<lparr>h_next = 3, h_blocks = [0 \<mapsto> map Some ''amq.direct'', 1 \<mapsto> map Some ''test'',
        2 \<mapsto> map Some ''hello''], h_oom = (\<lambda>_. False)\<rparr>, rt_world = quiet_world\<rparr>"

definition delivery_envelope :: amqp_envelope where
  "delivery_envelope =
     \<lparr>env_exchange = \<lparr>ab_len = 10, ab_bytes = Ptr 0\<rparr>, env_routing_key = \<lparr>ab_len = 4, ab_bytes = Ptr 1\<rparr>,
      env_properties = indeterminate_properties, env_body = \<lparr>ab_len = 5, ab_bytes = Ptr 2\<rparr>\<rparr>"

theorem message_delivered_once_witness:
  "okr (handle_envelope ref_platform (Some delivery_envelope) open_consumer delivery_rt)
     (\<lambda>(c', s'). \<exists>m hp.
     calls c' = calls open_consumer @
       (case callback_of (m_channelHandler open_consumer)
            \<lparr>m_exchangeName = ''amq.direct'', m_routingKey = ''test''\<rparr> of
          None \<Rightarrow> [] | Some f \<Rightarrow> [CallInline f m]) \<and>
     heap_le (rt_heap delivery_rt) hp \<and> (Payload m \<noteq> Inr Null \<longrightarrow> Message_String hp m = Inr ''hello''))"
proof (rule message_delivered_once [OF ref_platform_ok])
  show "handler_inv (m_channelHandler open_consumer)" by (simp add: open_consumer_def sample_handler_inv)
  show "\<not> m_multiThreaded (m_channelHandler open_consumer)"
    by (simp add: open_consumer_def sample_handler_def)
qed (simp_all add: delivery_rt_def delivery_envelope_def heap_wf_def deref_bytes_def load_bytes_def
       props_readable_no_flags ref_flags_ok indeterminate_properties_def releases_only_def ref_api_def)

section \<open>What a callback may do with the payload\<close>

text \<open>
  C37. A message that was received holds a copy of exactly the bytes that arrived. \<open>String\<close> returns
  them, but the block that \<open>Payload\<close> points to has no terminator: unless the sender put one into
  the body, reading the payload as a C string runs past the end of the block.
\<close>

theorem received_payload_unterminated:
  assumes B: "bytes_api_ok B" and wf: "heap_wf h" and body: "deref_bytes h (env_body e) = Inr body"
    and plain: "NUL \<notin> set body" and props: "props_readable F h (env_properties e)"
  shows "okr (Message_envelope F B e h) (\<lambda>(m, h'). okr (Payload m) (\<lambda>p. p \<noteq> Null \<longrightarrow>
     Message_String h' m = Inr body \<and> bindr (mem_at h' p) strlen = Inl OutOfBounds))"
proof -
  from body obtain c where c: "load_bytes h (env_body e) = Inr c" "chars c = Inr body"
    by (auto simp: deref_bytes_def bindr_eq_Inr_iff)
  from Message_envelope_ok [OF B wf c(1) props] obtain m h' where
      m: "Message_envelope F B e h = Inr (m, h')" "m_bodyHasBeenSet m" "dup_of h (Some (env_body e)) h' (m_body m)"
    by (auto simp: okr_def)
  from m(3) c(1) obtain b where b: "m_body m = Some b" "ab_len b = length c"
      "ab_bytes b = Null \<or> (\<exists>a. ab_bytes b = Ptr a \<and> h_blocks h' a = Some c)"
    using load_bytes_length [OF c(1)] by (auto simp: dup_of_def)
  from c(2) have "c = map Some body" by (rule chars_eq)
  with b m(1,2) c(2) strlen_unterminated [OF plain] show ?thesis
    by (auto simp: Payload_def Message_String_def)
qed

theorem received_payload_unterminated_witness:
  "okr (Message_envelope ref_flags ref_bapi delivery_envelope (rt_heap delivery_rt)) (\<lambda>(m, h').
     okr (Payload m) (\<lambda>p. p \<noteq> Null \<longrightarrow>
       Message_String h' m = Inr ''hello'' \<and> bindr (mem_at h' p) strlen = Inl OutOfBounds))"
  by (rule received_payload_unterminated)
     (simp_all add: ref_bapi_ok delivery_rt_def delivery_envelope_def heap_wf_def deref_bytes_def load_bytes_def
       props_readable_no_flags ref_flags_ok indeterminate_properties_def NUL_def)

end
