(* ===== verification/Library_Memory.thy ===== *)
theory Library_Memory
  imports ConnectionBase
begin

text \<open>
  The memory that rabbitmq-c hands to the program. The library allocates envelopes and queue
  names itself and takes them back when it likes; \<open>lib w\<close> is the set of blocks that it owns in
  the world \<open>w\<close>. The contract below says that it leaves every other block alone, which is what
  the program has to rely on when it keeps buffers of its own across calls. The lemmas carry the
  contract through the operations of \<open>ConnectionBase\<close>.
\<close>

section \<open>The contract\<close>

definition lib_inv :: "('w \<Rightarrow> nat set) \<Rightarrow> 'w rt \<Rightarrow> bool" where
  "lib_inv lib s \<longleftrightarrow> heap_wf (rt_heap s) \<and> lib (rt_world s) \<subseteq> dom (h_blocks (rt_heap s))"

text \<open>The blocks that are allocated and do not belong to the library.\<close>

definition program_blocks :: "('w \<Rightarrow> nat set) \<Rightarrow> 'w rt \<Rightarrow> nat set" where
  "program_blocks lib s = dom (h_blocks (rt_heap s)) - lib (rt_world s)"

text \<open>A step that keeps the program's blocks, their contents and the fact that they are its own.\<close>

definition lib_step :: "('w \<Rightarrow> nat set) \<Rightarrow> 'w rt \<Rightarrow> 'w rt \<Rightarrow> bool" where
  "lib_step lib s s' \<longleftrightarrow>
     lib_inv lib s' \<and> h_next (rt_heap s) \<le> h_next (rt_heap s') \<and>
     (\<forall>a \<in> program_blocks lib s.
        a \<in> program_blocks lib s' \<and> h_blocks (rt_heap s') a = h_blocks (rt_heap s) a)"

text \<open>Calls that get no access to the heap do not change what the library owns.\<close>

definition heapless :: "('w \<Rightarrow> nat set) \<Rightarrow> 'w amqp_api \<Rightarrow> bool" where
  "heapless lib A \<longleftrightarrow>
     (\<forall>w. lib (snd (amqp_new_connection A w)) = lib w) \<and>
     (\<forall>c w. lib (snd (amqp_tcp_socket_new A c w)) = lib w) \<and>
     (\<forall>k host port t w. lib (snd (amqp_socket_open_noblock A k host port t w)) = lib w) \<and>
     (\<forall>c vh cm fm hb sasl u p w. lib (snd (amqp_login A c vh cm fm hb sasl u p w)) = lib w) \<and>
     (\<forall>c code w. lib (snd (amqp_connection_close A c code w)) = lib w) \<and>
     (\<forall>c w. lib (amqp_destroy_connection A c w) = lib w) \<and>
     (\<forall>c w. lib (snd (amqp_get_rpc_reply A c w)) = lib w) \<and>
     (\<forall>c ch w. lib (amqp_channel_open A c ch w) = lib w) \<and>
     (\<forall>c ch m w. lib (snd (amqp_send_method A c ch m w)) = lib w) \<and>
     (\<forall>c ch q tag nl na ex tb w. lib (amqp_basic_consume A c ch q tag nl na ex tb w) = lib w) \<and>
     (\<forall>c ch q ex bk tb w. lib (amqp_queue_bind A c ch q ex bk tb w) = lib w)"

text \<open>The four calls that do get access to the heap.\<close>

definition respects_memory :: "('w \<Rightarrow> nat set) \<Rightarrow> 'w amqp_api \<Rightarrow> bool" where
  "respects_memory lib A \<longleftrightarrow>
     (\<forall>c t fl s reply e hp w. lib_inv lib s \<longrightarrow>
        amqp_consume_message A c t fl (rt_heap s) (rt_world s) = (reply, e, hp, w) \<longrightarrow>
        lib_step lib s \<lparr>rt_heap = hp, rt_world = w\<rparr>) \<and>
     (\<forall>c ch q p d ex a tb s r hp w. lib_inv lib s \<longrightarrow>
        amqp_queue_declare A c ch q p d ex a tb (rt_heap s) (rt_world s) = (r, hp, w) \<longrightarrow>
        lib_step lib s \<lparr>rt_heap = hp, rt_world = w\<rparr>) \<and>
     (\<forall>c s hp w. lib_inv lib s \<longrightarrow>
        amqp_maybe_release_buffers A c (rt_heap s) (rt_world s) = (hp, w) \<longrightarrow>
        lib_step lib s \<lparr>rt_heap = hp, rt_world = w\<rparr>) \<and>
     (\<forall>e s hp w. lib_inv lib s \<longrightarrow>
        amqp_destroy_envelope A e (rt_heap s) (rt_world s) = (hp, w) \<longrightarrow>
        lib_step lib s \<lparr>rt_heap = hp, rt_world = w\<rparr>)"

definition library_ok :: "('w \<Rightarrow> nat set) \<Rightarrow> 'w platform \<Rightarrow> bool" where
  "library_ok lib P \<longleftrightarrow>
     platform_ok P \<and> connections_available P \<and> heapless lib (api P) \<and> respects_memory lib (api P)"

text \<open>
  What the consumer needs beyond that. It uses every envelope whose reply it takes for a
  success, and every queue name after a declaration, whatever the reply: so each successful
  delivery must have filled the envelope with readable data, each declaration must succeed, and
  the copy of the name must find memory.
\<close>

definition envelope_readable :: "basic_flags \<Rightarrow> heap \<Rightarrow> amqp_envelope \<Rightarrow> bool" where
  "envelope_readable F hp e \<longleftrightarrow>
     okr (deref_bytes hp (env_exchange e)) (\<lambda>_. True) \<and>
     okr (deref_bytes hp (env_routing_key e)) (\<lambda>_. True) \<and>
     okr (deref_bytes hp (env_body e)) (\<lambda>_. True) \<and> props_readable F hp (env_properties e)"

definition envelopes_filled :: "'w platform \<Rightarrow> bool" where
  "envelopes_filled P \<longleftrightarrow>
     (\<forall>c t fl h w reply e hp' w'.
        amqp_consume_message (api P) c t fl h w = (reply, e, hp', w') \<longrightarrow>
        decodeRpcReply (codes P) reply = ALL_GOOD \<longrightarrow>
        (\<exists>env. e = Some env \<and> envelope_readable (flags P) hp' env))"

definition queues_accepted :: "'w platform \<Rightarrow> bool" where
  "queues_accepted P \<longleftrightarrow>
     (\<forall>c ch q p d ex a tb h w r hp' w'.
        amqp_queue_declare (api P) c ch q p d ex a tb h w = (r, hp', w') \<longrightarrow>
        decodeRpcReply (codes P) (fst (amqp_get_rpc_reply (api P) c w')) = ALL_GOOD \<and>
        (\<exists>b. r = Some b \<and> okr (deref_bytes hp' b) (\<lambda>_. True)))"

definition copies_succeed :: "'w platform \<Rightarrow> bool" where
  "copies_succeed P \<longleftrightarrow>
     (\<forall>b h b' h'. amqp_bytes_malloc_dup (bapi P) b h = Inr (b', h') \<longrightarrow> ab_bytes b' \<noteq> Null)"

definition consumer_library :: "('w \<Rightarrow> nat set) \<Rightarrow> 'w platform \<Rightarrow> bool" where
  "consumer_library lib P \<longleftrightarrow>
     library_ok lib P \<and> envelopes_filled P \<and> queues_accepted P \<and> copies_succeed P"

section \<open>Steps\<close>

lemma lib_step_refl [simp]: "lib_step lib s s \<longleftrightarrow> lib_inv lib s"
  by (simp add: lib_step_def)

lemma lib_step_trans: "lib_step lib s s' \<Longrightarrow> lib_step lib s' s'' \<Longrightarrow> lib_step lib s s''"
  by (auto simp: lib_step_def)

lemma lib_stepD:
  assumes "lib_step lib s s'"
  shows "lib_inv lib s'" and "h_next (rt_heap s) \<le> h_next (rt_heap s')"
    and "a \<in> program_blocks lib s \<Longrightarrow> a \<in> program_blocks lib s'"
    and "a \<in> program_blocks lib s \<Longrightarrow> h_blocks (rt_heap s') a = h_blocks (rt_heap s) a"
  using assms by (simp_all add: lib_step_def)

lemma lib_step_blocks: "lib_step lib s s' \<Longrightarrow> program_blocks lib s \<subseteq> program_blocks lib s'"
  by (auto simp: lib_step_def)

lemma lib_inv_fresh:
  assumes "lib_inv lib s" and "h_next (rt_heap s) \<le> a"
  shows "a \<notin> lib (rt_world s)" and "a \<notin> program_blocks lib s"
  using assms heap_wf_fresh [of "rt_heap s" a]
  by (auto simp: lib_inv_def program_blocks_def)

text \<open>A step that touches no memory: the heap and the library's blocks are the same.\<close>

definition quiet :: "('w \<Rightarrow> nat set) \<Rightarrow> 'w rt \<Rightarrow> 'w rt \<Rightarrow> bool" where
  "quiet lib s s' \<longleftrightarrow> rt_heap s' = rt_heap s \<and> lib (rt_world s') = lib (rt_world s)"

lemma quiet_refl [simp]: "quiet lib s s"
  by (simp add: quiet_def)

lemma quiet_trans: "quiet lib s s' \<Longrightarrow> quiet lib s' s'' \<Longrightarrow> quiet lib s s''"
  by (simp add: quiet_def)

lemma quiet_step: "lib_inv lib s \<Longrightarrow> quiet lib s s' \<Longrightarrow> lib_step lib s s'"
  by (auto simp: lib_step_def quiet_def lib_inv_def program_blocks_def)

text \<open>The program's own allocations are steps too.\<close>

lemma alloc_step:
  assumes inv: "lib_inv lib s" and wf: "heap_wf hp" and le: "heap_le (rt_heap s) hp"
  shows "lib_step lib s (s\<lparr>rt_heap := hp\<rparr>)"
proof -
  have "h_blocks hp a = h_blocks (rt_heap s) a" if "a \<in> dom (h_blocks (rt_heap s))" for a
    using le that by (auto simp: heap_le_def)
  then show ?thesis
    using inv wf le by (auto simp: lib_step_def lib_inv_def program_blocks_def heap_le_def)
qed

text \<open>Giving back a block of the program keeps every other one.\<close>

lemma free_program_block:
  assumes inv: "lib_inv lib s" and a: "a \<in> program_blocks lib s"
  shows "free (Ptr a) (rt_heap s) = Inr (drop_blocks [a] (rt_heap s))"
    and "lib_inv lib (s\<lparr>rt_heap := drop_blocks [a] (rt_heap s)\<rparr>)"
    and "program_blocks lib (s\<lparr>rt_heap := drop_blocks [a] (rt_heap s)\<rparr>) = program_blocks lib s - {a}"
proof -
  show "free (Ptr a) (rt_heap s) = Inr (drop_blocks [a] (rt_heap s))"
    using free_drop [of "Ptr a" "rt_heap s"] a by (auto simp: program_blocks_def)
  show "lib_inv lib (s\<lparr>rt_heap := drop_blocks [a] (rt_heap s)\<rparr>)"
    using inv a drop_blocks_wf [of "rt_heap s" "[a]"]
    by (auto simp: lib_inv_def program_blocks_def split: if_splits)
  show "program_blocks lib (s\<lparr>rt_heap := drop_blocks [a] (rt_heap s)\<rparr>) = program_blocks lib s - {a}"
    by (auto simp: program_blocks_def split: if_splits)
qed

section \<open>Operations of the connection\<close>

lemma library_okD:
  assumes "library_ok lib P"
  shows "platform_ok P" and "connections_available P" and "heapless lib (api P)"
    and "respects_memory lib (api P)"
  using assms by (simp_all add: library_ok_def)

lemmas world_defs = on_world_def from_world_def rpc_result_def

lemma rpc_result_quiet:
  assumes "heapless lib (api P)" and "quiet lib s s1"
  shows "quiet lib s (snd (rpc_result P conn s1))"
  using assms by (simp add: quiet_def heapless_def world_defs split_beta)

lemma OpenChannel_quiet:
  assumes lib: "library_ok lib P" and inv: "conn_inv P c"
  shows "okr (OpenChannel P ch c s) (\<lambda>(r, s'). quiet lib s s' \<and> (r = ALL_GOOD \<longrightarrow> IsConnected c))"
proof (cases "IsConnected c")
  case True
  with inv obtain p where "handle (m_conn c) = Inr p" by (rule conn_inv_connectedE)
  with True library_okD(3) [OF lib] show ?thesis
    by (simp add: OpenChannel_def quiet_def heapless_def world_defs split_beta Let_def)
next
  case False
  then show ?thesis by (simp add: OpenChannel_def)
qed

lemma BindQueue_quiet:
  assumes lib: "library_ok lib P" and inv: "conn_inv P c" "IsConnected c"
    and q: "okr (deref_bytes (rt_heap s) q) (\<lambda>_. True)"
  shows "okr (BindQueue P ch q ex key c s) (\<lambda>(r, s'). quiet lib s s')"
proof -
  from inv obtain p where "handle (m_conn c) = Inr p" by (rule conn_inv_connectedE)
  with q library_okD(3) [OF lib] show ?thesis
    by (auto simp: BindQueue_def quiet_def heapless_def world_defs split_beta Let_def okr_def)
qed

lemma StartConsumption_quiet:
  assumes lib: "library_ok lib P" and inv: "conn_inv P c" "IsConnected c"
    and q: "okr (deref_bytes (rt_heap s) q) (\<lambda>_. True)"
  shows "okr (StartConsumption P ch q c s) (\<lambda>(r, s'). quiet lib s s')"
proof -
  from inv obtain p where "handle (m_conn c) = Inr p" by (rule conn_inv_connectedE)
  with q library_okD(3) [OF lib] show ?thesis
    by (auto simp: StartConsumption_def quiet_def heapless_def world_defs split_beta Let_def okr_def)
qed

lemma CloseConnection_quiet:
  assumes lib: "library_ok lib P" and inv: "conn_inv P c"
  shows "okr (CloseConnection P c s) (\<lambda>(r, c', s'). conn_inv P c' \<and> \<not> IsConnected c' \<and> quiet lib s s' \<and>
     r \<noteq> THREAD_NOT_RUNNING)"
proof (cases "IsConnected c")
  case True
  with inv obtain p where "handle (m_conn c) = Inr p" by (rule conn_inv_connectedE)
  with True inv library_okD(3) [OF lib] show ?thesis
    by (auto simp: CloseConnection_def conn_inv_def conn_simps quiet_def heapless_def world_defs
        split_beta Let_def)
next
  case False
  then have "setConnected False c = c" by (simp add: conn_simps)
  with False inv show ?thesis by (simp add: CloseConnection_def)
qed

lemma Connect_quiet:
  assumes lib: "library_ok lib P" and inv: "conn_inv P c" and r: "Connect P c s = Inr (r, c', s')"
  shows "quiet lib s s'"
proof -
  from inv have ssl: "\<not> m_isSSL c" by (simp add: conn_inv_def)
  have basic: "quiet lib s s1" if "connectBasic P c s = Inr (r1, c1, s1)" for r1 c1 s1
    using that library_okD(3) [OF lib]
    by (auto simp: connectBasic_def quiet_def heapless_def world_defs split_beta Let_def
        bindr_eq_Inr_iff split: if_splits)
  have login: "quiet lib s1 s2" if "login P c1 s1 = Inr (r2, s2)" for c1 s1 r2 s2
    using that library_okD(3) [OF lib]
    by (auto simp: login_def quiet_def heapless_def world_defs split_beta Let_def bindr_eq_Inr_iff)
  from r ssl show ?thesis
    by (auto simp: Connect_def bindr_eq_Inr_iff split_beta split: if_splits
        dest!: basic login intro: quiet_trans)
qed

lemma rt_update: "s\<lparr>rt_heap := hp, rt_world := w\<rparr> = \<lparr>rt_heap = hp, rt_world = w\<rparr>" for s :: "'w rt"
  by (cases s) simp

lemma respects_memoryD:
  assumes "library_ok lib P" and "lib_inv lib s"
  shows "amqp_consume_message (api P) c t fl (rt_heap s) (rt_world s) = (reply, e, hp, w) \<Longrightarrow>
      lib_step lib s (s\<lparr>rt_heap := hp, rt_world := w\<rparr>)"
    and "amqp_queue_declare (api P) c ch q p d ex a tb (rt_heap s) (rt_world s) = (r, hp, w) \<Longrightarrow>
      lib_step lib s (s\<lparr>rt_heap := hp, rt_world := w\<rparr>)"
    and "amqp_maybe_release_buffers (api P) c (rt_heap s) (rt_world s) = (hp, w) \<Longrightarrow>
      lib_step lib s (s\<lparr>rt_heap := hp, rt_world := w\<rparr>)"
    and "amqp_destroy_envelope (api P) env (rt_heap s) (rt_world s) = (hp, w) \<Longrightarrow>
      lib_step lib s (s\<lparr>rt_heap := hp, rt_world := w\<rparr>)"
proof -
  note m = library_okD(4) [OF assms(1), unfolded respects_memory_def]
  note m1 = m [THEN conjunct1] and m2 = m [THEN conjunct2, THEN conjunct1]
    and m3 = m [THEN conjunct2, THEN conjunct2, THEN conjunct1]
    and m4 = m [THEN conjunct2, THEN conjunct2, THEN conjunct2]
  show "amqp_consume_message (api P) c t fl (rt_heap s) (rt_world s) = (reply, e, hp, w) \<Longrightarrow>
      lib_step lib s (s\<lparr>rt_heap := hp, rt_world := w\<rparr>)"
    unfolding rt_update by (rule m1 [rule_format, OF assms(2)])
  show "amqp_queue_declare (api P) c ch q p d ex a tb (rt_heap s) (rt_world s) = (r, hp, w) \<Longrightarrow>
      lib_step lib s (s\<lparr>rt_heap := hp, rt_world := w\<rparr>)"
    unfolding rt_update by (rule m2 [rule_format, OF assms(2)])
  show "amqp_maybe_release_buffers (api P) c (rt_heap s) (rt_world s) = (hp, w) \<Longrightarrow>
      lib_step lib s (s\<lparr>rt_heap := hp, rt_world := w\<rparr>)"
    unfolding rt_update by (rule m3 [rule_format, OF assms(2)])
  show "amqp_destroy_envelope (api P) env (rt_heap s) (rt_world s) = (hp, w) \<Longrightarrow>
      lib_step lib s (s\<lparr>rt_heap := hp, rt_world := w\<rparr>)"
    unfolding rt_update by (rule m4 [rule_format, OF assms(2)])
qed

text \<open>A queue name that the program has copied: a block of its own that can be read.\<close>

definition own_name :: "('w \<Rightarrow> nat set) \<Rightarrow> 'w rt \<Rightarrow> amqp_bytes \<Rightarrow> nat \<Rightarrow> bool" where
  "own_name lib s b a \<longleftrightarrow>
     ab_bytes b = Ptr a \<and> a \<in> program_blocks lib s \<and> okr (deref_bytes (rt_heap s) b) (\<lambda>_. True)"

lemma own_name_step:
  assumes "own_name lib s b a" and "lib_step lib s s'"
  shows "own_name lib s' b a"
  using assms lib_stepD [OF assms(2)]
  by (auto simp: own_name_def deref_bytes_def load_bytes_def)

lemma dup_own_name:
  assumes lib: "library_ok lib P" and mem: "copies_succeed P" and inv: "lib_inv lib s"
    and b: "okr (deref_bytes (rt_heap s) b) (\<lambda>_. True)"
  shows "okr (amqp_bytes_malloc_dup (bapi P) b (rt_heap s)) (\<lambda>(b', hp).
     lib_step lib s (s\<lparr>rt_heap := hp\<rparr>) \<and>
     (\<exists>a. own_name lib (s\<lparr>rt_heap := hp\<rparr>) b' a \<and> h_next (rt_heap s) \<le> a))"
proof -
  from lib have B: "bytes_api_ok (bapi P)" by (simp add: library_ok_def platform_ok_def)
  from inv have wf: "heap_wf (rt_heap s)" by (simp add: lib_inv_def)
  from b obtain c t where c: "load_bytes (rt_heap s) b = Inr c" "chars c = Inr t"
    by (auto simp: okr_def deref_bytes_def bindr_eq_Inr_iff)
  from bytes_api_dup [OF B c(1)] obtain b' hp where
      d: "amqp_bytes_malloc_dup (bapi P) b (rt_heap s) = Inr (b', hp)" "dup_spec (rt_heap s) b c b' hp"
    by (auto simp: okr_def)
  from mem d(1) have nn: "ab_bytes b' \<noteq> Null" by (auto simp: copies_succeed_def)
  have step: "lib_step lib s (s\<lparr>rt_heap := hp\<rparr>)"
    using alloc_step [OF inv dup_spec_wf [OF wf d(2)] dup_spec_ext [OF wf d(2)]] .
  obtain a where a: "ab_bytes b' = Ptr a" "h_next (rt_heap s) \<le> a" "h_blocks hp a = Some c"
    using d(2) nn by (auto simp: dup_spec_def alloc_spec_def)
  have "deref_bytes hp b' = Inr t"
    using dup_spec_load [OF c(1) d(2) nn] c(2) by (simp add: deref_bytes_def)
  with a lib_inv_fresh(1) [OF inv a(2)] have "own_name lib (s\<lparr>rt_heap := hp\<rparr>) b' a"
    by (auto simp: own_name_def program_blocks_def)
  with step a(2) d(1) show ?thesis by auto
qed

lemma DeclareQueue_own:
  assumes lib: "consumer_library lib P" and inv: "conn_inv P c" "IsConnected c"
    and mem: "lib_inv lib s"
  shows "okr (DeclareQueue P ch qp q c s) (\<lambda>(r, q', s'). r = ALL_GOOD \<and> lib_step lib s s' \<and>
     (\<exists>b a. q' = Some b \<and> own_name lib s' b a \<and> h_next (rt_heap s) \<le> a))"
proof -
  from lib have l: "library_ok lib P" "queues_accepted P" "copies_succeed P"
    by (simp_all add: consumer_library_def)
  from inv obtain p where p: "handle (m_conn c) = Inr p" by (rule conn_inv_connectedE)
  obtain r hp w where decl: "amqp_queue_declare (api P) p (wire_channel ch)
      (amqp_empty_bytes (bapi P)) (m_passive qp) (m_durable qp) (m_exclusive qp) (m_autoDelete qp)
      (amqp_empty_table (bapi P)) (rt_heap s) (rt_world s) = (r, hp, w)"
    by (rule prod_cases3)
  let ?s1 = "s\<lparr>rt_heap := hp, rt_world := w\<rparr>"
  from l(2) decl obtain b where b: "r = Some b" "okr (deref_bytes hp b) (\<lambda>_. True)"
      and good: "decodeRpcReply (codes P) (fst (amqp_get_rpc_reply (api P) p w)) = ALL_GOOD"
    unfolding queues_accepted_def by blast
  obtain s2 where rpc: "rpc_result P p ?s1 = (ALL_GOOD, s2)"
    using good by (simp add: rpc_result_def from_world_def split_beta)
  have step1: "lib_step lib s ?s1" using respects_memoryD(2) [OF l(1) mem decl] .
  have q2: "quiet lib ?s1 s2"
    using rpc_result_quiet [OF library_okD(3) [OF l(1)] quiet_refl, of ?s1 p] rpc by simp
  have step2: "lib_step lib s s2"
    using lib_step_trans [OF step1 quiet_step [OF lib_stepD(1) [OF step1] q2]] .
  from q2 b(2) have "okr (deref_bytes (rt_heap s2) b) (\<lambda>_. True)" by (simp add: quiet_def)
  from dup_own_name [OF l(1,3) lib_stepD(1) [OF step2] this] obtain b' hp' a where
      d: "amqp_bytes_malloc_dup (bapi P) b (rt_heap s2) = Inr (b', hp')"
      "lib_step lib s2 (s2\<lparr>rt_heap := hp'\<rparr>)" "own_name lib (s2\<lparr>rt_heap := hp'\<rparr>) b' a"
      "h_next (rt_heap s2) \<le> a"
    by (auto simp: okr_def)
  have "h_next (rt_heap s) \<le> a" using lib_stepD(2) [OF step2] d(4) by simp
  with p decl rpc b d lib_step_trans [OF step2 d(2)] show ?thesis
    by (auto simp: DeclareQueue_def)
qed

lemma ConsumeMessage_step:
  assumes lib: "consumer_library lib P" and inv: "conn_inv P c" and mem: "lib_inv lib s"
  shows "okr (ConsumeMessage P None c s) (\<lambda>(r, e, s'). lib_step lib s s' \<and>
     (r = ALL_GOOD \<longrightarrow> (\<exists>env. e = Some env \<and> envelope_readable (flags P) (rt_heap s') env)))"
proof (cases "IsConnected c")
  case False
  with mem show ?thesis by (simp add: ConsumeMessage_def)
next
  case True
  from lib have l: "library_ok lib P" "envelopes_filled P" by (simp_all add: consumer_library_def)
  from inv True obtain p where p: "handle (m_conn c) = Inr p" by (rule conn_inv_connectedE)
  obtain reply e hp w where got: "amqp_consume_message (api P) p (m_timeout c) 0 (rt_heap s)
      (rt_world s) = (reply, e, hp, w)"
    by (rule prod_cases4)
  have "lib_step lib s (s\<lparr>rt_heap := hp, rt_world := w\<rparr>)" using respects_memoryD(1) [OF l(1) mem got] .
  moreover have "\<exists>env. e = Some env \<and> envelope_readable (flags P) hp env"
    if "decodeRpcReply (codes P) reply = ALL_GOOD"
    using l(2) got that unfolding envelopes_filled_def by blast
  ultimately show ?thesis using True p got by (auto simp: ConsumeMessage_def)
qed

end
