(* ===== verification/Consumer_Invariant.thy ===== *)
theory Consumer_Invariant
  imports Consumer Library_Memory
begin

text \<open>
  What the consumer owns. Besides the connection and the tables of the \<open>ChannelHandler\<close> the
  consumer keeps one kind of memory: the names of its queues, which it copies after each
  declaration, replaces after a reconnect and frees in the handler's destructor. The invariant
  says that it owns them, each once and none of them shared with the library; under the
  contract of theory \<open>Library_Memory\<close> every step of the worker thread keeps it, and none fails.
\<close>

section \<open>Ownership of the queue names\<close>

definition name_at :: "ChannelHandler \<Rightarrow> nat \<Rightarrow> ptr" where
  "name_at h i = (case ch_objs h i of None \<Rightarrow> Null | Some info \<Rightarrow> ab_bytes (ci_queueName info))"

abbreviation pair_count :: "ChannelHandler \<Rightarrow> nat" where
  "pair_count h \<equiv> length (m_bindingPairLookup h)"

definition names_ok :: "nat set \<Rightarrow> ChannelHandler \<Rightarrow> bool" where
  "names_ok blocks h \<longleftrightarrow>
     (\<forall>i < pair_count h. \<forall>a. name_at h i = Ptr a \<longrightarrow> a \<in> blocks) \<and>
     (\<forall>i < pair_count h. \<forall>j < pair_count h. \<forall>a. name_at h i = Ptr a \<longrightarrow> name_at h j = Ptr a \<longrightarrow> i = j)"

definition name_set :: "ChannelHandler \<Rightarrow> nat set" where
  "name_set h = {a. \<exists>i < pair_count h. name_at h i = Ptr a}"

text \<open>The blocks of the program that are not queue names: the consumer leaves them alone.\<close>

definition others_kept :: "('w \<Rightarrow> nat set) \<Rightarrow> Consumer \<Rightarrow> 'w rt \<Rightarrow> Consumer \<Rightarrow> 'w rt \<Rightarrow> bool" where
  "others_kept lib c s c' s' \<longleftrightarrow> (\<forall>a \<in> program_blocks lib s - name_set (m_channelHandler c).
     a \<in> program_blocks lib s' - name_set (m_channelHandler c') \<and>
     h_blocks (rt_heap s') a = h_blocks (rt_heap s) a)"

lemma others_kept_trans:
  "others_kept lib c s c1 s1 \<Longrightarrow> others_kept lib c1 s1 c2 s2 \<Longrightarrow> others_kept lib c s c2 s2"
  by (simp add: others_kept_def)

lemma others_kept_step:
  "lib_step lib s s' \<Longrightarrow> name_set (m_channelHandler c') = name_set (m_channelHandler c) \<Longrightarrow>
     others_kept lib c s c' s'"
  by (auto simp: others_kept_def lib_step_def)

lemma others_kept_quiet:
  "quiet lib s s' \<Longrightarrow> m_channelHandler c' = m_channelHandler c \<Longrightarrow> others_kept lib c s c' s'"
  by (auto simp: others_kept_def quiet_def program_blocks_def)

lemma names_ok_mono: "names_ok A h \<Longrightarrow> A \<subseteq> B \<Longrightarrow> names_ok B h"
  by (auto simp: names_ok_def)

lemma names_ok_init [simp]: "names_ok A ChannelHandler_init"
  by (simp add: names_ok_def ChannelHandler_init_def)

text \<open>Objects that keep their names, and new ones without a name.\<close>

lemma names_ok_cong:
  assumes "names_ok A h"
    and "\<And>i. i < pair_count h' \<Longrightarrow> name_at h' i = Null \<or> i < pair_count h \<and> name_at h' i = name_at h i"
  shows "names_ok A h'"
  using assms unfolding names_ok_def by (metis ptr.distinct(1))

lemma name_at_update:
  assumes "ch_objs h i = Some info" and "ci_queueName info' = ci_queueName info"
  shows "name_at (h\<lparr>ch_objs := (ch_objs h)(i \<mapsto> info')\<rparr>) j = name_at h j"
  using assms by (simp add: name_at_def)

lemma names_ok_Add:
  assumes inv: "handler_inv h" and ok: "names_ok A h"
    and add: "AddChannelProcessor bp cb h = Inr (r, h')"
  shows "names_ok A h'"
proof (cases "map_of (m_bindingPairLookup h) bp")
  case None
  with add AddChannelProcessor_new [OF inv None, of cb] show ?thesis
    by (intro names_ok_cong [OF ok]) (auto simp: name_at_def new_info_def less_Suc_eq)
next
  case (Some p)
  from AddChannelProcessor_known [OF inv Some, of cb] add obtain i info where
      "ch_objs h i = Some info"
      "h' = h\<lparr>ch_objs := (ch_objs h)(i \<mapsto> info\<lparr>ci_callback := Some cb\<rparr>)\<rparr>"
    by (auto simp: okr_def)
  then show ?thesis by (intro names_ok_cong [OF ok]) (auto simp: name_at_update)
qed

lemma names_ok_SetQueueProperties:
  assumes ok: "names_ok A h" and upd: "SetQueueProperties ch qp h = Inr h'"
  shows "names_ok A h'"
proof (cases "has_channel h ch")
  case False
  with ok upd show ?thesis by (simp add: SetQueueProperties_def)
next
  case True
  with upd obtain i info where "ch_objs h i = Some info"
      "h' = h\<lparr>ch_objs := (ch_objs h)(i \<mapsto> info\<lparr>ci_queueProperties := qp\<rparr>)\<rparr>"
    by (cases "channel_ref h ch") (auto simp: SetQueueProperties_def split: option.splits)
  then show ?thesis by (intro names_ok_cong [OF ok]) (auto simp: name_at_update)
qed

text \<open>What setting up a channel leaves alone in the handler.\<close>

definition same_tables :: "ChannelHandler \<Rightarrow> ChannelHandler \<Rightarrow> bool" where
  "same_tables h h' \<longleftrightarrow>
     m_bindingPairLookup h' = m_bindingPairLookup h \<and> m_channelLookup h' = m_channelLookup h \<and>
     m_nextAvailableChannel h' = m_nextAvailableChannel h \<and> m_multiThreaded h' = m_multiThreaded h \<and>
     callback_of h' = callback_of h"

lemma same_tables_refl [simp]: "same_tables h h"
  by (simp add: same_tables_def)

lemma same_tables_trans: "same_tables h h' \<Longrightarrow> same_tables h' h'' \<Longrightarrow> same_tables h h''"
  by (simp add: same_tables_def)

text \<open>The name of a channel in use is replaced by a new one and the old one freed.\<close>

lemma SetQueueName_ok:
  assumes B: "bytes_api_ok B" and inv: "handler_inv h" and mem: "lib_inv lib s"
    and ok: "names_ok (program_blocks lib s) h"
    and q: "own_name lib s q a" "\<And>i. i < pair_count h \<Longrightarrow> name_at h i \<noteq> Ptr a"
  shows "okr (SetQueueName B ch q h (rt_heap s)) (\<lambda>(h', hp). handler_inv h' \<and> same_tables h h' \<and>
     lib_inv lib (s\<lparr>rt_heap := hp\<rparr>) \<and> names_ok (program_blocks lib (s\<lparr>rt_heap := hp\<rparr>)) h' \<and>
     own_name lib (s\<lparr>rt_heap := hp\<rparr>) q a \<and> name_set h' \<subseteq> insert a (name_set h) \<and>
     (\<forall>x. x \<notin> name_set h \<longrightarrow> h_blocks hp x = h_blocks (rt_heap s) x))"
proof (cases "has_channel h ch")
  case False
  have "s\<lparr>rt_heap := rt_heap s\<rparr> = s" by (cases s) simp
  with False assms show ?thesis by (auto simp: SetQueueName_def)
next
  case True
  let ?f = "\<lambda>i. i\<lparr>ci_queueName := q\<rparr>"
  from inv True obtain i where i: "i < pair_count h" "channel_ref h ch = Ptr i"
    by (rule has_channelE)
  have "okr (info_update (Ptr i) ?f h) (\<lambda>h'. handler_inv h' \<and>
      (\<exists>info. ch_objs h i = Some info \<and> h' = h\<lparr>ch_objs := (ch_objs h)(i \<mapsto> ?f info)\<rparr>))"
    by (rule handler_inv_update [OF inv refl i(1)]) simp_all
  then obtain info where info: "ch_objs h i = Some info"
      and upd: "info_update (Ptr i) ?f h = Inr (h\<lparr>ch_objs := (ch_objs h)(i \<mapsto> ?f info)\<rparr>)"
      and inv': "handler_inv (h\<lparr>ch_objs := (ch_objs h)(i \<mapsto> ?f info)\<rparr>)"
    by (auto simp: okr_def)
  let ?h = "h\<lparr>ch_objs := (ch_objs h)(i \<mapsto> ?f info)\<rparr>"
  have st: "same_tables h ?h"
    using callback_of_frame [OF info, of "?f info"] by (simp add: same_tables_def)
  have at: "name_at ?h j = (if j = i then Ptr a else name_at h j)" for j
    using q(1) by (simp add: name_at_def own_name_def)
  have old: "name_at h i = ab_bytes (ci_queueName info)" by (simp add: name_at_def info)
  have ns: "name_set ?h \<subseteq> insert a (name_set h)" by (auto simp: name_set_def at split: if_splits)
  have names: "names_ok C ?h" if "a \<in> C"
      "\<And>j b. j < pair_count h \<Longrightarrow> j \<noteq> i \<Longrightarrow> name_at h j = Ptr b \<Longrightarrow> b \<in> C" for C
    using ok q(2) that by (auto simp: names_ok_def at split: if_splits)
  show ?thesis
  proof (cases "name_at h i")
    case Null
    have "s\<lparr>rt_heap := rt_heap s\<rparr> = s" by (cases s) simp
    moreover have "names_ok (program_blocks lib s) ?h"
      by (rule names) (use ok q(1) in \<open>auto simp: names_ok_def own_name_def\<close>)
    ultimately show ?thesis
      using True i info upd inv' st q(1) mem Null old ns
      by (simp add: SetQueueName_def bytes_api_free [OF B])
  next
    case (Ptr b)
    from ok i(1) Ptr have b: "b \<in> program_blocks lib s" by (auto simp: names_ok_def)
    note fr = free_program_block [OF mem b]
    from q(2) i(1) Ptr have ab: "a \<noteq> b" by auto
    have own: "own_name lib (s\<lparr>rt_heap := drop_blocks [b] (rt_heap s)\<rparr>) q a"
      using q(1) ab by (auto simp: own_name_def fr(3) deref_bytes_def load_bytes_def)
    have "names_ok (program_blocks lib s - {b}) ?h"
      by (rule names) (use ok q(1) ab i(1) Ptr in \<open>auto simp: names_ok_def own_name_def\<close>)
    moreover have "h_blocks (drop_blocks [b] (rt_heap s)) x = h_blocks (rt_heap s) x" if "x \<notin> name_set h" for x
      using that i(1) Ptr by (auto simp: name_set_def drop_blocks_def restrict_map_def)
    ultimately show ?thesis
      using True i info upd inv' st own fr Ptr old ns
      by (simp add: SetQueueName_def bytes_api_free [OF B])
  qed
qed

section \<open>Invariants\<close>

text \<open>
  No method of the consumer calls \<open>SetMultiThreaded\<close>, so callbacks always run in the worker thread.
\<close>

definition cons_inv :: "('w \<Rightarrow> nat set) \<Rightarrow> 'w platform \<Rightarrow> Consumer \<Rightarrow> 'w rt \<Rightarrow> bool" where
  "cons_inv lib P c s \<longleftrightarrow>
     consumer_library lib P \<and> lib_inv lib s \<and> handler_inv (m_channelHandler c) \<and>
     names_ok (program_blocks lib s) (m_channelHandler c) \<and> \<not> m_multiThreaded (m_channelHandler c) \<and>
     (m_isInitialized c \<longleftrightarrow> m_connection c \<noteq> None) \<and>
     (\<forall>k. m_connection c = Some k \<longrightarrow> conn_inv P k) \<and>
     (\<forall>ch \<in> set (m_pendingChannels c). has_channel (m_channelHandler c) ch)"

text \<open>The worker thread exists, and is inside its loop, exactly while the consumer runs.\<close>

definition cons_thread_inv :: "Consumer \<Rightarrow> bool" where
  "cons_thread_inv c \<longleftrightarrow>
     (m_threadRunning c \<longrightarrow> m_isInitialized c) \<and> (m_threadRunning c \<longleftrightarrow> m_consumerThread c \<noteq> None) \<and>
     m_consumerThread c \<noteq> Some C_Exited"

lemma cons_invD:
  assumes "cons_inv lib P c s"
  shows "consumer_library lib P" and "library_ok lib P" and "platform_ok P"
    and "bytes_api_ok (bapi P)" and "lib_inv lib s" and "handler_inv (m_channelHandler c)"
    and "names_ok (program_blocks lib s) (m_channelHandler c)"
  using assms by (simp_all add: cons_inv_def consumer_library_def library_ok_def platform_ok_def)

lemma cons_inv_connectionE:
  assumes "cons_inv lib P c s" and "m_isInitialized c"
  obtains k where "m_connection c = Some k" and "consumer_connection c = Inr k" and "conn_inv P k"
  using assms by (auto simp: cons_inv_def consumer_connection_def)

lemma cons_inv_step: "cons_inv lib P c s \<Longrightarrow> lib_step lib s s' \<Longrightarrow> cons_inv lib P c s'"
  by (auto simp: cons_inv_def lib_step_def intro: names_ok_mono dest: lib_step_blocks)

lemma cons_inv_quiet: "cons_inv lib P c s \<Longrightarrow> quiet lib s s' \<Longrightarrow> cons_inv lib P c s'"
  by (rule cons_inv_step) (auto simp: cons_inv_def intro: quiet_step)

lemma has_channel_tables: "same_tables h h' \<Longrightarrow> has_channel h' ch = has_channel h ch"
  by (simp add: same_tables_def has_channel_def)

text \<open>What a step of the worker thread leaves alone.\<close>

definition same_consumer :: "Consumer \<Rightarrow> Consumer \<Rightarrow> bool" where
  "same_consumer c c' \<longleftrightarrow>
     m_isInitialized c' = m_isInitialized c \<and> m_threadRunning c' = m_threadRunning c \<and>
     m_consumerThread c' = m_consumerThread c \<and> same_tables (m_channelHandler c) (m_channelHandler c')"

lemma same_consumer_refl [simp]: "same_consumer c c"
  by (simp add: same_consumer_def)

lemma same_consumer_trans: "same_consumer c c' \<Longrightarrow> same_consumer c' c'' \<Longrightarrow> same_consumer c c''"
  by (auto simp: same_consumer_def intro: same_tables_trans)

section \<open>Setting up a channel\<close>

lemma channel_infoE:
  assumes "handler_inv h" and "has_channel h ch"
  obtains info bp where "info_at h (channel_ref h ch) = Inr info" and "ci_bindingPair info = Some bp"
proof -
  from assms obtain i where i: "i < pair_count h" "channel_ref h ch = Ptr i" by (rule has_channelE)
  from assms(1) i(1) obtain info where "ch_objs h i = Some info"
      "ci_bindingPair info = Some (fst (m_bindingPairLookup h ! i))"
    by (rule handler_inv_entry)
  with i(2) that show thesis by simp
qed

lemma handler_getters_ok:
  assumes "handler_inv h"
  shows "\<exists>qp. GetQueueProperties ch h = Inr qp" and "\<exists>x. GetExchange ch h = Inr x"
    and "\<exists>x. GetBindingKey ch h = Inr x"
proof -
  have "(\<exists>qp. GetQueueProperties ch h = Inr qp) \<and> (\<exists>x. GetExchange ch h = Inr x) \<and>
      (\<exists>x. GetBindingKey ch h = Inr x)"
  proof (cases "has_channel h ch")
    case True
    with assms obtain info bp where "info_at h (channel_ref h ch) = Inr info"
        "ci_bindingPair info = Some bp"
      by (rule channel_infoE)
    with True show ?thesis
      by (simp add: GetQueueProperties_def GetExchange_def GetBindingKey_def)
  qed (simp add: GetQueueProperties_def GetExchange_def GetBindingKey_def)
  then show "\<exists>qp. GetQueueProperties ch h = Inr qp" and "\<exists>x. GetExchange ch h = Inr x"
    and "\<exists>x. GetBindingKey ch h = Inr x"
    by blast+
qed

lemma declareQueue_ok:
  assumes inv: "cons_inv lib P c s"
    and k: "consumer_connection c = Inr k" "conn_inv P k" "IsConnected k"
  shows "okr (declareQueue P ch q c s) (\<lambda>(r, q', c', s'). r = ALL_GOOD \<and> cons_inv lib P c' s' \<and>
     (\<exists>h. c' = c\<lparr>m_channelHandler := h\<rparr> \<and> same_tables (m_channelHandler c) h) \<and>
     (\<exists>b a. q' = Some b \<and> own_name lib s' b a) \<and> others_kept lib c s c' s')"
proof -
  note d = cons_invD [OF inv]
  obtain qp where qp: "GetQueueProperties ch (m_channelHandler c) = Inr qp"
    using handler_getters_ok(1) [OF d(6)] by blast
  from DeclareQueue_own [OF d(1) k(2,3) d(5), of ch qp q] obtain b a s1 where
      dq: "DeclareQueue P ch qp q k s = Inr (ALL_GOOD, Some b, s1)" "lib_step lib s s1"
      "own_name lib s1 b a" "h_next (rt_heap s) \<le> a"
    by (auto simp: okr_def)
  note d1 = cons_invD [OF cons_inv_step [OF inv dq(2)]]
  have fresh: "name_at (m_channelHandler c) i \<noteq> Ptr a" if "i < pair_count (m_channelHandler c)" for i
    using d(7) that lib_inv_fresh(2) [OF d(5) dq(4)] by (auto simp: names_ok_def)
  from SetQueueName_ok [OF d(4) d(6) d1(5,7) dq(3) fresh, of ch] obtain h hp where
      sq: "SetQueueName (bapi P) ch b (m_channelHandler c) (rt_heap s1) = Inr (h, hp)"
      "handler_inv h" "same_tables (m_channelHandler c) h" "lib_inv lib (s1\<lparr>rt_heap := hp\<rparr>)"
      "names_ok (program_blocks lib (s1\<lparr>rt_heap := hp\<rparr>)) h" "own_name lib (s1\<lparr>rt_heap := hp\<rparr>) b a"
      "name_set h \<subseteq> insert a (name_set (m_channelHandler c))"
      "\<And>x. x \<notin> name_set (m_channelHandler c) \<Longrightarrow> h_blocks hp x = h_blocks (rt_heap s1) x"
    by (auto simp: okr_def)
  have kept: "others_kept lib c s (c\<lparr>m_channelHandler := h\<rparr>) (s1\<lparr>rt_heap := hp\<rparr>)"
    using lib_stepD(3,4) [OF dq(2)] sq(7,8) lib_inv_fresh(2) [OF d(5) dq(4)]
    by (fastforce simp: others_kept_def program_blocks_def)
  obtain t where t: "hare_bytes_to_string (rt_heap s1) b = Inr t"
    using dq(3) by (auto simp: hare_bytes_to_string_deref own_name_def okr_def)
  have "cons_inv lib P (c\<lparr>m_channelHandler := h\<rparr>) (s1\<lparr>rt_heap := hp\<rparr>)"
    using inv sq has_channel_tables [OF sq(3)] by (simp add: cons_inv_def same_tables_def)
  with k qp dq sq t kept show ?thesis by (auto simp: declareQueue_def)
qed

lemma bindQueue_ok:
  assumes inv: "cons_inv lib P c s" and q: "own_name lib s b a"
    and k: "consumer_connection c = Inr k" "conn_inv P k" "IsConnected k"
  shows "okr (bindQueue P ch (Some b) c s) (\<lambda>(r, s'). quiet lib s s')"
proof -
  note d = cons_invD [OF inv]
  obtain ex key where "GetExchange ch (m_channelHandler c) = Inr ex"
      "GetBindingKey ch (m_channelHandler c) = Inr key"
    using handler_getters_ok(2,3) [OF d(6)] by blast
  moreover from q obtain t where "deref_bytes (rt_heap s) b = Inr t"
    by (auto simp: own_name_def okr_def)
  moreover from q have "okr (deref_bytes (rt_heap s) b) (\<lambda>_. True)" by (simp add: own_name_def)
  ultimately show ?thesis
    using BindQueue_quiet [OF d(2) k(2,3), of s b ch ex key] k(1)
    by (simp add: bindQueue_def hare_bytes_to_string_deref)
qed

lemma consume_ok:
  assumes inv: "cons_inv lib P c s" and q: "own_name lib s b a"
    and k: "consumer_connection c = Inr k" "conn_inv P k" "IsConnected k"
  shows "okr (consume P ch (Some b) c s) (\<lambda>(r, s'). quiet lib s s')"
  using StartConsumption_quiet [OF cons_invD(2) [OF inv] k(2,3), of s b ch] q k(1)
  by (simp add: consume_def own_name_def)

text \<open>
  Whatever the broker answers, a channel that is known is afterwards either set up or pending.
\<close>

definition setup_outcome :: "('w \<Rightarrow> nat set) \<Rightarrow> 'w platform \<Rightarrow> int list \<Rightarrow> Consumer \<Rightarrow>
    HARE_ERROR_E \<times> Consumer \<times> 'w rt \<Rightarrow> bool" where
  "setup_outcome lib P added c = (\<lambda>(r, c', s'). cons_inv lib P c' s' \<and> same_consumer c c' \<and>
     m_connection c' = m_connection c \<and> calls c' = calls c \<and>
     (\<exists>more. m_pendingChannels c' = m_pendingChannels c @ more \<and> set more \<subseteq> set added))"

lemma setupAndConsume_ok:
  assumes inv: "cons_inv lib P c s" and init: "m_isInitialized c"
    and ch: "has_channel (m_channelHandler c) ch"
  shows "okr (setupAndConsume P ch c s) (\<lambda>(r, c', s'). setup_outcome lib P [ch] c (r, c', s') \<and>
     m_pendingChannels c' = m_pendingChannels c @ (if r = ALL_GOOD then [] else [ch]) \<and>
     others_kept lib c s c' s')"
proof -
  from inv init obtain k where k: "m_connection c = Some k" "consumer_connection c = Inr k" "conn_inv P k"
    by (rule cons_inv_connectionE)
  from OpenChannel_quiet [OF cons_invD(2) [OF inv] k(3), of ch s] obtain r1 s1 where
      o: "openChannel P ch c s = Inr (r1, s1)" "quiet lib s s1" "r1 = ALL_GOOD \<Longrightarrow> IsConnected k"
    using k(2) by (auto simp: okr_def openChannel_def)
  have inv1: "cons_inv lib P c s1" using cons_inv_quiet [OF inv o(2)] .
  have fin: "setup_outcome lib P [ch] c (r, if \<not> noError r then pushIntoPendingChannels ch c2 else c2, s')"
    if "cons_inv lib P c2 s'" "c2 = c\<lparr>m_channelHandler := h\<rparr>" "same_tables (m_channelHandler c) h"
    for r c2 h s'
    using that ch has_channel_tables [OF that(3)]
    by (auto simp: setup_outcome_def same_consumer_def pushIntoPendingChannels_def cons_inv_def)
  show ?thesis
  proof (cases "r1 = ALL_GOOD")
    case False
    with o fin [OF inv1, of "m_channelHandler c" r1] others_kept_quiet [OF o(2)] show ?thesis
      by (simp add: setupAndConsume_def pushIntoPendingChannels_def)
  next
    case True
    with o(3) have con: "IsConnected k" by simp
    from declareQueue_ok [OF inv1 k(2,3) con, of ch None] obtain b a h s2 where
        dq: "declareQueue P ch None c s1 = Inr (ALL_GOOD, Some b, c\<lparr>m_channelHandler := h\<rparr>, s2)"
        "cons_inv lib P (c\<lparr>m_channelHandler := h\<rparr>) s2" "same_tables (m_channelHandler c) h"
        "own_name lib s2 b a" "others_kept lib c s1 (c\<lparr>m_channelHandler := h\<rparr>) s2"
      by (auto simp: okr_def)
    let ?c = "c\<lparr>m_channelHandler := h\<rparr>"
    have k2: "consumer_connection ?c = Inr k" using k(2) by (simp add: consumer_connection_def)
    from bindQueue_ok [OF dq(2,4) k2 k(3) con, of ch] obtain r3 s3 where
        b: "bindQueue P ch (Some b) ?c s2 = Inr (r3, s3)" "quiet lib s2 s3"
      by (auto simp: okr_def)
    have inv3: "cons_inv lib P ?c s3" using cons_inv_quiet [OF dq(2) b(2)] .
    have own3: "own_name lib s3 b a" using own_name_step [OF dq(4) quiet_step [OF cons_invD(5) [OF dq(2)] b(2)]] .
    from consume_ok [OF inv3 own3 k2 k(3) con, of ch] obtain r4 s4 where
        c4: "consume P ch (Some b) ?c s3 = Inr (r4, s4)" "quiet lib s3 s4"
      by (auto simp: okr_def)
    have inv4: "cons_inv lib P ?c s4" using cons_inv_quiet [OF inv3 c4(2)] .
    have kept: "others_kept lib c s c' t" if "quiet lib s2 t" "m_channelHandler c' = h" for c' t
      using others_kept_trans [OF others_kept_trans [OF others_kept_quiet [OF o(2) refl] dq(5)]
          others_kept_quiet [OF that(1)]] that(2) by simp
    from True o dq b c4 fin [OF inv3 refl dq(3), of r3] fin [OF inv4 refl dq(3), of r4]
      kept [OF b(2)] kept [OF quiet_trans [OF b(2) c4(2)]]
    show ?thesis
      by (cases "r3 = ALL_GOOD") (simp_all add: setupAndConsume_def pushIntoPendingChannels_def)
  qed
qed

section \<open>Connecting\<close>

lemma setup_outcome_trans:
  assumes "setup_outcome lib P as c (r, c1, s1)" and "setup_outcome lib P bs c1 x"
  shows "setup_outcome lib P (as @ bs) c x"
  using assms by (auto simp: setup_outcome_def intro: same_consumer_trans)

lemma setup_outcome_mono:
  "setup_outcome lib P as c x \<Longrightarrow> set as \<subseteq> set bs \<Longrightarrow> setup_outcome lib P bs c x"
  by (fastforce simp: setup_outcome_def)

lemma consumption_loop_ok:
  assumes "cons_inv lib P c s" and "m_isInitialized c"
    and "\<forall>ch \<in> set chs. has_channel (m_channelHandler c) ch"
  shows "okr (consumption_loop P chs r c s) (setup_outcome lib P chs c)"
  using assms
proof (induction chs arbitrary: r c s)
  case Nil
  then show ?case by (simp add: setup_outcome_def)
next
  case (Cons ch chs)
  from Cons.prems(3) have "has_channel (m_channelHandler c) ch" by simp
  from setupAndConsume_ok [OF Cons.prems(1,2) this] obtain r1 c1 s1 where
      st: "setupAndConsume P ch c s = Inr (r1, c1, s1)" "setup_outcome lib P [ch] c (r1, c1, s1)"
    by (auto simp: okr_def)
  show ?case
  proof (cases "serverFailure r1")
    case True
    with st setup_outcome_mono [OF st(2), of "ch # chs"] show ?thesis by simp
  next
    case False
    from st(2) have c1: "cons_inv lib P c1 s1" "same_consumer c c1"
      by (simp_all add: setup_outcome_def)
    have "okr (consumption_loop P chs r1 c1 s1) (setup_outcome lib P chs c1)"
      by (rule Cons.IH [OF c1(1)])
         (use Cons.prems c1(2) in \<open>auto simp: same_consumer_def has_channel_tables\<close>)
    with st False setup_outcome_trans [OF st(2)] show ?thesis by (auto simp: okr_def)
  qed
qed

lemma GetChannelList_known:
  assumes "permuting order" and "ch \<in> set (GetChannelList order h)"
  shows "has_channel h ch"
  using assms permuting_set [OF assms(1), of "keys (m_channelLookup h)"]
  by (auto simp: GetChannelList_def has_channel_def map_of_None_iff_keys split: if_splits)

lemma startConsumption_ok:
  assumes inv: "cons_inv lib P c s" and init: "m_isInitialized c"
  shows "okr (startConsumption P c s) (\<lambda>(r, c', s'). cons_inv lib P c' s' \<and> same_consumer c c' \<and>
     m_connection c' = m_connection c \<and> calls c' = calls c)"
proof -
  let ?c = "emptyPendingChannels c" and ?ord = "channel_order (runtime P) (rt_world s)"
  have inv0: "cons_inv lib P ?c s" using inv by (simp add: cons_inv_def emptyPendingChannels_def)
  have same: "same_consumer c ?c" "m_connection ?c = m_connection c" "calls ?c = calls c"
    "m_isInitialized ?c" "m_channelHandler ?c = m_channelHandler c"
    using init by (simp_all add: emptyPendingChannels_def same_consumer_def)
  have "permuting ?ord" using cons_invD(3) [OF inv] by (simp add: platform_ok_def runtime_ok_def)
  from GetChannelList_known [OF this]
  have "\<forall>ch \<in> set (GetChannelList ?ord (m_channelHandler c)). has_channel (m_channelHandler ?c) ch"
    by (simp add: same)
  from consumption_loop_ok [OF inv0 same(4) this, of ALL_GOOD] same show ?thesis
    by (auto simp: startConsumption_def okr_def setup_outcome_def intro: same_consumer_trans)
qed

lemma cons_inv_connection:
  assumes "cons_inv lib P c s" and "m_connection c = Some k" and "conn_inv P k'"
  shows "cons_inv lib P (c\<lparr>m_connection := Some k'\<rparr>) s"
  using assms by (auto simp: cons_inv_def)

lemma connectAndStartConsumption_ok:
  assumes inv: "cons_inv lib P c s" and init: "m_isInitialized c"
  shows "okr (connectAndStartConsumption P c s) (\<lambda>(r, c', s'). cons_inv lib P c' s' \<and>
     same_consumer c c' \<and> calls c' = calls c)"
proof -
  note lib = cons_invD(2) [OF inv]
  from inv init obtain k where k: "m_connection c = Some k" "consumer_connection c = Inr k" "conn_inv P k"
    by (rule cons_inv_connectionE)
  from Connect_ok [OF k(3), of s] obtain r1 k1 s1 where
      con: "Connect P k s = Inr (r1, k1, s1)" "conn_inv P k1"
    by (auto simp: okr_def)
  let ?c1 = "c\<lparr>m_connection := Some k1\<rparr>"
  have inv1: "cons_inv lib P ?c1 s1"
    using cons_inv_connection [OF cons_inv_quiet [OF inv Connect_quiet [OF lib k(3) con(1)]] k(1) con(2)] .
  have same1: "same_consumer c ?c1" by (simp add: same_consumer_def)
  show ?thesis
  proof (cases "r1 = ALL_GOOD")
    case False
    with k con inv1 same1 show ?thesis by (simp add: connectAndStartConsumption_def)
  next
    case True
    from startConsumption_ok [OF inv1] init obtain r2 c2 s2 where
        st: "startConsumption P ?c1 s1 = Inr (r2, c2, s2)" "cons_inv lib P c2 s2"
        "same_consumer ?c1 c2" "m_connection c2 = Some k1" "calls c2 = calls c"
      by (auto simp: okr_def)
    from CloseConnection_quiet [OF lib con(2), of s2] obtain r3 k3 s3 where
        cl: "CloseConnection P k1 s2 = Inr (r3, k3, s3)" "conn_inv P k3" "quiet lib s2 s3"
      by (auto simp: okr_def)
    have "cons_inv lib P (c2\<lparr>m_connection := Some k3\<rparr>) s3"
      using cons_inv_connection [OF cons_inv_quiet [OF st(2) cl(3)] st(4) cl(2)] .
    with True k con st cl same_consumer_trans [OF same1 st(3)] show ?thesis
      by (simp add: connectAndStartConsumption_def consumer_connection_def same_consumer_def)
  qed
qed

section \<open>Receiving\<close>

text \<open>The message object is given back after the envelope; its body is a block of the program.\<close>

lemma destroy_own_message:
  assumes inv: "lib_inv lib s" and st: "lib_step lib s s1" "lib_step lib s1 s3"
    and d: "dup_of (rt_heap s) (Some b) (rt_heap s1) (m_body m)" and set: "m_bodyHasBeenSet m"
    and w: "rt_world s1 = rt_world s"
  shows "okr (Message_destroy m (rt_heap s3)) (\<lambda>hp. lib_step lib s (s3\<lparr>rt_heap := hp\<rparr>))"
proof -
  note st13 = lib_step_trans [OF st]
  from d obtain b' c' where b': "m_body m = Some b'"
      "ab_bytes b' = Null \<or>
       (\<exists>a. ab_bytes b' = Ptr a \<and> h_next (rt_heap s) \<le> a \<and> h_blocks (rt_heap s1) a = Some c')"
    by (auto simp: dup_of_def)
  show ?thesis
  proof (cases "ab_bytes b'")
    case Null
    have "s3\<lparr>rt_heap := rt_heap s3\<rparr> = s3" by (cases s3) simp
    with Null b' set st13 show ?thesis by (simp add: Message_destroy_def)
  next
    case (Ptr a)
    with b'(2) have a: "h_next (rt_heap s) \<le> a" "h_blocks (rt_heap s1) a = Some c'" by auto
    note fresh = lib_inv_fresh [OF inv a(1)]
    have "a \<in> program_blocks lib s1" using a(2) fresh(1) w by (auto simp: program_blocks_def)
    then have a3: "a \<in> program_blocks lib s3" using lib_stepD(3) [OF st(2)] by blast
    note fr = free_program_block [OF lib_stepD(1) [OF st13] a3]
    have "lib_step lib s (s3\<lparr>rt_heap := drop_blocks [a] (rt_heap s3)\<rparr>)"
      using st13 fr(2,3) fresh(2) by (auto simp: lib_step_def drop_blocks_def restrict_map_def)
    with Ptr b'(1) set fr(1) show ?thesis by (simp add: Message_destroy_def)
  qed
qed

lemma handle_envelope_ok:
  assumes inv: "cons_inv lib P c s" and e: "envelope_readable (flags P) (rt_heap s) e"
  shows "okr (handle_envelope P (Some e) c s) (\<lambda>(c', s'). cons_inv lib P c' s' \<and> lib_step lib s s' \<and>
     (\<exists>more. c' = c\<lparr>calls := calls c @ more\<rparr> \<and> length more \<le> 1))"
proof -
  note d = cons_invD [OF inv]
  have wf: "heap_wf (rt_heap s)" using d(5) by (simp add: lib_inv_def)
  from e obtain b ex rk where ld: "load_bytes (rt_heap s) (env_body e) = Inr b"
      and ex: "deref_bytes (rt_heap s) (env_exchange e) = Inr ex"
      and rk: "deref_bytes (rt_heap s) (env_routing_key e) = Inr rk"
      and props: "props_readable (flags P) (rt_heap s) (env_properties e)"
    by (auto simp: envelope_readable_def okr_def deref_bytes_def bindr_eq_Inr_iff)
  from Message_envelope_ok [OF d(4) wf ld props] obtain m hp1 where
      m: "Message_envelope (flags P) (bapi P) e (rt_heap s) = Inr (m, hp1)" "heap_wf hp1"
      "heap_le (rt_heap s) hp1" "m_bodyHasBeenSet m"
      "dup_of (rt_heap s) (Some (env_body e)) hp1 (m_body m)"
    by (auto simp: okr_def)
  let ?s1 = "s\<lparr>rt_heap := hp1\<rparr>"
  have step1: "lib_step lib s ?s1" using alloc_step [OF d(5) m(2,3)] .
  obtain hp3 w where de: "amqp_destroy_envelope (api P) e hp1 (rt_world s) = (hp3, w)" by fastforce
  let ?s3 = "s\<lparr>rt_heap := hp3, rt_world := w\<rparr>"
  have step3: "lib_step lib ?s1 ?s3"
    using respects_memoryD(4) [OF d(2) lib_stepD(1) [OF step1], of e hp3 w] de by simp
  have "okr (Message_destroy m hp3) (\<lambda>hp4. lib_step lib s (?s3\<lparr>rt_heap := hp4\<rparr>))"
    using destroy_own_message [OF d(5) step1 step3 _ m(4)] m(5) by simp
  then obtain hp4 where d4: "Message_destroy m hp3 = Inr hp4" "lib_step lib s (?s3\<lparr>rt_heap := hp4\<rparr>)"
    by (auto simp: okr_def)
  have inl: "\<not> m_multiThreaded (m_channelHandler c)" using inv by (simp add: cons_inv_def)
  obtain call where pr: "(if ab_len (env_exchange e) = 0 then Inr (None, hp1)
      else bindr (deref_bytes hp1 (env_exchange e)) (\<lambda>exchange.
           bindr (deref_bytes hp1 (env_routing_key e)) (\<lambda>routing_key.
           Process (flags P) (bapi P) \<lparr>m_exchangeName = exchange, m_routingKey = routing_key\<rparr> m
             (m_channelHandler c) hp1))) = Inr (call, hp1)"
    using heap_le_deref_bytes [OF m(3) ex] heap_le_deref_bytes [OF m(3) rk]
      Process_inline [OF d(6) inl] by (cases "ab_len (env_exchange e) = 0") auto
  let ?more = "case call of None \<Rightarrow> [] | Some f \<Rightarrow> [f]"
  have run: "handle_envelope P (Some e) c s =
      Inr (c\<lparr>calls := calls c @ ?more\<rparr>, s\<lparr>rt_heap := hp4, rt_world := w\<rparr>)"
    using m(1) de d4(1) by (simp add: handle_envelope_def pr del: if_split)
  have "?s3\<lparr>rt_heap := hp4\<rparr> = s\<lparr>rt_heap := hp4, rt_world := w\<rparr>" by (cases s) simp
  with d4(2) have st: "lib_step lib s (s\<lparr>rt_heap := hp4, rt_world := w\<rparr>)" by simp
  have "cons_inv lib P (c\<lparr>calls := calls c @ ?more\<rparr>) (s\<lparr>rt_heap := hp4, rt_world := w\<rparr>)"
    using cons_inv_step [OF inv st] by (simp add: cons_inv_def)
  moreover have "length ?more \<le> 1" by (cases call) simp_all
  ultimately show ?thesis unfolding run using st by auto
qed

text \<open>
  What \<open>pullNextMessage\<close> comes down to on an open connection: the library releases its buffers and
  answers, and the code of the answer decides what is done with the envelope.
\<close>

definition pulled :: "'w platform \<Rightarrow> ConnectionBase \<Rightarrow> HARE_ERROR_E \<Rightarrow> amqp_envelope option \<Rightarrow>
    Consumer \<Rightarrow> 'w rt \<Rightarrow> (Consumer \<times> 'w rt) res" where
  "pulled P k ret envelope c s =
     (if ret = ALL_GOOD then handle_envelope P envelope c s
      else if serverFailure ret \<and> Consumer_IsRunning c
      then bindr (CloseConnection P k s) (\<lambda>(_, k1, s1). Inr (c\<lparr>m_connection := Some k1\<rparr>, s1))
      else Inr (c, s))"

lemma pull_connectedE:
  assumes inv: "cons_inv lib P c s" and k: "consumer_connection c = Inr k" "conn_inv P k" "IsConnected k"
  obtains p hp w reply e hp1 w1 where
    "amqp_maybe_release_buffers (api P) p (rt_heap s) (rt_world s) = (hp, w)"
    "amqp_consume_message (api P) p (m_timeout k) 0 hp w = (reply, e, hp1, w1)"
    "lib_step lib s (s\<lparr>rt_heap := hp1, rt_world := w1\<rparr>)"
    "decodeRpcReply (codes P) reply = ALL_GOOD \<longrightarrow>
       (\<exists>env. e = Some env \<and> envelope_readable (flags P) hp1 env)"
    "pullNextMessage P c s = pulled P k (decodeRpcReply (codes P) reply) e c (s\<lparr>rt_heap := hp1, rt_world := w1\<rparr>)"
proof -
  from k(2,3) obtain p where p: "handle (m_conn k) = Inr p" by (rule conn_inv_connectedE)
  obtain hp w where rel: "amqp_maybe_release_buffers (api P) p (rt_heap s) (rt_world s) = (hp, w)"
    by fastforce
  obtain reply e hp1 w1 where got: "amqp_consume_message (api P) p (m_timeout k) 0 hp w = (reply, e, hp1, w1)"
    by (rule prod_cases4)
  let ?s0 = "s\<lparr>rt_heap := hp, rt_world := w\<rparr>" and ?s1 = "s\<lparr>rt_heap := hp1, rt_world := w1\<rparr>"
    and ?r = "decodeRpcReply (codes P) reply"
  have st0: "lib_step lib s ?s0"
    using respects_memoryD(3) [OF cons_invD(2) [OF inv] cons_invD(5) [OF inv] rel] .
  have cm: "ConsumeMessage P None k ?s0 = Inr (?r, e, ?s1)"
    using k(3) p got by (simp add: ConsumeMessage_def Connection_def split: option.split)
  from ConsumeMessage_step [OF cons_invD(1) [OF inv] k(2) lib_stepD(1) [OF st0]] cm
  have st: "lib_step lib ?s0 ?s1"
      and rd: "?r = ALL_GOOD \<longrightarrow> (\<exists>env. e = Some env \<and> envelope_readable (flags P) hp1 env)"
    by (auto simp: okr_def)
  show thesis
    by (rule that [OF rel got lib_step_trans [OF st0 st] rd])
       (use k p rel cm in \<open>simp add: pullNextMessage_def pulled_def Connection_def\<close>)
qed

lemma pullNextMessage_ok:
  assumes inv: "cons_inv lib P c s" and init: "m_isInitialized c"
  shows "okr (pullNextMessage P c s) (\<lambda>(c', s'). cons_inv lib P c' s' \<and> same_consumer c c' \<and> lib_step lib s s' \<and>
     m_channelHandler c' = m_channelHandler c \<and> (\<exists>more. calls c' = calls c @ more \<and> length more \<le> 1))"
proof -
  from inv init obtain k where k: "m_connection c = Some k" "consumer_connection c = Inr k" "conn_inv P k"
    by (rule cons_inv_connectionE)
  show ?thesis
  proof (cases "IsConnected k")
    case False
    with inv k cons_invD(5) [OF inv] show ?thesis by (auto simp: pullNextMessage_def)
  next
    case True
    from inv k(2,3) True obtain p hp w reply e hp1 w1 where
        rel: "amqp_maybe_release_buffers (api P) p (rt_heap s) (rt_world s) = (hp, w)"
        and got: "amqp_consume_message (api P) p (m_timeout k) 0 hp w = (reply, e, hp1, w1)"
        and st1: "lib_step lib s (s\<lparr>rt_heap := hp1, rt_world := w1\<rparr>)"
        and rd: "decodeRpcReply (codes P) reply = ALL_GOOD \<longrightarrow>
          (\<exists>env. e = Some env \<and> envelope_readable (flags P) hp1 env)"
        and pull: "pullNextMessage P c s = pulled P k (decodeRpcReply (codes P) reply) e c (s\<lparr>rt_heap := hp1, rt_world := w1\<rparr>)"
      by (rule pull_connectedE)
    let ?s1 = "s\<lparr>rt_heap := hp1, rt_world := w1\<rparr>"
    have inv1: "cons_inv lib P c (s\<lparr>rt_heap := hp1, rt_world := w1\<rparr>)"
      using cons_inv_step [OF inv st1] .
    from CloseConnection_quiet [OF cons_invD(2) [OF inv] k(3), of ?s1] obtain r2 k2 s2 where
        cl: "CloseConnection P k ?s1 = Inr (r2, k2, s2)" "conn_inv P k2" "quiet lib ?s1 s2"
      by (auto simp: okr_def)
    have inv2: "cons_inv lib P (c\<lparr>m_connection := Some k2\<rparr>) s2"
      using cons_inv_connection [OF cons_inv_quiet [OF inv1 cl(3)] k(1) cl(2)] .
    have frame: "same_consumer c (c\<lparr>calls := x\<rparr>)" "same_consumer c (c\<lparr>m_connection := y\<rparr>)" for x y
      by (simp_all add: same_consumer_def)
    show ?thesis
    proof (cases "decodeRpcReply (codes P) reply = ALL_GOOD")
      case True
      with rd obtain env where env: "e = Some env" "envelope_readable (flags P) (rt_heap ?s1) env" by auto
      from handle_envelope_ok [OF inv1 env(2)] True env(1) frame(1) show ?thesis
        unfolding pull pulled_def by (auto simp: okr_def intro: lib_step_trans [OF st1])
    next
      case False
      have "lib_step lib ?s1 s2" using quiet_step [OF lib_stepD(1) [OF st1] cl(3)] .
      with False inv1 inv2 cl(1) frame(2) lib_step_trans [OF st1] st1 show ?thesis
        unfolding pull pulled_def by auto
    qed
  qed
qed

section \<open>The worker thread\<close>

definition cons_rank :: "consumer_pc \<Rightarrow> nat" where
  "cons_rank pc = (case pc of C_Exited \<Rightarrow> 0 | C_Loop \<Rightarrow> 1 | C_Pending \<Rightarrow> 2 | C_Pull \<Rightarrow> 3 | C_Connect \<Rightarrow> 4)"

definition cons_moved :: "consumer_pc \<Rightarrow> Consumer \<Rightarrow> Consumer \<Rightarrow> bool" where
  "cons_moved pc c c' \<longleftrightarrow>
     same_consumer c (c'\<lparr>m_consumerThread := m_consumerThread c\<rparr>) \<and>
     (\<exists>pc'. m_consumerThread c' = Some pc' \<and>
        (m_threadRunning c \<and> pc \<noteq> C_Exited \<longrightarrow> pc' \<noteq> C_Exited) \<and>
        (\<not> m_threadRunning c \<longrightarrow> cons_rank pc' \<le> cons_rank pc - 1))"

lemma cons_inv_at [simp]: "cons_inv lib P (consumer_at pc c) s = cons_inv lib P c s"
  by (simp add: cons_inv_def consumer_at_def)

lemma cons_moved_at:
  assumes "same_consumer c c'" and "pc' \<noteq> C_Exited"
    and "\<not> m_threadRunning c \<Longrightarrow> cons_rank pc' \<le> cons_rank pc - 1"
  shows "cons_moved pc c (consumer_at pc' c')"
  using assms by (auto simp: cons_moved_def same_consumer_def consumer_at_def)

lemma pending_nonempty: "pendingChannelSize c \<noteq> 0 \<Longrightarrow> m_pendingChannels c \<noteq> []"
  by (auto simp: pendingChannelSize_def)

lemma Consumer_thread_step_ok:
  assumes inv: "cons_inv lib P c s" and pc: "m_consumerThread c = Some pc" and init: "m_isInitialized c"
  shows "okr (Consumer_thread_step P pc c s) (\<lambda>(c', s'). cons_inv lib P c' s' \<and> cons_moved pc c c')"
proof (cases pc)
  case C_Loop
  from inv init obtain k where "consumer_connection c = Inr k" by (rule cons_inv_connectionE)
  with C_Loop inv show ?thesis
    by (simp add: Consumer_thread_step_def cons_moved_at cons_rank_def Consumer_IsRunning_def)
       (simp add: cons_moved_def same_consumer_def consumer_at_def cons_rank_def)
next
  case C_Exited
  with inv pc show ?thesis
    by (simp add: Consumer_thread_step_def cons_moved_def same_consumer_def cons_rank_def)
next
  case C_Connect
  from connectAndStartConsumption_ok [OF inv init] obtain r c1 s1 where
      "connectAndStartConsumption P c s = Inr (r, c1, s1)" "cons_inv lib P c1 s1" "same_consumer c c1"
    by (auto simp: okr_def)
  with C_Connect show ?thesis by (simp add: Consumer_thread_step_def cons_moved_at cons_rank_def)
next
  case C_Pull
  from pullNextMessage_ok [OF inv init] obtain c1 s1 where
      "pullNextMessage P c s = Inr (c1, s1)" "cons_inv lib P c1 s1" "same_consumer c c1"
    by (auto simp: okr_def)
  with C_Pull show ?thesis by (simp add: Consumer_thread_step_def cons_moved_at cons_rank_def)
next
  case C_Pending
  show ?thesis
  proof (cases "pendingChannelSize c = 0")
    case True
    with C_Pending inv show ?thesis by (simp add: Consumer_thread_step_def cons_moved_at cons_rank_def)
  next
    case False
    then obtain ch chs where p: "m_pendingChannels c = ch # chs"
      using pending_nonempty [of c] by (cases "m_pendingChannels c") auto
    let ?c = "c\<lparr>m_pendingChannels := chs\<rparr>"
    have "cons_inv lib P ?c s" "m_isInitialized ?c" "has_channel (m_channelHandler ?c) ch"
      using inv init p by (simp_all add: cons_inv_def)
    from setupAndConsume_ok [OF this] obtain r c2 s2 where
        st: "setupAndConsume P ch ?c s = Inr (r, c2, s2)" "cons_inv lib P c2 s2" "same_consumer ?c c2"
      by (auto simp: okr_def setup_outcome_def)
    have "same_consumer c c2" using st(3) by (simp add: same_consumer_def)
    with C_Pending False p st show ?thesis
      by (simp add: Consumer_thread_step_def popNextPendingChannel_def cons_moved_at cons_rank_def)
  qed
qed

lemma run_consumer_ok:
  assumes "cons_inv lib P c s" and "m_consumerThread c = Some pc" and "m_isInitialized c"
    and "\<not> m_threadRunning c" and "cons_rank pc \<le> n"
  shows "okr (run_consumer P n c s) (\<lambda>(c', s'). cons_inv lib P c' s' \<and>
     m_consumerThread c' = Some C_Exited \<and>
     same_consumer c (c'\<lparr>m_consumerThread := m_consumerThread c\<rparr>))"
  using assms
proof (induction n arbitrary: c s pc)
  case 0
  then have "pc = C_Exited" by (cases pc) (simp_all add: cons_rank_def)
  with 0 show ?case by (simp add: same_consumer_def)
next
  case (Suc n)
  from Consumer_thread_step_ok [OF Suc.prems(1-3)] obtain c1 s1 where
      st: "Consumer_thread_step P pc c s = Inr (c1, s1)" "cons_inv lib P c1 s1" "cons_moved pc c c1"
    by (auto simp: okr_def)
  from st(3) Suc.prems(4) obtain pc' where pc': "m_consumerThread c1 = Some pc'"
      "cons_rank pc' \<le> cons_rank pc - 1"
      and sh: "same_consumer c (c1\<lparr>m_consumerThread := m_consumerThread c\<rparr>)"
    by (auto simp: cons_moved_def)
  have "okr (run_consumer P n c1 s1) (\<lambda>(c', s'). cons_inv lib P c' s' \<and>
      m_consumerThread c' = Some C_Exited \<and>
      same_consumer c1 (c'\<lparr>m_consumerThread := m_consumerThread c1\<rparr>))"
    by (rule Suc.IH [OF st(2) pc'(1)]) (use sh Suc.prems(3-5) pc'(2) in \<open>auto simp: same_consumer_def\<close>)
  with st(1) Suc.prems(2) sh show ?case
    by (auto simp: okr_def same_consumer_def intro: same_tables_trans)
qed

end
