(* ===== verification/Consumer_Subscription.thy ===== *)
theory Consumer_Subscription
  imports Consumer_Invariant
begin

text \<open>
  \<open>Subscribe\<close> takes no lock of its own. It is a sequence of three steps, each under a lock of the
  object it works on: registering the binding with the channel handler, setting the properties of
  the queue, and handing the channel to the worker thread when that is running. The steps are
  definitions of their own here, \<open>Subscribe\<close> is their sequence, and what holds of \<open>Subscribe\<close> is
  proved from what holds of each of them. Theory \<open>Consumer_Interleaving\<close> lets other activity
  happen between them.
\<close>

section \<open>The steps\<close>

definition subscribe_register ::
    "string \<Rightarrow> string \<Rightarrow> TD_Callback \<Rightarrow> Consumer \<Rightarrow> ((HARE_ERROR_E + int) \<times> Consumer) res" where
  "subscribe_register exchange binding_key f c =
     (if \<not> Consumer_IsInitialized c then Inr (Inl NOT_INITIALIZED, c)
      else
        bindr (AddChannelProcessor \<lparr>m_exchangeName = exchange, m_routingKey = binding_key\<rparr> f
                 (m_channelHandler c)) (\<lambda>(channel, h).
        Inr (if channel = - 1 then Inl UNABLE_TO_SUBSCRIBE else Inr channel,
             c\<lparr>m_channelHandler := h\<rparr>)))"

definition subscribe_configure :: "int \<Rightarrow> queueProperties \<Rightarrow> Consumer \<Rightarrow> Consumer res" where
  "subscribe_configure channel queueProps c =
     bindr (SetQueueProperties channel queueProps (m_channelHandler c)) (\<lambda>h.
     Inr (c\<lparr>m_channelHandler := h\<rparr>))"

definition subscribe_push :: "int \<Rightarrow> Consumer \<Rightarrow> Consumer" where
  "subscribe_push channel c = (if Consumer_IsRunning c then pushIntoPendingChannels channel c else c)"

lemma Subscribe_phases:
  "Subscribe ex key f qp c =
     bindr (subscribe_register ex key f c) (\<lambda>(x, c1).
       case x of
         Inl e \<Rightarrow> Inr (e, c1)
       | Inr ch \<Rightarrow> bindr (subscribe_configure ch qp c1) (\<lambda>c2. Inr (ALL_GOOD, subscribe_push ch c2)))"
proof (cases "Consumer_IsInitialized c")
  case True
  then show ?thesis
    by (cases "AddChannelProcessor \<lparr>m_exchangeName = ex, m_routingKey = key\<rparr> f (m_channelHandler c)")
       (auto simp: Subscribe_def subscribe_register_def subscribe_configure_def subscribe_push_def Let_def
         bindr_assoc)
qed (simp add: Subscribe_def subscribe_register_def)

section \<open>What the channel handler keeps\<close>

lemma Add_frame:
  assumes inv: "handler_inv h" and add: "AddChannelProcessor bp cb h = Inr (r, h')"
  shows "m_multiThreaded h' = m_multiThreaded h" and "has_channel h ch \<Longrightarrow> has_channel h' ch"
proof -
  have "m_multiThreaded h' = m_multiThreaded h \<and> (has_channel h ch \<longrightarrow> has_channel h' ch)"
  proof (cases "map_of (m_bindingPairLookup h) bp")
    case None
    with add AddChannelProcessor_new [OF inv None, of cb] show ?thesis
      by (auto simp: has_channel_def map_add_def split: option.splits)
  next
    case (Some p)
    with AddChannelProcessor_known [OF inv Some, of cb] add show ?thesis
      by (auto simp: okr_def has_channel_def)
  qed
  then show "m_multiThreaded h' = m_multiThreaded h" and "has_channel h ch \<Longrightarrow> has_channel h' ch"
    by simp_all
qed

lemma SetQueueProperties_frame:
  assumes "SetQueueProperties ch qp h = Inr h'"
  shows "m_multiThreaded h' = m_multiThreaded h" and "has_channel h' c = has_channel h c"
  using assms
  by (cases "channel_ref h ch"; auto simp: SetQueueProperties_def has_channel_def split: if_splits option.splits)+

text \<open>Registering adds at most the channel that \<open>AddChannelProcessor\<close> returned.\<close>

lemma Add_channels:
  assumes inv: "handler_inv h" and add: "AddChannelProcessor bp cb h = Inr (r, h')"
    and ch: "has_channel h' d"
  shows "has_channel h d \<or> d = r \<and> r \<noteq> - 1"
proof (cases "map_of (m_bindingPairLookup h) bp")
  case None
  have "m_nextAvailableChannel h = int (pair_count h) + 1"
    using inv by (simp add: handler_inv_def Let_def)
  with None add ch AddChannelProcessor_new [OF inv None, of cb] show ?thesis
    by (auto simp: has_channel_def map_add_def split: option.splits if_splits)
next
  case (Some p)
  with AddChannelProcessor_known [OF inv Some, of cb] add ch show ?thesis
    by (auto simp: okr_def has_channel_def)
qed

section \<open>What the steps keep\<close>

text \<open>A step of \<open>Subscribe\<close> works on the channel handler and the pending channels only.\<close>

definition handler_step :: "Consumer \<Rightarrow> Consumer \<Rightarrow> bool" where
  "handler_step c c' \<longleftrightarrow>
     m_isInitialized c' = m_isInitialized c \<and> m_threadRunning c' = m_threadRunning c \<and>
     m_connection c' = m_connection c \<and> m_consumerThread c' = m_consumerThread c \<and>
     (\<forall>ch. has_channel (m_channelHandler c) ch \<longrightarrow> has_channel (m_channelHandler c') ch) \<and>
     set (m_pendingChannels c) \<subseteq> set (m_pendingChannels c') \<and> calls c' = calls c"

lemma handler_step_trans: "handler_step c c' \<Longrightarrow> handler_step c' c'' \<Longrightarrow> handler_step c c''"
  by (auto simp: handler_step_def)

lemma handler_step_thread: "handler_step c c' \<Longrightarrow> cons_thread_inv c' = cons_thread_inv c"
  by (simp add: handler_step_def cons_thread_inv_def)

lemma register_ok:
  assumes inv: "cons_inv lib P c s" and room: "m_nextAvailableChannel (m_channelHandler c) < INT_MAX"
  shows "okr (subscribe_register ex key f c) (\<lambda>(x, c'). cons_inv lib P c' s \<and> handler_step c c' \<and>
     (\<forall>ch. x = Inr ch \<longrightarrow> has_channel (m_channelHandler c') ch) \<and>
     (\<forall>d. has_channel (m_channelHandler c') d \<longrightarrow> has_channel (m_channelHandler c) d \<or> x = Inr d) \<and>
     m_pendingChannels c' = m_pendingChannels c)"
proof (cases "m_isInitialized c")
  case False
  with inv show ?thesis by (simp add: subscribe_register_def Consumer_IsInitialized_def handler_step_def)
next
  case True
  let ?h = "m_channelHandler c" and ?bp = "\<lparr>m_exchangeName = ex, m_routingKey = key\<rparr>"
  note d = cons_invD [OF inv]
  from AddChannelProcessor_ok [OF d(6) room, of ?bp f] obtain ch h1 where
      add: "AddChannelProcessor ?bp f ?h = Inr (ch, h1)" "handler_inv h1"
      "ch = (if callback_of ?h ?bp = None then m_nextAvailableChannel ?h else - 1)"
    by (auto simp: okr_def)
  note frame = Add_frame [OF d(6) add(1)]
  have "cons_inv lib P (c\<lparr>m_channelHandler := h1\<rparr>) s"
    using inv add(2) names_ok_Add [OF d(6,7) add(1)] frame by (simp add: cons_inv_def)
  moreover have "has_channel h1 ch" if "ch \<noteq> - 1"
    using that add(3) added_channel(3) [OF d(6) room _ add(1)] by (auto split: if_splits)
  ultimately show ?thesis
    using True add(1) frame Add_channels [OF d(6) add(1)]
    by (auto simp: subscribe_register_def Consumer_IsInitialized_def handler_step_def)
qed

lemma configure_ok:
  assumes inv: "cons_inv lib P c s" and ch: "has_channel (m_channelHandler c) ch"
  shows "okr (subscribe_configure ch qp c) (\<lambda>c'. cons_inv lib P c' s \<and> handler_step c c' \<and>
     (\<forall>d. has_channel (m_channelHandler c') d = has_channel (m_channelHandler c) d) \<and>
     m_pendingChannels c' = m_pendingChannels c)"
proof -
  from SetQueueProperties_ok [OF cons_invD(6) [OF inv] ch, of qp] obtain h where
      h: "SetQueueProperties ch qp (m_channelHandler c) = Inr h" "handler_inv h"
    by (auto simp: okr_def)
  note frame = SetQueueProperties_frame [OF h(1)]
  have "cons_inv lib P (c\<lparr>m_channelHandler := h\<rparr>) s"
    using inv h names_ok_SetQueueProperties [OF cons_invD(7) [OF inv] h(1)] frame
    by (simp add: cons_inv_def)
  with h(1) frame show ?thesis by (simp add: subscribe_configure_def handler_step_def)
qed

lemma push_ok:
  assumes "cons_inv lib P c s" and "has_channel (m_channelHandler c) ch"
  shows "cons_inv lib P (subscribe_push ch c) s" and "handler_step c (subscribe_push ch c)"
    and "m_channelHandler (subscribe_push ch c) = m_channelHandler c"
    and "m_threadRunning c \<Longrightarrow> ch \<in> set (m_pendingChannels (subscribe_push ch c))"
  using assms
  by (auto simp: subscribe_push_def Consumer_IsRunning_def pushIntoPendingChannels_def cons_inv_def
      handler_step_def)

lemma Subscribe_ok:
  assumes inv: "cons_inv lib P c s" and room: "m_nextAvailableChannel (m_channelHandler c) < INT_MAX"
  shows "okr (Subscribe ex key f qp c) (\<lambda>(r, c'). cons_inv lib P c' s \<and> handler_step c c')"
proof -
  from register_ok [OF inv room, of ex key f] obtain x c1 where
      reg: "subscribe_register ex key f c = Inr (x, c1)" "cons_inv lib P c1 s" "handler_step c c1"
      "\<forall>ch. x = Inr ch \<longrightarrow> has_channel (m_channelHandler c1) ch"
    by (auto simp: okr_def)
  show ?thesis
  proof (cases x)
    case (Inl e)
    with reg show ?thesis by (simp add: Subscribe_phases)
  next
    case (Inr ch)
    with reg(4) have "has_channel (m_channelHandler c1) ch" by simp
    from configure_ok [OF reg(2) this, of qp] this obtain c2 where
        conf: "subscribe_configure ch qp c1 = Inr c2" "cons_inv lib P c2 s" "handler_step c1 c2"
        "has_channel (m_channelHandler c2) ch"
      by (auto simp: okr_def)
    note push = push_ok [OF conf(2,4)]
    have "handler_step c (subscribe_push ch c2)"
      using reg(3) conf(3) push(2) by (blast intro: handler_step_trans)
    with reg(1) Inr conf(1) push(1) show ?thesis by (simp add: Subscribe_phases)
  qed
qed

end
