(* ===== verification/Reference_Library.thy ===== *)
theory Reference_Library
  imports Library_Memory
begin

text \<open>
  An instance of the contract of theory \<open>Library_Memory\<close>, on which the witnesses for the consumer
  run: copies always find memory, every queue gets a generated name, and each announced delivery
  arrives in three blocks of its own. Requests to consume and deliveries are recorded with what
  is published.
\<close>

section \<open>A broker that keeps the contract\<close>

definition put_block :: "string \<Rightarrow> heap \<Rightarrow> heap" where
  "put_block t h = h\<lparr>h_next := Suc (h_next h), h_blocks := (h_blocks h)(h_next h \<mapsto> map Some t)\<rparr>"

definition deliver :: "string \<times> string \<times> string \<Rightarrow> heap \<Rightarrow> amqp_envelope \<times> heap" where
  "deliver = (\<lambda>(exchange, routing_key, body) h.
     (\<lparr>env_exchange = \<lparr>ab_len = length exchange, ab_bytes = Ptr (h_next h)\<rparr>,
       env_routing_key = \<lparr>ab_len = length routing_key, ab_bytes = Ptr (Suc (h_next h))\<rparr>,
       env_properties = indeterminate_properties,
       env_body = \<lparr>ab_len = length body, ab_bytes = Ptr (Suc (Suc (h_next h)))\<rparr>\<rparr>,
      put_block body (put_block routing_key (put_block exchange h))))"

lemma deliver_texts:
  "deref_bytes (snd (deliver (ex, rk, body) h)) (env_exchange (fst (deliver (ex, rk, body) h))) = Inr ex"
  "deref_bytes (snd (deliver (ex, rk, body) h)) (env_routing_key (fst (deliver (ex, rk, body) h))) = Inr rk"
  "deref_bytes (snd (deliver (ex, rk, body) h)) (env_body (fst (deliver (ex, rk, body) h))) = Inr body"
  by (simp_all add: deliver_def put_block_def deref_bytes_def load_bytes_def take_map [symmetric])

lemma deliver_readable: "envelope_readable ref_flags (snd (deliver m h)) (fst (deliver m h))"
proof -
  obtain ex rk body where m: "m = (ex, rk, body)" by (rule prod_cases3)
  have "env_properties (fst (deliver m h)) = indeterminate_properties" by (simp add: deliver_def m)
  then show ?thesis
    using deliver_texts [of ex rk body h] m
    by (simp add: envelope_readable_def props_readable_no_flags ref_flags_ok indeterminate_properties_def)
qed

definition polite_dup :: "amqp_bytes \<Rightarrow> heap \<Rightarrow> (amqp_bytes \<times> heap) res" where
  "polite_dup b h =
     bindr (load_bytes h b) (\<lambda>c. Inr (b\<lparr>ab_bytes := Ptr (h_next h)\<rparr>,
       h\<lparr>h_next := Suc (h_next h), h_blocks := (h_blocks h)(h_next h \<mapsto> c)\<rparr>))"

definition polite_api :: "ref_world amqp_api" where
  "polite_api = ref_api
     \<lparr>amqp_queue_declare := (\<lambda>c ch q p d e a tb h w. ref_queue_declare h (w\<lparr>rw_replies := []\<rparr>)),
      amqp_basic_consume := (\<lambda>c ch q tag nl na ex tb w.
        w\<lparr>rw_published := rw_published w @ [(ch, ''basic.consume'', q, [])]\<rparr>),
      amqp_consume_message := (\<lambda>c t fl h w.
        case rw_inbox w of
          [] \<Rightarrow> (library_reply (- 13), None, h, w)
        | _ # es \<Rightarrow> (case deliver (''amq.direct'', ''test'', ''hello'') h of (e, h') \<Rightarrow> (normal_reply, Some e, h',
            w\<lparr>rw_inbox := es, rw_published := rw_published w @ [(0, ''amq.direct'', ''test'', ''hello'')]\<rparr>)))\<rparr>"

definition polite_platform :: "ref_world platform" where
  "polite_platform = ref_platform\<lparr>bapi := ref_bapi\<lparr>amqp_bytes_malloc_dup := polite_dup\<rparr>, api := polite_api\<rparr>"

lemma polite_platform_ok: "platform_ok polite_platform"
proof -
  have "bytes_api_ok (ref_bapi\<lparr>amqp_bytes_malloc_dup := polite_dup\<rparr>)"
    using ref_bapi_ok
    by (simp add: bytes_api_ok_def polite_dup_def dup_spec_def alloc_spec_def)
  with ref_platform_ok show ?thesis by (simp add: platform_ok_def polite_platform_def)
qed

lemma put_block_step: "lib_inv (\<lambda>_. {}) s \<Longrightarrow> lib_step (\<lambda>_. {}) s (s\<lparr>rt_heap := put_block t (rt_heap s)\<rparr>)"
  by (rule alloc_step) (auto simp: lib_inv_def heap_wf_def heap_le_def put_block_def less_Suc_eq
      dest: heap_wf_fresh)

lemma deliver_step:
  assumes inv: "lib_inv (\<lambda>_. {}) s"
  shows "lib_step (\<lambda>_. {}) s (s\<lparr>rt_heap := snd (deliver m (rt_heap s)), rt_world := w\<rparr>)"
proof -
  obtain ex rk body where m: "m = (ex, rk, body)" by (rule prod_cases3)
  note a = put_block_step [OF inv, of ex]
  note b = lib_step_trans [OF a put_block_step [OF lib_stepD(1) [OF a], of rk]]
  note c = lib_step_trans [OF b put_block_step [OF lib_stepD(1) [OF b], of body]]
  show ?thesis
    by (rule lib_step_trans [OF c quiet_step [OF lib_stepD(1) [OF c]]])
       (simp add: quiet_def deliver_def m)
qed

lemma polite_respects_memory: "respects_memory (\<lambda>_. {}) polite_api"
proof -
  have same: "lib_step (\<lambda>_. {}) s \<lparr>rt_heap = rt_heap s, rt_world = w\<rparr>" if "lib_inv (\<lambda>_. {}) s"
    for s :: "ref_world rt" and w
    using quiet_step [OF that] by (simp add: quiet_def)
  have decl: "lib_step (\<lambda>_. {}) s \<lparr>rt_heap = put_block ''amq.gen'' (rt_heap s), rt_world = w\<rparr>"
    if "lib_inv (\<lambda>_. {}) s" for s :: "ref_world rt" and w
    using lib_step_trans [OF put_block_step [OF that] same [OF lib_stepD(1) [OF put_block_step [OF that]]]]
    by simp
  show ?thesis
    using same decl [unfolded put_block_def] deliver_step [unfolded rt_update]
    by (auto simp: respects_memory_def polite_api_def ref_api_def ref_queue_declare_def Let_def
        split_beta split: list.splits)
qed

lemma polite_library: "consumer_library (\<lambda>_. {}) polite_platform"
proof -
  have "heapless (\<lambda>_. {}) polite_api" by (simp add: heapless_def)
  moreover have "connections_available polite_platform"
    by (simp add: connections_available_def polite_platform_def polite_api_def ref_api_def)
  ultimately have "library_ok (\<lambda>_. {}) polite_platform"
    using polite_platform_ok polite_respects_memory
    by (simp add: library_ok_def) (simp add: polite_platform_def)
  moreover have "envelopes_filled polite_platform"
    using deliver_readable [of "(''amq.direct'', ''test'', ''hello'')"]
    by (auto simp: envelopes_filled_def polite_platform_def polite_api_def ref_codes_def
        library_reply_def normal_reply_def decodeRpcReply_def decodeLibraryException_def
        Let_def split_beta split: list.splits)
  moreover have "queues_accepted polite_platform"
    by (auto simp: queues_accepted_def polite_platform_def polite_api_def ref_api_def ref_codes_def
        ref_queue_declare_def next_reply_def normal_reply_def decodeRpcReply_def deref_bytes_def
        load_bytes_def Let_def)
  moreover have "copies_succeed polite_platform"
    by (auto simp: copies_succeed_def polite_platform_def polite_dup_def bindr_eq_Inr_iff)
  ultimately show ?thesis by (simp add: consumer_library_def)
qed

end
