(* ===== verification/Consumer_System.thy ===== *)
theory Consumer_System
  imports Consumer_Subscription Reference_Library Lifecycle
begin

text \<open>
  The consumer as a system: its methods, the life cycle, the destructor and the transition system
  of everything that can happen to it. The worker thread is the subject of theory
  \<open>Consumer_Invariant\<close>.
\<close>

section \<open>The methods\<close>

lemma Consumer_Stop_ok:
  assumes inv: "cons_inv lib P c s" and th: "cons_thread_inv c" and init: "m_isInitialized c"
  shows "okr (Consumer_Stop P c s) (\<lambda>(r, c', s'). cons_inv lib P c' s' \<and> cons_thread_inv c' \<and>
     m_isInitialized c' \<and> \<not> m_threadRunning c' \<and>
     same_tables (m_channelHandler c) (m_channelHandler c') \<and>
     (r = THREAD_NOT_RUNNING \<longleftrightarrow> \<not> m_threadRunning c) \<and>
     (m_threadRunning c \<longrightarrow> (\<exists>k. m_connection c' = Some k \<and> \<not> IsConnected k)))"
proof -
  let ?c0 = "emptyPendingChannels c"
  have inv0: "cons_inv lib P ?c0 s" using inv by (simp add: cons_inv_def emptyPendingChannels_def)
  show ?thesis
  proof (cases "m_threadRunning c")
    case False
    with inv0 th init show ?thesis
      by (simp add: Consumer_Stop_def Let_def Consumer_IsInitialized_def Consumer_IsRunning_def
          emptyPendingChannels_def cons_thread_inv_def)
  next
    case True
    let ?c1 = "Consumer_setRunning False ?c0"
    from True th obtain pc where pc: "m_consumerThread c = Some pc" by (auto simp: cons_thread_inv_def)
    have c1: "cons_inv lib P ?c1 s" "m_consumerThread ?c1 = Some pc" "m_isInitialized ?c1"
        "\<not> m_threadRunning ?c1"
      using inv0 pc init by (simp_all add: cons_inv_def Consumer_setRunning_def emptyPendingChannels_def)
    have "cons_rank pc \<le> 4" by (cases pc) (simp_all add: cons_rank_def)
    from run_consumer_ok [OF c1 this] obtain c2 s2 where
        run: "run_consumer P 4 ?c1 s = Inr (c2, s2)" "cons_inv lib P c2 s2"
        "same_consumer ?c1 (c2\<lparr>m_consumerThread := m_consumerThread ?c1\<rparr>)"
      by (auto simp: okr_def)
    let ?c2 = "c2\<lparr>m_consumerThread := None\<rparr>"
    have inv2: "cons_inv lib P ?c2 s2" "m_isInitialized ?c2"
      using run(2,3) init
      by (simp_all add: cons_inv_def same_consumer_def Consumer_setRunning_def emptyPendingChannels_def)
    from inv2 obtain k where k: "m_connection ?c2 = Some k" "consumer_connection ?c2 = Inr k" "conn_inv P k"
      by (rule cons_inv_connectionE)
    from CloseConnection_quiet [OF cons_invD(2) [OF inv] k(3), of s2] obtain r k' s3 where
        cl: "CloseConnection P k s2 = Inr (r, k', s3)" "conn_inv P k'" "\<not> IsConnected k'"
        "quiet lib s2 s3" "r \<noteq> THREAD_NOT_RUNNING"
      by (auto simp: okr_def)
    have stop: "Consumer_Stop P c s = Inr (r, ?c2\<lparr>m_connection := Some k'\<rparr>, s3)"
      using True init c1(2) run(1) k(2) cl(1)
      by (simp add: Consumer_Stop_def Consumer_join_def Let_def Consumer_IsInitialized_def
          Consumer_IsRunning_def emptyPendingChannels_def)
    have "cons_inv lib P (?c2\<lparr>m_connection := Some k'\<rparr>) s3"
      using cons_inv_connection [OF cons_inv_quiet [OF inv2(1) cl(4)] k(1) cl(2)] .
    with True init run(3) cl(3,5) show ?thesis
      unfolding stop
      by (simp add: same_consumer_def cons_thread_inv_def Consumer_setRunning_def emptyPendingChannels_def)
  qed
qed

lemma Consumer_Start_ok:
  assumes inv: "cons_inv lib P c s" and th: "cons_thread_inv c"
  shows "okr (Consumer_Start c) (\<lambda>(r, c'). cons_inv lib P c' s \<and> cons_thread_inv c' \<and>
     (if \<not> m_isInitialized c then r = NOT_INITIALIZED \<and> c' = c
      else if m_threadRunning c then r = THREAD_ALREADY_RUNNING \<and> c' = c
      else r = ALL_GOOD \<and> c' = c\<lparr>m_threadRunning := True, m_consumerThread := Some C_Loop\<rparr>))"
  using assms
  by (auto simp: Consumer_Start_def cons_thread_inv_def cons_inv_def Let_def)

definition consumer_start :: "Consumer \<Rightarrow> 'w rt \<Rightarrow> (HARE_ERROR_E \<times> Consumer \<times> 'w rt) res" where
  "consumer_start c s = bindr (Consumer_Start c) (\<lambda>(r, c'). Inr (r, c', s))"

definition consumer_inv :: "('w \<Rightarrow> nat set) \<Rightarrow> 'w platform \<Rightarrow> Consumer \<Rightarrow> 'w rt \<Rightarrow> bool" where
  "consumer_inv lib P c s \<longleftrightarrow> cons_inv lib P c s \<and> cons_thread_inv c"

interpretation cons: lifecycle m_isInitialized m_threadRunning "consumer_inv lib P" consumer_start
    "Consumer_Stop P"
  for lib :: "'w \<Rightarrow> nat set" and P :: "'w platform"
proof
  fix c :: Consumer and s :: "'w rt"
  assume "consumer_inv lib P c s"
  then have inv: "cons_inv lib P c s" and th: "cons_thread_inv c" by (simp_all add: consumer_inv_def)
  show "m_threadRunning c \<Longrightarrow> m_isInitialized c" using th by (simp add: cons_thread_inv_def)
  show "okr (consumer_start c s) (\<lambda>(r, c', s'). consumer_inv lib P c' s' \<and>
      m_isInitialized c' = m_isInitialized c \<and> m_threadRunning c' = m_isInitialized c \<and>
      r = (if \<not> m_isInitialized c then NOT_INITIALIZED
           else if m_threadRunning c then THREAD_ALREADY_RUNNING else ALL_GOOD))"
    unfolding consumer_start_def
    by (rule okr_bindI [OF Consumer_Start_ok [OF inv th]])
       (use th in \<open>auto simp: consumer_inv_def cons_thread_inv_def split: if_splits\<close>)
  assume "m_isInitialized c"
  show "okr (Consumer_Stop P c s) (\<lambda>(r, c', s'). consumer_inv lib P c' s' \<and> m_isInitialized c' \<and>
      \<not> m_threadRunning c' \<and> (r = THREAD_NOT_RUNNING \<longleftrightarrow> \<not> m_threadRunning c))"
    by (rule okr_mono [OF Consumer_Stop_ok [OF inv th \<open>m_isInitialized c\<close>]])
       (auto simp: consumer_inv_def)
qed

lemma Consumer_Initialize_ok:
  assumes inv: "cons_inv lib P c s" and th: "cons_thread_inv c" and idle: "\<not> m_threadRunning c"
  shows "okr (Consumer_Initialize P host port user pw c s) (\<lambda>(r, c', s'). r = ALL_GOOD \<and>
     cons_inv lib P c' s' \<and> cons_thread_inv c' \<and> m_isInitialized c' \<and> \<not> m_threadRunning c')"
proof -
  let ?k = "ConnectionBase_init host port user pw"
  note d = cons_invD [OF inv]
  have "okr (case m_connection c of None \<Rightarrow> Inr s
      | Some old \<Rightarrow> bindr (ConnectionBase_destroy P old s) (\<lambda>(_, _, s'). Inr s')) (quiet lib s)"
  proof (cases "m_connection c")
    case (Some k)
    with inv have "conn_inv P k" by (simp add: cons_inv_def)
    from CloseConnection_quiet [OF d(2) this, of s] Some show ?thesis
      by (auto simp: ConnectionBase_destroy_def okr_def)
  qed simp
  then obtain s1 where s1: "quiet lib s s1"
      "Consumer_Initialize P host port user pw c s = Inr (ALL_GOOD,
         c\<lparr>m_connection := Some ?k, m_isInitialized := True, m_threadRunning := False\<rparr>, s1)"
    by (auto simp: Consumer_Initialize_def okr_def)
  have "conn_inv P ?k" using library_okD(2) [OF d(2)] by (rule conn_inv_init)
  with cons_inv_quiet [OF inv s1(1)] s1(2) th idle show ?thesis
    by (simp add: cons_inv_def cons_thread_inv_def)
qed

lemma Stop_uninitialized:
  assumes "consumer_inv lib P c s" and "\<not> m_isInitialized c"
  shows "Consumer_Stop P c s = Inr (NOT_INITIALIZED, emptyPendingChannels c, s)"
    and "consumer_inv lib P (emptyPendingChannels c) s"
  using assms
  by (auto simp: Consumer_Stop_def Let_def Consumer_IsInitialized_def emptyPendingChannels_def
      consumer_inv_def cons_inv_def cons_thread_inv_def)

lemma Consumer_Restart_ok:
  assumes "consumer_inv lib P c s"
  shows "okr (Consumer_Restart P c s) (\<lambda>(r, c', s'). consumer_inv lib P c' s')"
proof (cases "m_isInitialized c")
  case True
  from cons.stop_law [OF assms this] obtain r c1 s1 where
      stop: "Consumer_Stop P c s = Inr (r, c1, s1)" "consumer_inv lib P c1 s1"
    by (auto simp: okr_def)
  from cons.start_law [OF stop(2)] stop show ?thesis
    by (auto simp: Consumer_Restart_def consumer_start_def okr_def)
next
  case False
  with Stop_uninitialized [OF assms] show ?thesis by (simp add: Consumer_Restart_def)
qed

section \<open>The destructor\<close>

definition name_blocks :: "ChannelHandler \<Rightarrow> int list \<Rightarrow> nat set" where
  "name_blocks h cs = {a. \<exists>c \<in> set cs. \<exists>i. channel_ref h c = Ptr i \<and> name_at h i = Ptr a}"

lemma free_queue_names_ok:
  assumes inv: "handler_inv h" and ok: "names_ok A h"
    and "lib_inv lib s" and "distinct cs" and "\<forall>c \<in> set cs. has_channel h c"
    and "name_blocks h cs \<subseteq> program_blocks lib s"
  shows "okr (free_queue_names h cs (rt_heap s)) (\<lambda>hp. lib_inv lib (s\<lparr>rt_heap := hp\<rparr>) \<and>
     program_blocks lib (s\<lparr>rt_heap := hp\<rparr>) = program_blocks lib s - name_blocks h cs)"
  using assms(3-)
proof (induction cs arbitrary: s)
  case Nil
  have "s\<lparr>rt_heap := rt_heap s\<rparr> = s" by (cases s) simp
  with Nil show ?case by (simp add: name_blocks_def)
next
  case (Cons c cs)
  from Cons.prems have hc: "has_channel h c" by simp
  with inv obtain i where i: "i < pair_count h" "channel_ref h c = Ptr i" by (rule has_channelE)
  from inv i(1) obtain info where info: "ch_objs h i = Some info" by (rule handler_inv_entry)
  have nm: "ab_bytes (ci_queueName info) = name_at h i" by (simp add: name_at_def info)
  show ?case
  proof (cases "name_at h i")
    case Null
    then have "name_blocks h (c # cs) = name_blocks h cs" using i(2) by (auto simp: name_blocks_def)
    with Cons.IH [of s] Cons.prems i info nm Null show ?thesis by simp
  next
    case (Ptr a)
    let ?s = "s\<lparr>rt_heap := drop_blocks [a] (rt_heap s)\<rparr>"
    have nb: "name_blocks h (c # cs) = insert a (name_blocks h cs)"
      using i(2) Ptr by (auto simp: name_blocks_def)
    have "a \<notin> name_blocks h cs"
    proof
      assume "a \<in> name_blocks h cs"
      then obtain d j where d: "d \<in> set cs" "channel_ref h d = Ptr j" "name_at h j = Ptr a"
        by (auto simp: name_blocks_def)
      from d(1) Cons.prems have "has_channel h d" by simp
      with inv obtain j' where "j' < pair_count h" "channel_ref h d = Ptr j'" by (rule has_channelE)
      with d ok i(1) Ptr have "j = i" by (auto simp: names_ok_def)
      with channel_refs_differ [OF inv i(2)] d(2) have "d = c" by simp
      with d(1) Cons.prems show False by simp
    qed
    moreover from Cons.prems nb have a: "a \<in> program_blocks lib s" by simp
    note fr = free_program_block [OF Cons.prems(1) this]
    ultimately have "name_blocks h cs \<subseteq> program_blocks lib ?s" using Cons.prems nb fr(3) by auto
    from Cons.IH [OF fr(2) _ _ this] Cons.prems i info nm Ptr fr nb show ?thesis
      by (auto simp: okr_def)
  qed
qed

lemma ChannelHandler_destroy_ok:
  assumes order: "permuting order" and inv: "handler_inv h" and mem: "lib_inv lib s"
    and ok: "names_ok (program_blocks lib s) h"
  shows "okr (ChannelHandler_destroy order h (rt_heap s)) (\<lambda>hp. lib_inv lib (s\<lparr>rt_heap := hp\<rparr>) \<and>
     program_blocks lib (s\<lparr>rt_heap := hp\<rparr>) =
       program_blocks lib s - {a. \<exists>i < pair_count h. name_at h i = Ptr a})"
proof -
  let ?cs = "order (keys (m_channelLookup h))"
  have "keys (m_channelLookup h) = map (\<lambda>i. int i + 1) [0..<pair_count h]"
    using inv by (simp add: handler_inv_def Let_def comp_def)
  then have "distinct ?cs" and cs: "set ?cs = (\<lambda>i. int i + 1) ` {..<pair_count h}"
    using order
    by (simp_all add: permuting_distinct permuting_set distinct_map inj_on_def atLeast0LessThan)
  moreover have "name_blocks h ?cs = {a. \<exists>i < pair_count h. name_at h i = Ptr a}"
    using handler_inv_ref [OF inv] by (auto simp: name_blocks_def cs)
  moreover have "\<dots> \<subseteq> program_blocks lib s" using ok by (auto simp: names_ok_def)
  ultimately show ?thesis
    using free_queue_names_ok [OF inv ok mem, of ?cs] handler_inv_ref [OF inv]
    by (simp add: ChannelHandler_destroy_def)
qed

lemma Consumer_destroy_ok:
  assumes "consumer_inv lib P c s"
  shows "okr (Consumer_destroy P c s) (\<lambda>s'. lib_inv lib s' \<and> (\<not> m_threadRunning c \<longrightarrow>
     program_blocks lib s' = program_blocks lib s -
       {a. \<exists>i < pair_count (m_channelHandler c). name_at (m_channelHandler c) i = Ptr a}))"
proof -
  have "okr (if m_threadRunning c then bindr (Consumer_Stop P c s) (\<lambda>(_, c', s'). Inr (c', s'))
      else Inr (c, s)) (\<lambda>(c1, s1). consumer_inv lib P c1 s1 \<and> \<not> m_threadRunning c1 \<and>
        (\<not> m_threadRunning c \<longrightarrow> c1 = c \<and> s1 = s))"
  proof (cases "m_threadRunning c")
    case True
    with cons.stop_law [OF assms cons.running_initialized [OF assms]] show ?thesis
      by (auto simp: okr_def)
  qed (use assms in simp)
  then obtain c1 s1 where st: "(if m_threadRunning c then
        bindr (Consumer_Stop P c s) (\<lambda>(_, c', s'). Inr (c', s')) else Inr (c, s)) = Inr (c1, s1)"
      "cons_inv lib P c1 s1" "cons_thread_inv c1" "\<not> m_threadRunning c1"
      "\<not> m_threadRunning c \<Longrightarrow> c1 = c \<and> s1 = s"
    by (auto simp: okr_def consumer_inv_def)
  let ?h = "m_channelHandler c1"
  note d = cons_invD [OF st(2)]
  from st(3,4) have idle: "m_consumerThread c1 = None" by (auto simp: cons_thread_inv_def)
  obtain s2 where rest: "Consumer_destroy P c s =
      bindr (ChannelHandler_destroy (channel_order (runtime P) (rt_world s2)) ?h (rt_heap s2))
        (\<lambda>hp. Inr (s2\<lparr>rt_heap := hp\<rparr>))" and q: "quiet lib s1 s2"
  proof (cases "m_isInitialized c1")
    case False
    with st(2) have "m_connection c1 = None" by (simp add: cons_inv_def)
    with False st(1) idle show thesis by (intro that [of s1]) (simp_all add: Consumer_destroy_def)
  next
    case True
    with st(2) obtain k where k: "consumer_connection c1 = Inr k" "conn_inv P k"
      by (rule cons_inv_connectionE)
    from CloseConnection_quiet [OF d(2) k(2), of s1] obtain r k1 s2 where
        k1: "CloseConnection P k s1 = Inr (r, k1, s2)" "conn_inv P k1" "quiet lib s1 s2"
      by (auto simp: okr_def)
    from CloseConnection_quiet [OF d(2) k1(2), of s2] obtain r' k2 s3 where
        k2: "CloseConnection P k1 s2 = Inr (r', k2, s3)" "quiet lib s2 s3"
      by (auto simp: okr_def)
    from True st(1) idle k k1 k2 show thesis
      by (intro that [of s3]) (auto simp: Consumer_destroy_def ConnectionBase_destroy_def intro: quiet_trans)
  qed
  have pb: "program_blocks lib s2 = program_blocks lib s1"
    using q by (simp add: quiet_def program_blocks_def)
  note d2 = cons_invD [OF cons_inv_quiet [OF st(2) q]]
  have "permuting (channel_order (runtime P) (rt_world s2))"
    using d(3) by (simp add: platform_ok_def runtime_ok_def)
  from ChannelHandler_destroy_ok [OF this d2(6,5,7)] show ?thesis
    unfolding rest using pb st(5) by (auto simp: okr_def)
qed

section \<open>The transition system\<close>

text \<open>
  What can happen to a consumer: the methods of the class, one step of the worker thread, and
  anything the rest of the process and the broker do.
\<close>

datatype 'w consumer_action =
    C_Initialize string int string string
  | C_Subscribe string string TD_Callback queueProperties
  | C_Start
  | C_Stop
  | C_Restart
  | C_Thread
  | C_Environment "'w rt"

primrec consumer_act ::
    "'w platform \<Rightarrow> 'w consumer_action \<Rightarrow> Consumer \<Rightarrow> 'w rt \<Rightarrow> (Consumer \<times> 'w rt) res" where
  "consumer_act P (C_Initialize server port user pw) c s =
     bindr (Consumer_Initialize P server port user pw c s) (\<lambda>(r, c', s'). Inr (c', s'))"
| "consumer_act P (C_Subscribe ex key f qp) c s = bindr (Subscribe ex key f qp c) (\<lambda>(r, c'). Inr (c', s))"
| "consumer_act P C_Start c s = bindr (consumer_start c s) (\<lambda>(r, c', s'). Inr (c', s'))"
| "consumer_act P C_Stop c s = bindr (Consumer_Stop P c s) (\<lambda>(r, c', s'). Inr (c', s'))"
| "consumer_act P C_Restart c s = bindr (Consumer_Restart P c s) (\<lambda>(r, c', s'). Inr (c', s'))"
| "consumer_act P C_Thread c s =
     (case m_consumerThread c of None \<Rightarrow> Inr (c, s) | Some pc \<Rightarrow> Consumer_thread_step P pc c s)"
| "consumer_act P (C_Environment s') c s = Inr (c, s')"

text \<open>
  The documented use: \<open>Initialize\<close> not while the thread runs, fewer than \<open>INT_MAX\<close> subscriptions,
  and an environment that leaves the blocks of the program alone.
\<close>

primrec consumer_permitted ::
    "('w \<Rightarrow> nat set) \<Rightarrow> 'w consumer_action \<Rightarrow> Consumer \<Rightarrow> 'w rt \<Rightarrow> bool" where
  "consumer_permitted lib (C_Initialize server port user pw) c s \<longleftrightarrow> \<not> m_threadRunning c"
| "consumer_permitted lib (C_Subscribe ex key f qp) c s \<longleftrightarrow>
     m_nextAvailableChannel (m_channelHandler c) < INT_MAX"
| "consumer_permitted lib C_Start c s \<longleftrightarrow> True"
| "consumer_permitted lib C_Stop c s \<longleftrightarrow> True"
| "consumer_permitted lib C_Restart c s \<longleftrightarrow> True"
| "consumer_permitted lib C_Thread c s \<longleftrightarrow> True"
| "consumer_permitted lib (C_Environment s') c s \<longleftrightarrow> lib_step lib s s'"

inductive consumer_reachable :: "('w \<Rightarrow> nat set) \<Rightarrow> 'w platform \<Rightarrow> Consumer \<Rightarrow> 'w rt \<Rightarrow> bool"
    for lib P where
  start: "consumer_library lib P \<Longrightarrow> lib_inv lib s \<Longrightarrow> consumer_reachable lib P Consumer_init s"
| step: "consumer_reachable lib P c s \<Longrightarrow> consumer_permitted lib a c s \<Longrightarrow>
    consumer_act P a c s = Inr (c', s') \<Longrightarrow> consumer_reachable lib P c' s'"

lemma consumer_inv_init:
  "consumer_library lib P \<Longrightarrow> lib_inv lib s \<Longrightarrow> consumer_inv lib P Consumer_init s"
  by (simp add: consumer_inv_def cons_inv_def cons_thread_inv_def Consumer_init_def)
     (simp add: ChannelHandler_init_def)

lemma cons_thread_inv_moved:
  assumes "cons_thread_inv c" and "m_consumerThread c = Some pc" and "cons_moved pc c c'"
  shows "cons_thread_inv c'"
  using assms by (auto simp: cons_thread_inv_def cons_moved_def same_consumer_def)

text \<open>Every permitted action is defined and keeps the invariant.\<close>

lemma consumer_act_ok:
  assumes inv: "consumer_inv lib P c s" and perm: "consumer_permitted lib a c s"
  shows "okr (consumer_act P a c s) (\<lambda>(c', s'). consumer_inv lib P c' s')"
proof -
  from inv have core: "cons_inv lib P c s" and th: "cons_thread_inv c"
    by (simp_all add: consumer_inv_def)
  show ?thesis
  proof (cases a)
    case (C_Initialize server port user pw)
    with Consumer_Initialize_ok [OF core th, of server port user pw] perm show ?thesis
      by (auto simp: okr_def consumer_inv_def)
  next
    case (C_Subscribe ex key f qp)
    with Subscribe_ok [OF core, of ex key f qp] perm th show ?thesis
      by (auto simp: okr_def consumer_inv_def handler_step_thread)
  next
    case C_Start
    with cons.start_law [OF inv] show ?thesis by (auto simp: okr_def)
  next
    case C_Stop
    show ?thesis
    proof (cases "m_isInitialized c")
      case True
      with cons.stop_law [OF inv] C_Stop show ?thesis by (auto simp: okr_def)
    qed (simp add: C_Stop Stop_uninitialized [OF inv])
  next
    case C_Restart
    with Consumer_Restart_ok [OF inv] show ?thesis by (auto simp: okr_def)
  next
    case C_Thread
    show ?thesis
    proof (cases "m_consumerThread c")
      case (Some pc)
      with th have "m_isInitialized c" by (auto simp: cons_thread_inv_def)
      from Consumer_thread_step_ok [OF core Some this] C_Thread Some th show ?thesis
        by (auto simp: okr_def consumer_inv_def intro: cons_thread_inv_moved)
    qed (simp add: C_Thread inv)
  next
    case (C_Environment s')
    with core perm th show ?thesis by (auto simp: consumer_inv_def intro: cons_inv_step)
  qed
qed

lemma consumer_reachable_inv: "consumer_reachable lib P c s \<Longrightarrow> consumer_inv lib P c s"
proof (induction rule: consumer_reachable.induct)
  case (start s)
  then show ?case by (rule consumer_inv_init)
next
  case (step c s a c' s')
  then show ?case using consumer_act_ok [of lib P c s a] by (auto simp: okr_def)
qed

section \<open>Safety\<close>


text \<open>A consumer with one subscription whose worker thread has just been started.\<close>

definition polite_handler :: ChannelHandler where
  "polite_handler = sample_handler\<lparr>ch_objs := [0 \<mapsto>
     new_info\<lparr>ci_callback := Some 7, ci_bindingPair := Some sample_pair,
              ci_queueProperties := default_queueProperties\<rparr>]\<rparr>"

definition polite_consumer :: Consumer where
  "polite_consumer = Consumer_init\<lparr>m_channelHandler := polite_handler, m_isInitialized := True,
     m_connection := Some sample_conn, m_threadRunning := True, m_consumerThread := Some C_Loop\<rparr>"

lemma polite_steps:
  "consumer_act P (C_Initialize ''localhost'' 5672 ''guest'' ''guest'') Consumer_init s
     = Inr (idle_consumer, s)"
  "consumer_act P (C_Subscribe ''amq.direct'' ''test'' 7 default_queueProperties)
     idle_consumer s = Inr (idle_consumer\<lparr>m_channelHandler := polite_handler\<rparr>, s)"
  "consumer_act P C_Start (idle_consumer\<lparr>m_channelHandler := polite_handler\<rparr>) s
     = Inr (polite_consumer, s)"
proof -
  show "consumer_act P (C_Initialize ''localhost'' 5672 ''guest'' ''guest'') Consumer_init
      s = Inr (idle_consumer, s)"
    by (simp add: Consumer_Initialize_def Consumer_init_def idle_consumer_def sample_conn_def)
  have bp: "\<lparr>m_exchangeName = ''amq.direct'', m_routingKey = ''test''\<rparr> = sample_pair"
    by (simp add: sample_pair_def)
  have h: "m_channelHandler idle_consumer = ChannelHandler_init" "m_isInitialized idle_consumer"
      "\<not> m_threadRunning idle_consumer"
    by (simp_all add: idle_consumer_def Consumer_init_def)
  have "SetQueueProperties 1 default_queueProperties sample_handler = Inr polite_handler"
    by (simp add: SetQueueProperties_def sample_handler_def polite_handler_def has_channel_def
        channel_ref_def)
  with h sample_handler_reached
  show "consumer_act P (C_Subscribe ''amq.direct'' ''test'' 7 default_queueProperties)
      idle_consumer s = Inr (idle_consumer\<lparr>m_channelHandler := polite_handler\<rparr>, s)"
    by (simp add: Subscribe_def Consumer_IsInitialized_def Consumer_IsRunning_def bp Let_def)
  show "consumer_act P C_Start (idle_consumer\<lparr>m_channelHandler := polite_handler\<rparr>) s
      = Inr (polite_consumer, s)"
    by (simp add: consumer_start_def Consumer_Start_def idle_consumer_def Consumer_init_def
        polite_consumer_def Let_def)
qed

lemma polite_reachable: "consumer_reachable (\<lambda>_. {}) polite_platform polite_consumer quiet_rt"
proof -
  have "lib_inv (\<lambda>_. {}) quiet_rt" by (simp add: lib_inv_def quiet_rt_def)
  note r0 = consumer_reachable.start [OF polite_library this]
  have "consumer_reachable (\<lambda>_. {}) polite_platform idle_consumer quiet_rt"
    by (rule consumer_reachable.step [OF r0 _ polite_steps(1)]) (simp add: Consumer_init_def)
  then have "consumer_reachable (\<lambda>_. {}) polite_platform
      (idle_consumer\<lparr>m_channelHandler := polite_handler\<rparr>) quiet_rt"
    by (rule consumer_reachable.step [OF _ _ polite_steps(2)])
       (simp add: idle_consumer_def Consumer_init_def ChannelHandler_init_def)
  then show ?thesis by (rule consumer_reachable.step [OF _ _ polite_steps(3)]) simp
qed

text \<open>Two steps of its worker thread connect the consumer and set up its channel.\<close>

lemma polite_connect: "Connect polite_platform sample_conn quiet_rt = Inr (ALL_GOOD, open_conn, quiet_rt)"
  by (simp add: Connect_def connectBasic_def login_def sample_conn_def ConnectionBase_init_def
      polite_platform_def polite_api_def ref_api_def world_defs next_status_def next_reply_def
      quiet_rt_def quiet_world_def normal_reply_def ref_codes_def decodeRpcReply_def conn_simps
      open_conn_def Let_def)

lemma polite_setup:
  "okr (setupAndConsume polite_platform 1 (c\<lparr>m_connection := Some open_conn, m_channelHandler := polite_handler\<rparr>) quiet_rt)
     (\<lambda>(r, c', s'). r = ALL_GOOD \<and> m_connection c' = Some open_conn \<and> has_channel (m_channelHandler c') 1)"
  by (simp add: setupAndConsume_def openChannel_def declareQueue_def bindQueue_def consume_def
      consumer_connection_def OpenChannel_def DeclareQueue_def BindQueue_def StartConsumption_def
      open_conn_def IsConnected_def polite_handler_def sample_handler_def has_channel_def channel_ref_def
      GetQueueProperties_def GetExchange_def GetBindingKey_def SetQueueName_def new_info_def
      polite_platform_def polite_api_def ref_api_def world_defs next_status_def next_reply_def
      quiet_rt_def quiet_world_def normal_reply_def ref_codes_def decodeRpcReply_def
      ref_queue_declare_def polite_dup_def ref_bapi_def load_bytes_def deref_bytes_def
      hare_bytes_to_string_def sample_pair_def Let_def)

lemma polite_connects:
  "consumer_act P C_Thread polite_consumer s =
     Inr (consumer_at C_Connect polite_consumer, s)"
  "okr (consumer_act polite_platform C_Thread (consumer_at C_Connect polite_consumer) quiet_rt)
     (\<lambda>(c, s). m_connection c = Some open_conn \<and> has_channel (m_channelHandler c) 1 \<and>
       m_consumerThread c = Some C_Pull)"
proof -
  show "consumer_act P C_Thread polite_consumer s =
      Inr (consumer_at C_Connect polite_consumer, s)"
    by (simp add: polite_consumer_def Consumer_thread_step_def Consumer_IsRunning_def
        consumer_connection_def sample_conn_closed)
  let ?c = "consumer_at C_Connect polite_consumer\<lparr>m_connection := Some open_conn, m_channelHandler := polite_handler\<rparr>"
  have c: "emptyPendingChannels (consumer_at C_Connect polite_consumer\<lparr>m_connection := Some open_conn\<rparr>) = ?c"
      "consumer_connection (consumer_at C_Connect polite_consumer) = Inr sample_conn"
      "GetChannelList (channel_order (runtime polite_platform) (rt_world quiet_rt))
        (m_channelHandler (consumer_at C_Connect polite_consumer)) = [1]"
      "m_consumerThread (consumer_at C_Connect polite_consumer) = Some C_Connect"
    by (simp_all add: emptyPendingChannels_def consumer_at_def polite_consumer_def Consumer_init_def
        consumer_connection_def GetChannelList_def polite_platform_def ref_runtime_def
        polite_handler_def sample_handler_def)
  from polite_setup [of "consumer_at C_Connect polite_consumer"] polite_connect c
  show "okr (consumer_act polite_platform C_Thread (consumer_at C_Connect polite_consumer) quiet_rt)
      (\<lambda>(c, s). m_connection c = Some open_conn \<and> has_channel (m_channelHandler c) 1 \<and>
       m_consumerThread c = Some C_Pull)"
    by (auto simp: okr_def Consumer_thread_step_def connectAndStartConsumption_def startConsumption_def
        Let_def) (auto simp: consumer_at_def)
qed


text \<open>
  Start and Stop in any order, on a consumer that has been initialised: no sequence faults,
  the worker thread runs exactly after a final Start, and a command returns the code for misuse
  exactly when the one before it had already brought the consumer into the state asked for.
\<close>

theorem consumer_start_stop_sequences:
  assumes "consumer_reachable lib P c s" and "m_isInitialized c"
  shows "okr (drive consumer_start (Consumer_Stop P) cs c s) (\<lambda>(rs, c', s').
     cons_thread_inv c' \<and> m_isInitialized c' \<and> codes_fit (m_threadRunning c) cs rs \<and>
     m_threadRunning c' = (if cs = [] then m_threadRunning c else last cs = CmdStart))"
  by (rule okr_mono [OF cons.drive_ok [OF consumer_reachable_inv [OF assms(1)] assms(2)]])
     (auto simp: consumer_inv_def)

theorem consumer_start_stop_sequences_witness:
  "okr (drive consumer_start (Consumer_Stop polite_platform) [CmdStart, CmdStop, CmdStop, CmdStart]
       polite_consumer quiet_rt) (\<lambda>(rs, c', s').
     cons_thread_inv c' \<and> m_isInitialized c' \<and>
     codes_fit (m_threadRunning polite_consumer) [CmdStart, CmdStop, CmdStop, CmdStart] rs \<and>
     m_threadRunning c' = (if [CmdStart, CmdStop, CmdStop, CmdStart] = []
       then m_threadRunning polite_consumer
       else last [CmdStart, CmdStop, CmdStop, CmdStart] = CmdStart))"
  by (rule consumer_start_stop_sequences [OF polite_reachable]) (simp add: polite_consumer_def)



end
