(* ===== verification/World_Relations.thy ===== *)
theory World_Relations
  imports ConnectionBase
begin

text \<open>
  Relations between the worlds before and after a call of the library, carried through the
  operations of \<open>ConnectionBase\<close>. A preorder that the library's functions respect is respected
  by every operation built from them. The histories that the properties are about (what has been
  published, which consumers have been accepted, what has arrived) are instances.
\<close>

lemmas library_calls = on_world_def from_world_def rpc_result_def

abbreviation across :: "('w \<Rightarrow> 'w \<Rightarrow> bool) \<Rightarrow> 'w rt \<Rightarrow> 'w rt \<Rightarrow> bool" where
  "across W s s' \<equiv> W (rt_world s) (rt_world s')"

section \<open>Opening a channel\<close>

locale channel_calls =
  fixes P :: "'w platform"
    and W :: "'w \<Rightarrow> 'w \<Rightarrow> bool"
  assumes W_refl: "W w w"
    and W_trans: "W u v \<Longrightarrow> W v w \<Longrightarrow> W u w"
    and W_rpc_reply: "W w (snd (amqp_get_rpc_reply (api P) c w))"
    and W_channel_open: "W w (amqp_channel_open (api P) c ch w)"
    and W_send_method: "W w (snd (amqp_send_method (api P) c ch m w))"
begin

lemma W_rpc_result: "rpc_result P conn s = (r, s') \<Longrightarrow> across W s s'"
  using W_rpc_reply [of "rt_world s" conn] by (auto simp: library_calls split_beta Let_def)

lemma W_OpenChannel:
  assumes run: "OpenChannel P ch k s = Inr (r, s')"
  shows "across W s s'"
proof (cases "IsConnected k")
  case False
  with run W_refl show ?thesis by (simp add: OpenChannel_def)
next
  case True
  with run obtain conn where h: "handle (m_conn k) = Inr conn"
    by (auto simp: OpenChannel_def bindr_eq_Inr_iff)
  let ?s1 = "on_world (amqp_channel_open (api P) conn (wire_channel ch)) s"
  obtain r2 s2 where rpc: "rpc_result P conn ?s1 = (r2, s2)" by fastforce
  have "across W s ?s1" using W_channel_open by (simp add: on_world_def)
  moreover note W_rpc_result [OF rpc]
  moreover have "across W s2 s'"
    using True run h rpc W_refl W_send_method [of "rt_world s2" conn "wire_channel ch"]
    by (cases "r2 = CHANNEL_EXCEPTION")
       (auto simp: OpenChannel_def Let_def from_world_def split_beta)
  ultimately show ?thesis by (blast intro: W_trans)
qed

end

section \<open>Connecting and closing\<close>

locale connection_calls = channel_calls +
  assumes W_new_connection: "W w (snd (amqp_new_connection (api P) w))"
    and W_socket_new: "W w (snd (amqp_tcp_socket_new (api P) c w))"
    and W_socket_open: "W w (snd (amqp_socket_open_noblock (api P) k host port t w))"
    and W_login: "W w (snd (amqp_login (api P) c vh cm fm hb sasl u p w))"
    and W_connection_close: "W w (snd (amqp_connection_close (api P) c code w))"
    and W_destroy_connection: "W w (amqp_destroy_connection (api P) c w)"
begin

lemma W_CloseConnection:
  assumes "CloseConnection P k s = Inr (r, k', s')"
  shows "across W s s'"
  using assms W_refl W_trans [OF W_connection_close W_destroy_connection]
  by (auto simp: CloseConnection_def bindr_eq_Inr_iff Let_def split_beta library_calls split: if_splits)

lemma W_connectBasic:
  assumes "connectBasic P k s = Inr (r, k', s')"
  shows "across W s s'"
proof -
  note w = W_trans [OF W_new_connection W_socket_new] W_trans [OF W_trans [OF W_new_connection W_socket_new] W_socket_open]
  from assms w show ?thesis
    by (auto simp: connectBasic_def bindr_eq_Inr_iff Let_def split_beta library_calls split: if_splits)
qed

lemma W_Connect:
  assumes run: "Connect P k s = Inr (r, k', s')"
  shows "across W s s'"
proof -
  have log: "across W s1 s2" if "login P k1 s1 = Inr (r2, s2)" for k1 s1 r2 s2
    using that W_login by (auto simp: login_def bindr_eq_Inr_iff Let_def split_beta library_calls)
  from run obtain r1 k1 s1 where
      1: "(if m_isSSL k then Inr (ALL_GOOD, k, s) else connectBasic P k s) = Inr (r1, k1, s1)"
      and 2: "(if noError r1 then login P k1 s1 else Inr (r1, s1)) = Inr (r, s')"
    by (auto simp: Connect_def bindr_eq_Inr_iff)
  have "across W s s1" using 1 W_refl W_connectBasic by (auto split: if_splits)
  moreover have "across W s1 s'" using 2 W_refl log [of k1 s1 r s'] by (auto split: if_splits)
  ultimately show ?thesis by (rule W_trans)
qed

end

section \<open>Declaring exchanges\<close>

locale producer_calls = connection_calls +
  assumes W_exchange_declare: "W w (amqp_exchange_declare (api P) c ch ex ty n d a i tb w)"
begin

lemma W_DeclareExchange:
  assumes run: "DeclareExchange P ch ex ty k s = Inr (r, s')"
  shows "across W s s'"
proof (cases "IsConnected k")
  case False
  with run W_refl show ?thesis by (simp add: DeclareExchange_def)
next
  case True
  with run obtain conn where rpc: "rpc_result P conn (on_world (amqp_exchange_declare (api P) conn
      (wire_channel ch) (upto_NUL ex) (upto_NUL ty) 0 0 0 0 (amqp_empty_table (bapi P))) s) = (r, s')"
    by (auto simp: DeclareExchange_def bindr_eq_Inr_iff Let_def)
  from W_trans [OF W_exchange_declare W_rpc_result [OF rpc, unfolded on_world_def, simplified]]
  show ?thesis .
qed

end

section \<open>Queues and consumers\<close>

locale queue_calls = channel_calls +
  assumes W_queue_bind: "W w (amqp_queue_bind (api P) c ch q ex bk tb w)"
    and W_queue_declare: "W w (snd (snd (amqp_queue_declare (api P) c ch q' n d e a tb h w)))"
    and W_basic_consume: "W w (amqp_basic_consume (api P) c ch q tag nl na x tb w)"
begin

lemma W_DeclareQueue:
  assumes run: "DeclareQueue P ch qp q k s = Inr (r, q', s')"
  shows "across W s s'"
proof -
  from run obtain conn where h: "handle (m_conn k) = Inr conn"
    by (auto simp: DeclareQueue_def bindr_eq_Inr_iff)
  obtain x hp w where d: "amqp_queue_declare (api P) conn (wire_channel ch) (amqp_empty_bytes (bapi P))
      (m_passive qp) (m_durable qp) (m_exclusive qp) (m_autoDelete qp) (amqp_empty_table (bapi P))
      (rt_heap s) (rt_world s) = (x, hp, w)"
    by (rule prod_cases3)
  obtain r1 s1 where rpc: "rpc_result P conn (s\<lparr>rt_heap := hp, rt_world := w\<rparr>) = (r1, s1)" by fastforce
  have "W (rt_world s) w"
    using W_queue_declare [of "rt_world s" conn "wire_channel ch"] d by (metis snd_conv)
  moreover have "W w (rt_world s1)" using W_rpc_result [OF rpc] by simp
  moreover have "rt_world s' = rt_world s1"
    using run h d rpc
    by (auto simp: DeclareQueue_def bindr_eq_Inr_iff split: if_splits option.splits)
  ultimately show ?thesis by (auto intro: W_trans)
qed

lemma W_BindQueue:
  assumes run: "BindQueue P ch q ex bk k s = Inr (r, s')"
  shows "across W s s'"
proof -
  from run obtain conn queue where rpc: "rpc_result P conn (on_world (amqp_queue_bind (api P) conn
      (wire_channel ch) queue (upto_NUL ex) (upto_NUL bk) (amqp_empty_table (bapi P))) s) = (r, s')"
    by (auto simp: BindQueue_def bindr_eq_Inr_iff)
  from W_trans [OF W_queue_bind W_rpc_result [OF rpc, unfolded on_world_def, simplified]]
  show ?thesis .
qed

lemma W_StartConsumption:
  assumes run: "StartConsumption P ch q k s = Inr (r, s')"
  shows "across W s s'"
proof -
  from run obtain conn queue where rpc: "rpc_result P conn (on_world (amqp_basic_consume (api P) conn
      (wire_channel ch) queue (amqp_empty_bytes (bapi P)) 0 1 0 (amqp_empty_table (bapi P))) s) = (r, s')"
    by (auto simp: StartConsumption_def bindr_eq_Inr_iff)
  from W_trans [OF W_basic_consume W_rpc_result [OF rpc, unfolded on_world_def, simplified]]
  show ?thesis .
qed

end

end
