(* ===== verification/Consumer_Relations.thy ===== *)
theory Consumer_Relations
  imports Consumer World_Relations
begin

text \<open>
  The relations of theory \<open>World_Relations\<close>, carried through the consumer: setting up channels
  respects what the calls for channels and queues respect, and connecting what the calls for
  connections respect too.
\<close>

context queue_calls
begin

lemma W_declareQueue: "declareQueue P ch q c s = Inr (r, q', c', s') \<Longrightarrow> across W s s'"
  by (auto simp: declareQueue_def bindr_eq_Inr_iff split: if_splits option.splits dest: W_DeclareQueue)

lemma W_setupAndConsume:
  assumes run: "setupAndConsume P ch c s = Inr (r, c', s')"
  shows "across W s s'"
proof -
  from run obtain r1 s1 r2 q c2 s2 r3 s3 where 1: "openChannel P ch c s = Inr (r1, s1)"
      and 2: "(if noError r1 then declareQueue P ch None c s1 else Inr (r1, None, c, s1)) = Inr (r2, q, c2, s2)"
      and 3: "(if noError r2 then bindQueue P ch q c2 s2 else Inr (r2, s2)) = Inr (r3, s3)"
      and 4: "(if noError r3 then consume P ch q c2 s3 else Inr (r3, s3)) = Inr (r, s')"
    unfolding setupAndConsume_def by (auto simp: bindr_eq_Inr_iff)
  have "across W s s1" using 1 by (auto simp: openChannel_def bindr_eq_Inr_iff dest: W_OpenChannel)
  moreover have "across W s1 s2" using 2 W_refl W_declareQueue by (auto split: if_splits)
  moreover have "across W s2 s3"
    using 3 W_refl
    by (auto simp: bindQueue_def bindr_eq_Inr_iff split: if_splits option.splits dest: W_BindQueue)
  moreover have "across W s3 s'"
    using 4 W_refl
    by (auto simp: consume_def bindr_eq_Inr_iff split: if_splits option.splits dest: W_StartConsumption)
  ultimately show ?thesis by (blast intro: W_trans)
qed

lemma W_consumption_loop: "consumption_loop P chs r c s = Inr (r', c', s') \<Longrightarrow> across W s s'"
proof (induction chs arbitrary: r c s)
  case Nil
  with W_refl show ?case by simp
next
  case (Cons ch chs)
  then obtain r1 c1 s1 where st: "setupAndConsume P ch c s = Inr (r1, c1, s1)"
      and rest: "(if serverFailure r1 then Inr (r1, c1, s1) else consumption_loop P chs r1 c1 s1) = Inr (r', c', s')"
    by (auto simp: bindr_eq_Inr_iff)
  have "across W s1 s'" using rest W_refl Cons.IH by (auto split: if_splits)
  from W_trans [OF W_setupAndConsume [OF st] this] show ?case .
qed

end

locale consumer_calls = connection_calls + queue_calls
begin

lemma W_connectAndStartConsumption:
  assumes run: "connectAndStartConsumption P c s = Inr (r, c', s')"
  shows "across W s s'"
proof -
  from run obtain k r1 k1 s1 where con: "Connect P k s = Inr (r1, k1, s1)"
      and rest: "(if noError r1
         then bindr (startConsumption P (c\<lparr>m_connection := Some k1\<rparr>) s1) (\<lambda>(retCode, c2, s2).
              if serverFailure retCode
              then bindr (consumer_connection c2) (\<lambda>k2.
                   bindr (CloseConnection P k2 s2) (\<lambda>(_, k3, s3).
                   Inr (retCode, c2\<lparr>m_connection := Some k3\<rparr>, s3)))
              else Inr (retCode, c2, s2))
         else Inr (r1, c\<lparr>m_connection := Some k1\<rparr>, s1)) = Inr (r, c', s')"
    by (auto simp: connectAndStartConsumption_def bindr_eq_Inr_iff Let_def)
  have "across W s1 s'"
  proof (cases "noError r1")
    case False
    with rest W_refl show ?thesis by simp
  next
    case True
    with rest obtain r2 c2 s2 where
        st: "startConsumption P (c\<lparr>m_connection := Some k1\<rparr>) s1 = Inr (r2, c2, s2)"
        and fin: "(if serverFailure r2
              then bindr (consumer_connection c2) (\<lambda>k2.
                   bindr (CloseConnection P k2 s2) (\<lambda>(_, k3, s3).
                   Inr (r2, c2\<lparr>m_connection := Some k3\<rparr>, s3)))
              else Inr (r2, c2, s2)) = Inr (r, c', s')"
      by (auto simp: bindr_eq_Inr_iff)
    have "across W s1 s2" using st by (auto simp: startConsumption_def dest: W_consumption_loop)
    moreover have "across W s2 s'"
      using fin W_refl by (auto simp: bindr_eq_Inr_iff split: if_splits dest: W_CloseConnection)
    ultimately show ?thesis by (rule W_trans)
  qed
  from W_trans [OF W_Connect [OF con] this] show ?thesis .
qed

end

end
