(* ===== verification/Consumer_Actions.thy ===== *)
theory Consumer_Actions
  imports Consumer_System Consumer_Relations
begin

text \<open>
  Relations between the states before and after an action of the consumer, in the way of theory
  \<open>Producer_Relations\<close>: what connecting, closing, setting up a channel and pulling a message
  respect holds for everything built from them. Theories \<open>Consumer_Dispatch\<close> and
  \<open>Consumer_Memory\<close> interpret the locale.
\<close>

locale consumer_relation =
  fixes lib :: "'w \<Rightarrow> nat set" and P :: "'w platform"
    and R :: "Consumer \<times> 'w rt \<Rightarrow> Consumer \<times> 'w rt \<Rightarrow> bool"
  assumes rel_shell: "m_channelHandler c' = m_channelHandler c \<Longrightarrow> calls c' = calls c \<Longrightarrow> R (c, s) (c', s)"
    and rel_trans: "R x y \<Longrightarrow> R y z \<Longrightarrow> R x z"
    and rel_connect: "cons_inv lib P c s \<Longrightarrow> conn_inv P k \<Longrightarrow> Connect P k s = Inr (r, k', s') \<Longrightarrow>
      R (c, s) (c, s')"
    and rel_close: "cons_inv lib P c s \<Longrightarrow> conn_inv P k \<Longrightarrow> CloseConnection P k s = Inr (r, k', s') \<Longrightarrow>
      R (c, s) (c, s')"
    and rel_setup: "cons_inv lib P c s \<Longrightarrow> m_isInitialized c \<Longrightarrow> has_channel (m_channelHandler c) ch \<Longrightarrow>
      setupAndConsume P ch c s = Inr (r, c', s') \<Longrightarrow> R (c, s) (c', s')"
    and rel_pull: "cons_inv lib P c s \<Longrightarrow> m_isInitialized c \<Longrightarrow>
      pullNextMessage P c s = Inr (c', s') \<Longrightarrow> R (c, s) (c', s')"
begin

lemma rel_through:
  "m_channelHandler c1 = m_channelHandler c \<Longrightarrow> calls c1 = calls c \<Longrightarrow> R (c1, s) (c2, s') \<Longrightarrow>
     m_channelHandler c' = m_channelHandler c2 \<Longrightarrow> calls c' = calls c2 \<Longrightarrow> R (c, s) (c', s')"
  by (blast intro: rel_trans rel_shell)

lemma rel_consumption_loop:
  assumes "cons_inv lib P c s" and "m_isInitialized c"
    and "\<forall>ch \<in> set chs. has_channel (m_channelHandler c) ch"
    and "consumption_loop P chs r c s = Inr (r', c', s')"
  shows "R (c, s) (c', s')"
  using assms
proof (induction chs arbitrary: r c s)
  case Nil
  then show ?case by (auto intro: rel_shell)
next
  case (Cons ch chs)
  from Cons.prems(3) have ch: "has_channel (m_channelHandler c) ch" by simp
  from setupAndConsume_ok [OF Cons.prems(1,2) ch] obtain r1 c1 s1 where
      st: "setupAndConsume P ch c s = Inr (r1, c1, s1)" "setup_outcome lib P [ch] c (r1, c1, s1)"
    by (auto simp: okr_def)
  note R1 = rel_setup [OF Cons.prems(1,2) ch st(1)]
  show ?case
  proof (cases "serverFailure r1")
    case True
    with Cons.prems(4) st(1) R1 show ?thesis by simp
  next
    case False
    from st(2) have c1: "cons_inv lib P c1 s1" "same_consumer c c1" by (simp_all add: setup_outcome_def)
    from False Cons.prems(4) st(1) have rest: "consumption_loop P chs r1 c1 s1 = Inr (r', c', s')" by simp
    have "R (c1, s1) (c', s')"
      by (rule Cons.IH [OF c1(1) _ _ rest])
         (use Cons.prems c1(2) in \<open>auto simp: same_consumer_def has_channel_tables\<close>)
    with R1 show ?thesis by (rule rel_trans)
  qed
qed

lemma rel_startConsumption:
  assumes inv: "cons_inv lib P c s" and init: "m_isInitialized c"
    and run: "startConsumption P c s = Inr (r, c', s')"
  shows "R (c, s) (c', s')"
proof -
  let ?c = "emptyPendingChannels c" and ?ord = "channel_order (runtime P) (rt_world s)"
  have same: "cons_inv lib P ?c s" "m_isInitialized ?c" "m_channelHandler ?c = m_channelHandler c"
      "calls ?c = calls c"
    using inv init by (simp_all add: cons_inv_def emptyPendingChannels_def)
  have "permuting ?ord" using cons_invD(3) [OF inv] by (simp add: platform_ok_def runtime_ok_def)
  then have "\<forall>ch \<in> set (GetChannelList ?ord (m_channelHandler c)). has_channel (m_channelHandler ?c) ch"
    using GetChannelList_known same(3) by auto
  from rel_consumption_loop [OF same(1,2) this] run have "R (?c, s) (c', s')"
    by (simp add: startConsumption_def)
  from rel_through [OF same(3,4) this refl refl] show ?thesis .
qed

lemma rel_connectAndStart:
  assumes inv: "cons_inv lib P c s" and init: "m_isInitialized c"
    and run: "connectAndStartConsumption P c s = Inr (r, c', s')"
  shows "R (c, s) (c', s')"
proof -
  note lib = cons_invD(2) [OF inv]
  from inv init obtain k where k: "m_connection c = Some k" "consumer_connection c = Inr k" "conn_inv P k"
    by (rule cons_inv_connectionE)
  from Connect_ok [OF k(3), of s] obtain r1 k1 s1 where
      con: "Connect P k s = Inr (r1, k1, s1)" "conn_inv P k1"
    by (auto simp: okr_def)
  let ?c1 = "c\<lparr>m_connection := Some k1\<rparr>"
  have inv1: "cons_inv lib P ?c1 s1"
    using cons_inv_connection [OF cons_inv_quiet [OF inv Connect_quiet [OF lib k(3) con(1)]] k(1) con(2)] .
  have R1: "R (c, s) (?c1, s1)" by (rule rel_through [OF _ _ rel_connect [OF inv k(3) con(1)]]) simp_all
  show ?thesis
  proof (cases "r1 = ALL_GOOD")
    case False
    with run k con R1 show ?thesis by (simp add: connectAndStartConsumption_def)
  next
    case True
    from startConsumption_ok [OF inv1] init obtain r2 c2 s2 where
        st: "startConsumption P ?c1 s1 = Inr (r2, c2, s2)" "cons_inv lib P c2 s2"
        "m_connection c2 = Some k1"
      by (auto simp: okr_def)
    have R2: "R (c, s) (c2, s2)"
      using rel_trans [OF R1 rel_startConsumption [OF inv1 _ st(1)]] init by simp
    from CloseConnection_quiet [OF lib con(2), of s2] obtain r3 k3 s3 where
        cl: "CloseConnection P k1 s2 = Inr (r3, k3, s3)"
      by (auto simp: okr_def)
    have "R (c, s) (c2\<lparr>m_connection := Some k3\<rparr>, s3)"
      by (rule rel_trans [OF R2 rel_through [OF _ _ rel_close [OF st(2) con(2) cl]]]) simp_all
    with True run k con st R2 cl show ?thesis
      by (auto simp: connectAndStartConsumption_def consumer_connection_def split: if_splits)
  qed
qed

lemma rel_thread_step:
  assumes inv: "cons_inv lib P c s" and init: "m_isInitialized c"
    and run: "Consumer_thread_step P pc c s = Inr (c', s')"
  shows "R (c, s) (c', s')"
proof (cases pc)
  case C_Loop
  with run show ?thesis
    by (auto simp: Consumer_thread_step_def consumer_at_def bindr_eq_Inr_iff split: if_splits
        intro!: rel_shell)
next
  case C_Exited
  with run show ?thesis by (auto simp: Consumer_thread_step_def intro: rel_shell)
next
  case C_Connect
  with run obtain r c1 where con: "connectAndStartConsumption P c s = Inr (r, c1, s')"
      and "m_channelHandler c' = m_channelHandler c1" "calls c' = calls c1"
    by (auto simp: Consumer_thread_step_def consumer_at_def bindr_eq_Inr_iff)
  from rel_through [OF refl refl rel_connectAndStart [OF inv init con] this(2,3)] show ?thesis .
next
  case C_Pull
  with run obtain c1 where pull: "pullNextMessage P c s = Inr (c1, s')"
      and "m_channelHandler c' = m_channelHandler c1" "calls c' = calls c1"
    by (auto simp: Consumer_thread_step_def consumer_at_def bindr_eq_Inr_iff)
  from rel_through [OF refl refl rel_pull [OF inv init pull] this(2,3)] show ?thesis .
next
  case C_Pending
  show ?thesis
  proof (cases "pendingChannelSize c = 0")
    case True
    with C_Pending run show ?thesis
      by (auto simp: Consumer_thread_step_def consumer_at_def intro!: rel_shell)
  next
    case False
    then obtain ch chs where p: "m_pendingChannels c = ch # chs"
      using pending_nonempty [of c] by (cases "m_pendingChannels c") auto
    let ?c = "c\<lparr>m_pendingChannels := chs\<rparr>"
    have c1: "cons_inv lib P ?c s" "m_isInitialized ?c" "has_channel (m_channelHandler ?c) ch"
      using inv init p by (simp_all add: cons_inv_def)
    from C_Pending False p run obtain r c2 where st: "setupAndConsume P ch ?c s = Inr (r, c2, s')"
        "m_channelHandler c' = m_channelHandler c2" "calls c' = calls c2"
      by (auto simp: Consumer_thread_step_def popNextPendingChannel_def consumer_at_def bindr_eq_Inr_iff)
    from rel_through [OF _ _ rel_setup [OF c1 st(1)] st(2,3)] show ?thesis by simp
  qed
qed

lemma rel_run_consumer:
  assumes "cons_inv lib P c s" and "m_isInitialized c" and "run_consumer P n c s = Inr (c', s')"
  shows "cons_inv lib P c' s' \<and> R (c, s) (c', s')"
  using assms
proof (induction n arbitrary: c s)
  case 0
  then show ?case by (auto intro: rel_shell)
next
  case (Suc n)
  show ?case
  proof (cases "m_consumerThread c")
    case None
    with Suc.prems show ?thesis by (auto intro: rel_shell)
  next
    case (Some pc)
    with Suc.prems(3) obtain c1 s1 where st: "Consumer_thread_step P pc c s = Inr (c1, s1)"
        and rest: "run_consumer P n c1 s1 = Inr (c', s')"
      by (auto simp: bindr_eq_Inr_iff)
    from Consumer_thread_step_ok [OF Suc.prems(1) Some Suc.prems(2)] st Suc.prems(2)
    have "cons_inv lib P c1 s1" "m_isInitialized c1"
      by (auto simp: okr_def cons_moved_def same_consumer_def)
    from Suc.IH [OF this rest] rel_thread_step [OF Suc.prems(1,2) st] show ?thesis
      by (blast intro: rel_trans)
  qed
qed

lemma rel_Stop:
  assumes inv: "cons_inv lib P c s" and run: "Consumer_Stop P c s = Inr (r, c', s')"
  shows "R (c, s) (c', s')"
proof (cases "m_isInitialized c \<and> m_threadRunning c")
  case False
  with run show ?thesis
    by (auto simp: Consumer_Stop_def Let_def Consumer_IsInitialized_def Consumer_IsRunning_def
        emptyPendingChannels_def split: if_splits intro!: rel_shell)
next
  case True
  let ?c0 = "Consumer_setRunning False (emptyPendingChannels c)"
  have c0: "cons_inv lib P ?c0 s" "m_isInitialized ?c0" "calls ?c0 = calls c"
      "m_channelHandler ?c0 = m_channelHandler c"
    using inv True by (simp_all add: cons_inv_def Consumer_setRunning_def emptyPendingChannels_def)
  from True run obtain c1 s1 k r2 k2 where join: "run_consumer P 4 ?c0 s = Inr (c1, s1)"
      and k: "consumer_connection (c1\<lparr>m_consumerThread := None\<rparr>) = Inr k"
      and cl: "CloseConnection P k s1 = Inr (r2, k2, s')"
      and c': "c' = c1\<lparr>m_consumerThread := None, m_connection := Some k2\<rparr>"
    by (auto simp: Consumer_Stop_def Consumer_join_def Let_def Consumer_IsInitialized_def
        Consumer_IsRunning_def emptyPendingChannels_def bindr_eq_Inr_iff split: if_splits)
  from rel_run_consumer [OF c0(1,2) join] have c1: "cons_inv lib P c1 s1" "R (?c0, s) (c1, s1)"
    by simp_all
  have "conn_inv P k" using c1(1) k by (auto simp: cons_inv_def consumer_connection_def split: option.splits)
  from rel_trans [OF c1(2) rel_close [OF c1(1) this cl]] have "R (?c0, s) (c1, s')" .
  from rel_through [OF c0(4,3) this] c' show ?thesis by simp
qed

lemma rel_Start: "Consumer_Start c = Inr (r, c') \<Longrightarrow> R (c, s) (c', s)"
  by (auto simp: Consumer_Start_def Let_def split: if_splits intro!: rel_shell)

lemma rel_Initialize:
  assumes inv: "cons_inv lib P c s"
    and run: "Consumer_Initialize P host port user pw c s = Inr (r, c', s')"
  shows "R (c, s) (c', s')"
proof -
  from run have s1: "(case m_connection c of None \<Rightarrow> Inr s
      | Some old \<Rightarrow> bindr (ConnectionBase_destroy P old s) (\<lambda>(_, _, s'). Inr s')) = Inr s'"
      and c': "m_channelHandler c' = m_channelHandler c" "calls c' = calls c"
    by (auto simp: Consumer_Initialize_def Let_def bindr_eq_Inr_iff)
  have "R (c, s) (c, s')"
  proof (cases "m_connection c")
    case None
    with s1 show ?thesis by (auto intro: rel_shell)
  next
    case (Some k)
    with s1 obtain r k' where cl: "CloseConnection P k s = Inr (r, k', s')"
      by (auto simp: ConnectionBase_destroy_def bindr_eq_Inr_iff)
    from Some inv have "conn_inv P k" by (simp add: cons_inv_def)
    from rel_close [OF inv this cl] show ?thesis .
  qed
  from rel_through [OF refl refl this c'] show ?thesis .
qed

text \<open>Every action but subscribing and the environment's.\<close>

lemma rel_act:
  assumes inv: "consumer_inv lib P c s" and act: "consumer_act P a c s = Inr (c', s')"
    and other: "\<And>ex key f qp. a \<noteq> C_Subscribe ex key f qp" "\<And>t. a \<noteq> C_Environment t"
  shows "R (c, s) (c', s')"
proof -
  from inv have core: "cons_inv lib P c s" by (simp add: consumer_inv_def)
  show ?thesis
  proof (cases a)
    case C_Start
    with act show ?thesis by (auto simp: consumer_start_def bindr_eq_Inr_iff intro: rel_Start)
  next
    case C_Restart
    with act obtain r where "Consumer_Restart P c s = Inr (r, c', s')" by (auto simp: bindr_eq_Inr_iff)
    then obtain r1 c1 s1 where stop: "Consumer_Stop P c s = Inr (r1, c1, s1)"
        and "c' = c1 \<and> s' = s1 \<or> Consumer_Start c1 = Inr (r, c') \<and> s' = s1"
      by (auto simp: Consumer_Restart_def bindr_eq_Inr_iff split: if_splits)
    then have "R (c1, s1) (c', s')" by (auto intro: rel_shell rel_Start)
    with rel_Stop [OF core stop] show ?thesis by (rule rel_trans)
  next
    case C_Thread
    show ?thesis
    proof (cases "m_consumerThread c")
      case None
      with act C_Thread show ?thesis by (auto intro: rel_shell)
    next
      case (Some pc)
      with inv have "m_isInitialized c" by (auto simp: consumer_inv_def cons_thread_inv_def)
      from rel_thread_step [OF core this] act C_Thread Some show ?thesis by auto
    qed
  qed (use act other in \<open>auto simp: bindr_eq_Inr_iff intro: rel_Stop [OF core] rel_Initialize [OF core]\<close>)
qed

end

section \<open>Worlds\<close>

text \<open>
  What all calls of the consumer respect, receiving included, holds between the worlds before
  and after any of its actions.
\<close>

locale receiver_calls = consumer_calls +
  assumes W_consume_message: "W w (snd (snd (snd (amqp_consume_message (api P) c t fl h w))))"
    and W_release_buffers: "W w (snd (amqp_maybe_release_buffers (api P) c h w))"
    and W_destroy_envelope: "W w (snd (amqp_destroy_envelope (api P) e h w))"
begin

lemma W_handle_envelope: "handle_envelope P e c s = Inr (c', s') \<Longrightarrow> across W s s'"
  using W_destroy_envelope
  by (auto simp: handle_envelope_def bindr_eq_Inr_iff split_beta split: option.splits)

lemma W_ConsumeMessage:
  assumes run: "ConsumeMessage P e k s = Inr (r, e', s')"
  shows "across W s s'"
proof (cases "IsConnected k")
  case False
  with run W_refl show ?thesis by (simp add: ConsumeMessage_def)
next
  case True
  with run obtain conn where h: "handle (m_conn k) = Inr conn"
    by (auto simp: ConsumeMessage_def bindr_eq_Inr_iff)
  obtain reply env hp w where got: "amqp_consume_message (api P) conn (m_timeout k) 0 (rt_heap s)
      (rt_world s) = (reply, env, hp, w)"
    by (rule prod_cases4)
  with W_consume_message [of "rt_world s" conn "m_timeout k" 0 "rt_heap s"]
  have "W (rt_world s) w" by simp
  with True run h got show ?thesis by (auto simp: ConsumeMessage_def)
qed

lemma W_pullNextMessage:
  assumes run: "pullNextMessage P c s = Inr (c', s')"
  shows "across W s s'"
proof -
  from run obtain k where k: "consumer_connection c = Inr k"
    by (auto simp: pullNextMessage_def bindr_eq_Inr_iff)
  show ?thesis
  proof (cases "IsConnected k")
    case False
    with run k W_refl show ?thesis by (simp add: pullNextMessage_def)
  next
    case True
    with run k obtain conn where h: "handle (Connection k) = Inr conn"
      by (auto simp: pullNextMessage_def bindr_eq_Inr_iff)
    obtain hp w where rel: "amqp_maybe_release_buffers (api P) conn (rt_heap s) (rt_world s) = (hp, w)"
      by fastforce
    with True run k h obtain r e s1 where
        got: "ConsumeMessage P None k (s\<lparr>rt_heap := hp, rt_world := w\<rparr>) = Inr (r, e, s1)"
        and rest: "(if noError r then handle_envelope P e c s1
           else if serverFailure r \<and> Consumer_IsRunning c
           then bindr (CloseConnection P k s1) (\<lambda>(_, k1, s2). Inr (c\<lparr>m_connection := Some k1\<rparr>, s2))
           else Inr (c, s1)) = Inr (c', s')"
      by (auto simp: pullNextMessage_def bindr_eq_Inr_iff)
    have "W (rt_world s) w" using W_release_buffers [of "rt_world s" conn "rt_heap s"] rel by simp
    moreover have "W w (rt_world s1)" using W_ConsumeMessage [OF got] by simp
    moreover have "across W s1 s'"
      using rest W_refl
      by (auto simp: bindr_eq_Inr_iff split: if_splits dest: W_handle_envelope W_CloseConnection)
    ultimately show ?thesis by (blast intro: W_trans)
  qed
qed

end

sublocale receiver_calls \<subseteq> acts: consumer_relation lib P "\<lambda>x y. across W (snd x) (snd y)" for lib
  by unfold_locales
     (auto simp: W_refl intro: W_trans dest: W_Connect W_CloseConnection W_setupAndConsume W_pullNextMessage)

context receiver_calls
begin

lemma W_consumer_act:
  assumes inv: "consumer_inv lib P c s" and act: "consumer_act P a c s = Inr (c', s')"
    and env: "\<And>t. a \<noteq> C_Environment t"
  shows "across W s s'"
proof (cases "\<exists>ex key f qp. a = C_Subscribe ex key f qp")
  case True
  with act W_refl show ?thesis by (auto simp: bindr_eq_Inr_iff)
next
  case False
  with acts.rel_act [OF inv act] env show ?thesis by simp
qed

end

end
