(* ===== verification/Consumer_Serving.thy ===== *)
theory Consumer_Serving
  imports Consumer_System Consumer_Relations
begin

text \<open>
  No subscription gets lost. \<open>acc w\<close> is the set of wire channels on which the broker has
  accepted a consumer since the connection was opened. While the consumer is connected, every
  channel that was ever registered is one of them or waits among the pending channels, however
  method calls, the worker thread, reconnects and refusals by the broker interleave.
\<close>

section \<open>The history of accepted consumers\<close>

text \<open>
  Calls on an open connection do not withdraw consumers, and a request to consume that is
  answered by success adds the channel.
\<close>

definition tracks_consumers :: "('w \<Rightarrow> nat set) \<Rightarrow> 'w platform \<Rightarrow> bool" where
  "tracks_consumers acc P \<longleftrightarrow>
     (\<forall>c ch w. acc w \<subseteq> acc (amqp_channel_open (api P) c ch w)) \<and>
     (\<forall>c w. acc w \<subseteq> acc (snd (amqp_get_rpc_reply (api P) c w))) \<and>
     (\<forall>c ch m w. acc w \<subseteq> acc (snd (amqp_send_method (api P) c ch m w))) \<and>
     (\<forall>c ch q ex bk tb w. acc w \<subseteq> acc (amqp_queue_bind (api P) c ch q ex bk tb w)) \<and>
     (\<forall>c ch q p d ex a tb h w. acc w \<subseteq> acc (snd (snd (amqp_queue_declare (api P) c ch q p d ex a tb h w)))) \<and>
     (\<forall>c t fl h w. acc w \<subseteq> acc (snd (snd (snd (amqp_consume_message (api P) c t fl h w))))) \<and>
     (\<forall>c h w. acc w \<subseteq> acc (snd (amqp_maybe_release_buffers (api P) c h w))) \<and>
     (\<forall>e h w. acc w \<subseteq> acc (snd (amqp_destroy_envelope (api P) e h w))) \<and>
     (\<forall>c ch q tag nl na ex tb w. acc w \<subseteq> acc (amqp_basic_consume (api P) c ch q tag nl na ex tb w)) \<and>
     (\<forall>c ch q tag nl na ex tb w reply w'.
        amqp_get_rpc_reply (api P) c (amqp_basic_consume (api P) c ch q tag nl na ex tb w) = (reply, w') \<longrightarrow>
        decodeRpcReply (codes P) reply = ALL_GOOD \<longrightarrow> ch \<in> acc w')"

definition keeps :: "('w \<Rightarrow> nat set) \<Rightarrow> 'w rt \<Rightarrow> 'w rt \<Rightarrow> bool" where
  "keeps acc s s' \<longleftrightarrow> acc (rt_world s) \<subseteq> acc (rt_world s')"

lemma keeps_refl [simp]: "keeps acc s s"
  by (simp add: keeps_def)

lemma keeps_trans: "keeps acc s s' \<Longrightarrow> keeps acc s' s'' \<Longrightarrow> keeps acc s s''"
  by (auto simp: keeps_def)

lemma tracksD:
  assumes "tracks_consumers acc P"
  shows "acc w \<subseteq> acc (amqp_channel_open (api P) c ch w)"
    and "acc w \<subseteq> acc (snd (amqp_get_rpc_reply (api P) c w))"
    and "acc w \<subseteq> acc (snd (amqp_send_method (api P) c ch m w))"
    and "acc w \<subseteq> acc (amqp_queue_bind (api P) c ch q ex bk tb w)"
    and "acc w \<subseteq> acc (snd (snd (amqp_queue_declare (api P) c ch q' p d e a tb h w)))"
    and "acc w \<subseteq> acc (snd (snd (snd (amqp_consume_message (api P) c t fl h w))))"
    and "acc w \<subseteq> acc (snd (amqp_maybe_release_buffers (api P) c h w))"
    and "acc w \<subseteq> acc (snd (amqp_destroy_envelope (api P) env h w))"
    and "acc w \<subseteq> acc (amqp_basic_consume (api P) c ch q tag nl na x tb w)"
  using assms by (simp_all add: tracks_consumers_def)

interpretation accepted_calls: queue_calls P "\<lambda>w w'. tracks_consumers acc P \<longrightarrow> acc w \<subseteq> acc w'"
  for acc :: "'w \<Rightarrow> nat set" and P :: "'w platform"
  by unfold_locales (blast dest: tracksD)+

section \<open>Setting up\<close>

lemma consume_accepted:
  assumes tr: "tracks_consumers acc P" and run: "StartConsumption P ch q k s = Inr (ALL_GOOD, s')"
  shows "wire_channel ch \<in> acc (rt_world s')"
proof -
  from run obtain conn queue where "rpc_result P conn (on_world (amqp_basic_consume (api P) conn
      (wire_channel ch) queue (amqp_empty_bytes (bapi P)) 0 1 0 (amqp_empty_table (bapi P))) s) = (ALL_GOOD, s')"
    by (auto simp: StartConsumption_def bindr_eq_Inr_iff)
  with tr show ?thesis
    unfolding tracks_consumers_def by (auto simp: library_calls split_beta Let_def) (metis prod.collapse)
qed

lemma setupAndConsume_keeps:
  assumes tr: "tracks_consumers acc P" and run: "setupAndConsume P ch c s = Inr (r, c', s')"
  shows "keeps acc s s'" and "r = ALL_GOOD \<Longrightarrow> wire_channel ch \<in> acc (rt_world s')"
proof -
  show "keeps acc s s'" using accepted_calls.W_setupAndConsume [OF run] tr by (simp add: keeps_def)
  assume "r = ALL_GOOD"
  with run obtain q c2 s3 where "consume P ch q c2 s3 = Inr (ALL_GOOD, s')"
    by (auto simp: setupAndConsume_def bindr_eq_Inr_iff split: if_splits)
  then show "wire_channel ch \<in> acc (rt_world s')"
    by (auto simp: consume_def bindr_eq_Inr_iff split: option.splits intro: consume_accepted [OF tr])
qed

definition served :: "('w \<Rightarrow> nat set) \<Rightarrow> Consumer \<Rightarrow> 'w rt \<Rightarrow> int \<Rightarrow> bool" where
  "served acc c s ch \<longleftrightarrow> wire_channel ch \<in> acc (rt_world s) \<or> ch \<in> set (m_pendingChannels c)"

lemma served_mono:
  assumes "served acc c s ch" and "keeps acc s s'"
    and "set (m_pendingChannels c) \<subseteq> set (m_pendingChannels c')"
  shows "served acc c' s' ch"
  using assms by (auto simp: served_def keeps_def)

lemma setupAndConsume_serves:
  assumes tr: "tracks_consumers acc P" and inv: "cons_inv lib P c s" and init: "m_isInitialized c"
    and ch: "has_channel (m_channelHandler c) ch"
  shows "okr (setupAndConsume P ch c s) (\<lambda>(r, c', s'). setup_outcome lib P [ch] c (r, c', s') \<and>
     keeps acc s s' \<and> served acc c' s' ch \<and> set (m_pendingChannels c) \<subseteq> set (m_pendingChannels c'))"
proof -
  from setupAndConsume_ok [OF inv init ch] obtain r c' s' where
      st: "setupAndConsume P ch c s = Inr (r, c', s')" "setup_outcome lib P [ch] c (r, c', s')"
      "m_pendingChannels c' = m_pendingChannels c @ (if r = ALL_GOOD then [] else [ch])"
    by (auto simp: okr_def)
  with setupAndConsume_keeps [OF tr st(1)] show ?thesis by (auto simp: served_def)
qed

lemma consumption_loop_serves:
  assumes tr: "tracks_consumers acc P" and "cons_inv lib P c s" and "m_isInitialized c"
    and "\<forall>ch \<in> set chs. has_channel (m_channelHandler c) ch"
  shows "okr (consumption_loop P chs r c s) (\<lambda>(r', c', s'). setup_outcome lib P chs c (r', c', s') \<and>
     keeps acc s s' \<and> set (m_pendingChannels c) \<subseteq> set (m_pendingChannels c') \<and>
     (serverFailure r' \<or> (\<forall>ch \<in> set chs. served acc c' s' ch)))"
  using assms(2-)
proof (induction chs arbitrary: r c s)
  case Nil
  then show ?case by (simp add: setup_outcome_def)
next
  case (Cons ch chs)
  from Cons.prems(3) have "has_channel (m_channelHandler c) ch" by simp
  from setupAndConsume_serves [OF tr Cons.prems(1,2) this] obtain r1 c1 s1 where
      st: "setupAndConsume P ch c s = Inr (r1, c1, s1)" "setup_outcome lib P [ch] c (r1, c1, s1)"
      "keeps acc s s1" "served acc c1 s1 ch" "set (m_pendingChannels c) \<subseteq> set (m_pendingChannels c1)"
    by (auto simp: okr_def)
  show ?case
  proof (cases "serverFailure r1")
    case True
    with st setup_outcome_mono [OF st(2), of "ch # chs"] show ?thesis by simp
  next
    case False
    from st(2) have c1: "cons_inv lib P c1 s1" "same_consumer c c1" by (simp_all add: setup_outcome_def)
    have "\<forall>ch \<in> set chs. has_channel (m_channelHandler c1) ch" "m_isInitialized c1"
      using Cons.prems c1(2) by (auto simp: same_consumer_def has_channel_tables)
    from Cons.IH [OF c1(1) this(2,1), of r1] obtain r2 c2 s2 where
        rest: "consumption_loop P chs r1 c1 s1 = Inr (r2, c2, s2)"
        "setup_outcome lib P chs c1 (r2, c2, s2)" "keeps acc s1 s2"
        "set (m_pendingChannels c1) \<subseteq> set (m_pendingChannels c2)"
        "serverFailure r2 \<or> (\<forall>ch \<in> set chs. served acc c2 s2 ch)"
      by (auto simp: okr_def)
    have "served acc c2 s2 ch" using served_mono [OF st(4) rest(3,4)] .
    with st rest False setup_outcome_trans [OF st(2) rest(2)] keeps_trans [OF st(3) rest(3)]
    show ?thesis by auto
  qed
qed

text \<open>Every registered channel is in the list that a reconnect goes through.\<close>

lemma GetChannelList_all:
  assumes "permuting order" and "has_channel h ch"
  shows "ch \<in> set (GetChannelList order h)"
  using assms permuting_set [OF assms(1), of "keys (m_channelLookup h)"]
  by (auto simp: GetChannelList_def has_channel_def map_of_None_iff_keys split: if_splits)

section \<open>Serving\<close>

definition connected :: "Consumer \<Rightarrow> bool" where
  "connected c \<longleftrightarrow> (\<exists>k. m_connection c = Some k \<and> IsConnected k)"

text \<open>Every channel is served, those in \<open>X\<close> apart.\<close>

definition serving :: "int set \<Rightarrow> ('w \<Rightarrow> nat set) \<Rightarrow> Consumer \<Rightarrow> 'w rt \<Rightarrow> bool" where
  "serving X acc c s \<longleftrightarrow> (connected c \<longrightarrow> m_threadRunning c \<and>
     (\<forall>ch. has_channel (m_channelHandler c) ch \<longrightarrow> ch \<in> X \<or> served acc c s ch))"

text \<open>The worker thread connects only when it has found the connection closed.\<close>

definition connect_guarded :: "Consumer \<Rightarrow> bool" where
  "connect_guarded c \<longleftrightarrow> (m_consumerThread c = Some C_Connect \<longrightarrow> \<not> connected c)"

lemma serving_closed: "\<not> connected c \<Longrightarrow> serving X acc c s"
  by (simp add: serving_def)

lemma closed_connection: "m_connection c = Some k \<Longrightarrow> \<not> IsConnected k \<Longrightarrow> \<not> connected c"
  by (simp add: connected_def)

lemma serving_at [simp]: "serving X acc (consumer_at pc c) s = serving X acc c s"
  by (simp add: serving_def served_def connected_def consumer_at_def)

lemma connect_serves:
  assumes tr: "tracks_consumers acc P" and inv: "cons_inv lib P c s" and init: "m_isInitialized c"
    and run: "m_threadRunning c" and closed: "\<not> connected c"
  shows "okr (connectAndStartConsumption P c s) (\<lambda>(r, c', s'). serving X acc c' s')"
proof -
  note lib = cons_invD(2) [OF inv]
  from inv init obtain k where k: "m_connection c = Some k" "consumer_connection c = Inr k" "conn_inv P k"
    by (rule cons_inv_connectionE)
  from closed k(1) have "\<not> IsConnected k" by (simp add: connected_def)
  with Connect_ok [OF k(3), of s] obtain r1 k1 s1 where
      con: "Connect P k s = Inr (r1, k1, s1)" "conn_inv P k1" "r1 \<noteq> ALL_GOOD \<longrightarrow> \<not> IsConnected k1"
    by (auto simp: okr_def)
  let ?c1 = "emptyPendingChannels (c\<lparr>m_connection := Some k1\<rparr>)"
    and ?ord = "channel_order (runtime P) (rt_world s1)"
  show ?thesis
  proof (cases "r1 = ALL_GOOD")
    case False
    with k con closed_connection [of "c\<lparr>m_connection := Some k1\<rparr>" k1] show ?thesis
      by (simp add: connectAndStartConsumption_def serving_closed)
  next
    case True
    have inv1: "cons_inv lib P ?c1 s1" "m_isInitialized ?c1"
      using cons_inv_connection [OF cons_inv_quiet [OF inv Connect_quiet [OF lib k(3) con(1)]] k(1) con(2)] init
      by (simp_all add: cons_inv_def emptyPendingChannels_def)
    have perm: "permuting ?ord" using cons_invD(3) [OF inv] by (simp add: platform_ok_def runtime_ok_def)
    have "\<forall>ch \<in> set (GetChannelList ?ord (m_channelHandler c)). has_channel (m_channelHandler ?c1) ch"
      using GetChannelList_known [OF perm] by (simp add: emptyPendingChannels_def)
    from consumption_loop_serves [OF tr inv1 this, of ALL_GOOD] obtain r2 c2 s2 where
        st: "startConsumption P (c\<lparr>m_connection := Some k1\<rparr>) s1 = Inr (r2, c2, s2)"
        "setup_outcome lib P (GetChannelList ?ord (m_channelHandler c)) ?c1 (r2, c2, s2)"
        "serverFailure r2 \<or> (\<forall>ch \<in> set (GetChannelList ?ord (m_channelHandler c)). served acc c2 s2 ch)"
      by (auto simp: okr_def startConsumption_def)
    from st(2) have c2: "m_connection c2 = Some k1" "same_tables (m_channelHandler c) (m_channelHandler c2)"
        "m_threadRunning c2"
      using run by (simp_all add: setup_outcome_def same_consumer_def emptyPendingChannels_def)
    show ?thesis
    proof (cases "serverFailure r2")
      case True
      from CloseConnection_quiet [OF lib con(2), of s2] obtain r3 k3 s3 where
          "CloseConnection P k1 s2 = Inr (r3, k3, s3)" "\<not> IsConnected k3"
        by (auto simp: okr_def)
      with True \<open>r1 = ALL_GOOD\<close> k con st(1) c2 closed_connection [of "c2\<lparr>m_connection := Some k3\<rparr>" k3]
      show ?thesis
        by (simp add: connectAndStartConsumption_def consumer_connection_def serving_closed)
    next
      case False
      with st(3) c2 GetChannelList_all [OF perm] have "serving X acc c2 s2"
        by (simp add: serving_def has_channel_tables)
      with False \<open>r1 = ALL_GOOD\<close> k con st(1) show ?thesis
        by (simp add: connectAndStartConsumption_def)
    qed
  qed
qed

lemma handle_envelope_keeps:
  assumes tr: "tracks_consumers acc P" and run: "handle_envelope P e c s = Inr (c', s')"
  shows "keeps acc s s' \<and> (\<exists>cs. c' = c\<lparr>calls := cs\<rparr>)"
proof -
  from run obtain env hp hp' call where "c' = c\<lparr>calls := calls c @ call\<rparr>"
      "s' = s\<lparr>rt_heap := hp', rt_world := snd (amqp_destroy_envelope (api P) env hp (rt_world s))\<rparr>"
    by (cases e) (auto simp: handle_envelope_def bindr_eq_Inr_iff split_beta)
  with tracksD(8) [OF tr] show ?thesis by (auto simp: keeps_def simp del: subset_iff)
qed

text \<open>Pulling a message closes the connection or leaves everything but the calls alone.\<close>

lemma pulled_keeps:
  assumes tr: "tracks_consumers acc P" and lib: "library_ok lib P" and k: "conn_inv P k"
    and run: "pulled P k ret e c s = Inr (c', s')"
  shows "\<not> connected c' \<or> keeps acc s s' \<and> (\<exists>cs. c' = c\<lparr>calls := cs\<rparr>)"
proof -
  have same: "\<exists>cs. c = c\<lparr>calls := cs\<rparr>" by (intro exI [of _ "calls c"]) simp
  from CloseConnection_quiet [OF lib k, of s] obtain r2 k2 s2 where
      "CloseConnection P k s = Inr (r2, k2, s2)" "\<not> IsConnected k2"
    by (auto simp: okr_def)
  with run same handle_envelope_keeps [OF tr, of e c s c' s'] show ?thesis
    by (auto simp: pulled_def connected_def split: if_splits)
qed

lemma pull_keeps:
  assumes tr: "tracks_consumers acc P" and inv: "cons_inv lib P c s" and init: "m_isInitialized c"
    and run: "pullNextMessage P c s = Inr (c', s')"
  shows "\<not> connected c' \<or> keeps acc s s' \<and> (\<exists>cs. c' = c\<lparr>calls := cs\<rparr>)"
proof -
  from inv init obtain k where k: "m_connection c = Some k" "consumer_connection c = Inr k" "conn_inv P k"
    by (rule cons_inv_connectionE)
  show ?thesis
  proof (cases "IsConnected k")
    case False
    with k run show ?thesis by (auto simp: pullNextMessage_def connected_def)
  next
    case True
    from inv k(2,3) True obtain p hp w reply e hp1 w1 where
        rel: "amqp_maybe_release_buffers (api P) p (rt_heap s) (rt_world s) = (hp, w)"
        and got: "amqp_consume_message (api P) p (m_timeout k) 0 hp w = (reply, e, hp1, w1)"
        and "lib_step lib s (s\<lparr>rt_heap := hp1, rt_world := w1\<rparr>)"
        and "decodeRpcReply (codes P) reply = ALL_GOOD \<longrightarrow>
          (\<exists>env. e = Some env \<and> envelope_readable (flags P) hp1 env)"
        and pull: "pullNextMessage P c s = pulled P k (decodeRpcReply (codes P) reply) e c (s\<lparr>rt_heap := hp1, rt_world := w1\<rparr>)"
      by (rule pull_connectedE)
    have k1: "keeps acc s (s\<lparr>rt_heap := hp1, rt_world := w1\<rparr>)"
      using tracksD(7) [OF tr, of "rt_world s" p "rt_heap s"] tracksD(6) [OF tr, of w p "m_timeout k" 0 hp]
        rel got by (auto simp: keeps_def)
    from pulled_keeps [OF tr cons_invD(2) [OF inv] k(3) pull [symmetric, unfolded run]] show ?thesis
      using keeps_trans [OF k1] by blast
  qed
qed

lemma pull_serves:
  assumes tr: "tracks_consumers acc P" and inv: "cons_inv lib P c s" and init: "m_isInitialized c"
    and sv: "serving X acc c s"
  shows "okr (pullNextMessage P c s) (\<lambda>(c', s'). serving X acc c' s')"
proof -
  from pullNextMessage_ok [OF inv init] obtain c' s' where run: "pullNextMessage P c s = Inr (c', s')"
    by (auto simp: okr_def)
  from pull_keeps [OF tr inv init run] have "serving X acc c' s'"
  proof (elim disjE conjE exE)
    fix cs
    assume kp: "keeps acc s s'" and c': "c' = c\<lparr>calls := cs\<rparr>"
    have "served acc c' s' ch" if "served acc c s ch" for ch
      using served_mono [OF that kp] c' by simp
    with sv c' show ?thesis by (auto simp: serving_def connected_def)
  qed (rule serving_closed)
  with run show ?thesis by simp
qed

text \<open>Testing the pending channels.\<close>

lemma pending_serves:
  assumes tr: "tracks_consumers acc P" and inv: "cons_inv lib P c s" and init: "m_isInitialized c"
    and sv: "serving X acc c s"
  shows "okr (Consumer_thread_step P C_Pending c s) (\<lambda>(c', s'). serving X acc c' s' \<and> connect_guarded c')"
proof (cases "pendingChannelSize c = 0")
  case True
  with sv show ?thesis
    by (simp add: Consumer_thread_step_def) (simp add: connect_guarded_def consumer_at_def)
next
  case False
  then obtain ch chs where p: "m_pendingChannels c = ch # chs"
    using pending_nonempty [of c] by (cases "m_pendingChannels c") auto
  let ?c = "c\<lparr>m_pendingChannels := chs\<rparr>"
  have "cons_inv lib P ?c s" "m_isInitialized ?c" "has_channel (m_channelHandler ?c) ch"
    using inv init p by (simp_all add: cons_inv_def)
  from setupAndConsume_serves [OF tr this] obtain r c2 s2 where
      st: "setupAndConsume P ch ?c s = Inr (r, c2, s2)" "setup_outcome lib P [ch] ?c (r, c2, s2)"
      "keeps acc s s2" "served acc c2 s2 ch" "set chs \<subseteq> set (m_pendingChannels c2)"
    by (auto simp: okr_def)
  have "served acc c2 s2 d" if "served acc c s d" for d
    using that st(3-5) p by (auto simp: served_def keeps_def)
  with sv st(2) have "serving X acc c2 s2"
    by (auto simp: serving_def connected_def setup_outcome_def same_consumer_def has_channel_tables)
  with False p st(1) show ?thesis
    by (simp add: Consumer_thread_step_def popNextPendingChannel_def)
       (simp add: connect_guarded_def consumer_at_def)
qed

text \<open>One step of the worker thread.\<close>

lemma thread_step_serves:
  assumes tr: "tracks_consumers acc P" and inv: "cons_inv lib P c s" and pc: "m_consumerThread c = Some pc"
    and init: "m_isInitialized c" and run: "m_threadRunning c"
    and sv: "serving X acc c s" and gd: "connect_guarded c"
  shows "okr (Consumer_thread_step P pc c s) (\<lambda>(c', s'). serving X acc c' s' \<and> connect_guarded c')"
proof (cases pc)
  case C_Loop
  from inv init obtain k where "consumer_connection c = Inr k" "m_connection c = Some k"
    by (rule cons_inv_connectionE)
  with C_Loop sv run show ?thesis
    by (simp add: Consumer_thread_step_def Consumer_IsRunning_def)
       (simp add: connect_guarded_def connected_def consumer_at_def)
next
  case C_Exited
  with sv gd show ?thesis by (simp add: Consumer_thread_step_def)
next
  case C_Connect
  with gd pc have "\<not> connected c" by (simp add: connect_guarded_def)
  from connect_serves [OF tr inv init run this, of X] C_Connect show ?thesis
    by (auto simp: Consumer_thread_step_def okr_def connect_guarded_def consumer_at_def [abs_def])
       (auto simp: consumer_at_def [symmetric])
next
  case C_Pull
  from pull_serves [OF tr inv init sv] C_Pull show ?thesis
    by (auto simp: Consumer_thread_step_def okr_def connect_guarded_def)
       (auto simp: consumer_at_def)
next
  case C_Pending
  from pending_serves [OF tr inv init sv] C_Pending show ?thesis by simp
qed

text \<open>
  The steps of \<open>Subscribe\<close>: registering adds a channel that is not yet served, handing it to the
  worker thread makes it pending.
\<close>

lemma handler_step_connected: "handler_step c c' \<Longrightarrow> connected c' = connected c"
  by (simp add: handler_step_def connected_def)

lemma handler_step_guarded: "handler_step c c' \<Longrightarrow> connect_guarded c' = connect_guarded c"
  by (simp add: handler_step_def connect_guarded_def connected_def)

lemma handler_step_serves:
  assumes "handler_step c c'" and "serving X acc c s"
    and "\<And>d. has_channel (m_channelHandler c') d \<Longrightarrow>
      has_channel (m_channelHandler c) d \<and> d \<notin> X \<or> d \<in> Y \<or> m_threadRunning c \<and> d \<in> set (m_pendingChannels c')"
  shows "serving Y acc c' s"
  using assms handler_step_connected [OF assms(1)]
  by (auto simp: serving_def handler_step_def served_def)

lemma register_serves:
  assumes "cons_inv lib P c s" and "m_nextAvailableChannel (m_channelHandler c) < INT_MAX"
    and "subscribe_register ex key f c = Inr (x, c')" and "serving X acc c s"
  shows "serving (X \<union> {ch. x = Inr ch}) acc c' s"
  using register_ok [OF assms(1,2), of ex key f] assms(3,4)
  by (auto simp: okr_def intro: handler_step_serves)

lemma configure_serves:
  assumes "cons_inv lib P c s" and "has_channel (m_channelHandler c) ch"
    and "subscribe_configure ch qp c = Inr c'" and "serving X acc c s"
  shows "serving X acc c' s"
  using configure_ok [OF assms(1,2), of qp] assms(3,4)
  by (auto simp: okr_def intro: handler_step_serves)

lemma push_serves:
  assumes "cons_inv lib P c s" and "has_channel (m_channelHandler c) ch" and "serving X acc c s"
  shows "serving (X - {ch}) acc (subscribe_push ch c) s"
proof (cases "m_threadRunning c")
  case True
  show ?thesis
    by (rule handler_step_serves [OF push_ok(2) [OF assms(1,2)] assms(3)])
       (use push_ok(3,4) [OF assms(1,2)] True in auto)
next
  case False
  with assms(3) have "\<not> connected c" by (simp add: serving_def)
  then show ?thesis by (simp add: serving_closed handler_step_connected [OF push_ok(2) [OF assms(1,2)]])
qed

lemma Subscribe_serves:
  assumes inv: "cons_inv lib P c s" and room: "m_nextAvailableChannel (m_channelHandler c) < INT_MAX"
    and run: "Subscribe ex key f qp c = Inr (r, c')" and sv: "serving X acc c s"
  shows "serving X acc c' s"
proof -
  from register_ok [OF inv room, of ex key f] obtain x c1 where
      reg: "subscribe_register ex key f c = Inr (x, c1)" "cons_inv lib P c1 s"
      "\<forall>ch. x = Inr ch \<longrightarrow> has_channel (m_channelHandler c1) ch"
    by (auto simp: okr_def)
  note sv1 = register_serves [OF inv room reg(1) sv]
  show ?thesis
  proof (cases x)
    case (Inl e)
    with run reg(1) sv1 show ?thesis by (simp add: Subscribe_phases)
  next
    case (Inr ch)
    with reg(3) have ch: "has_channel (m_channelHandler c1) ch" by simp
    from configure_ok [OF reg(2) ch, of qp] ch obtain c2 where
        conf: "subscribe_configure ch qp c1 = Inr c2" "cons_inv lib P c2 s" "has_channel (m_channelHandler c2) ch"
      by (auto simp: okr_def)
    from push_serves [OF conf(2,3) configure_serves [OF reg(2) ch conf(1) sv1]]
    have "serving (X - {ch}) acc c' s" using run reg(1) Inr conf(1) by (simp add: Subscribe_phases)
    then show ?thesis by (auto simp: serving_def)
  qed
qed

section \<open>Along every run\<close>

text \<open>The transition system, with an environment that does not withdraw consumers either.\<close>

inductive consumer_tracked ::
    "('w \<Rightarrow> nat set) \<Rightarrow> ('w \<Rightarrow> nat set) \<Rightarrow> 'w platform \<Rightarrow> Consumer \<Rightarrow> 'w rt \<Rightarrow> bool"
    for lib acc P where
  start: "consumer_library lib P \<Longrightarrow> lib_inv lib s \<Longrightarrow> consumer_tracked lib acc P Consumer_init s"
| step: "consumer_tracked lib acc P c s \<Longrightarrow> consumer_permitted lib a c s \<Longrightarrow>
    (\<And>t. a = C_Environment t \<Longrightarrow> keeps acc s t) \<Longrightarrow>
    consumer_act P a c s = Inr (c', s') \<Longrightarrow> consumer_tracked lib acc P c' s'"

lemma tracked_reachable: "consumer_tracked lib acc P c s \<Longrightarrow> consumer_reachable lib P c s"
  by (induction rule: consumer_tracked.induct) (auto intro: consumer_reachable.intros)

lemma Start_serves:
  assumes inv: "cons_inv lib P c s" and th: "cons_thread_inv c" and sv: "serving X acc c s"
    and gd: "connect_guarded c" and run: "Consumer_Start c = Inr (r, c')"
  shows "serving X acc c' s \<and> connect_guarded c'"
proof -
  from Consumer_Start_ok [OF inv th] run consider "c' = c"
    | "c' = c\<lparr>m_threadRunning := True, m_consumerThread := Some C_Loop\<rparr>"
    by (auto simp: okr_def split: if_splits)
  then show ?thesis
    by cases (use sv gd in \<open>auto simp: serving_def connect_guarded_def connected_def served_def\<close>)
qed

lemma Stop_closes:
  assumes inv: "consumer_inv lib P c s" and sv: "serving X acc c s"
    and run: "Consumer_Stop P c s = Inr (r, c', s')"
  shows "\<not> connected c'"
proof (cases "m_threadRunning c")
  case True
  from inv cons.running_initialized [OF inv True] Consumer_Stop_ok [of lib P c s] run True
  show ?thesis by (auto simp: okr_def consumer_inv_def connected_def)
next
  case False
  with sv have "\<not> connected c" by (simp add: serving_def)
  with run False show ?thesis
    by (auto simp: Consumer_Stop_def Let_def Consumer_IsInitialized_def Consumer_IsRunning_def
        emptyPendingChannels_def connected_def split: if_splits)
qed

lemma unconnected: "\<not> connected c \<Longrightarrow> serving X acc c s \<and> connect_guarded c"
  by (simp add: serving_def connect_guarded_def)

lemma Stop_keeps_inv:
  assumes "consumer_inv lib P c s" and "Consumer_Stop P c s = Inr (r, c', s')"
  shows "consumer_inv lib P c' s'"
  using assms cons.stop_law [OF assms(1)] Stop_uninitialized [OF assms(1)]
  by (cases "m_isInitialized c") (auto simp: okr_def)

lemma Restart_serves:
  assumes inv: "consumer_inv lib P c s" and sv: "serving X acc c s"
    and run: "Consumer_Restart P c s = Inr (r, c', s')"
  shows "serving X acc c' s' \<and> connect_guarded c'"
proof -
  from run obtain r1 c1 s1 where stop: "Consumer_Stop P c s = Inr (r1, c1, s1)"
      and rest: "c' = c1 \<and> s' = s1 \<or> Consumer_Start c1 = Inr (r, c') \<and> s' = s1"
    by (auto simp: Consumer_Restart_def bindr_eq_Inr_iff split: if_splits)
  from Stop_keeps_inv [OF inv stop] have "cons_inv lib P c1 s1" "cons_thread_inv c1"
    by (simp_all add: consumer_inv_def)
  with unconnected [OF Stop_closes [OF inv sv stop], of X acc s1] rest Start_serves [of lib P c1 s1 X acc r c']
  show ?thesis by auto
qed

lemma act_serves:
  assumes tr: "tracks_consumers acc P" and inv: "consumer_inv lib P c s"
    and perm: "consumer_permitted lib a c s" and env: "\<And>t. a = C_Environment t \<Longrightarrow> keeps acc s t"
    and act: "consumer_act P a c s = Inr (c', s')"
    and sv: "serving X acc c s" and gd: "connect_guarded c"
  shows "serving X acc c' s' \<and> connect_guarded c'"
proof -
  from inv have core: "cons_inv lib P c s" and th: "cons_thread_inv c"
    by (simp_all add: consumer_inv_def)
  show ?thesis
  proof (cases a)
    case (C_Initialize server port user pw)
    have "\<not> connected c'"
      using act C_Initialize
      by (auto simp: Consumer_Initialize_def bindr_eq_Inr_iff connected_def ConnectionBase_init_def
          IsConnected_def)
    then show ?thesis by (rule unconnected)
  next
    case (C_Subscribe ex key f qp)
    with act obtain r where sub: "Subscribe ex key f qp c = Inr (r, c')" and "s' = s"
      by (auto simp: bindr_eq_Inr_iff)
    from C_Subscribe perm have room: "m_nextAvailableChannel (m_channelHandler c) < INT_MAX" by simp
    from Subscribe_ok [OF core room, of ex key f qp] sub have "handler_step c c'" by (auto simp: okr_def)
    with gd \<open>s' = s\<close> Subscribe_serves [OF core room sub sv] show ?thesis
      by (simp add: handler_step_guarded)
  next
    case C_Start
    with act Start_serves [OF core th sv gd] show ?thesis
      by (auto simp: consumer_start_def bindr_eq_Inr_iff)
  next
    case C_Stop
    with act obtain r where "Consumer_Stop P c s = Inr (r, c', s')" by (auto simp: bindr_eq_Inr_iff)
    from unconnected [OF Stop_closes [OF inv sv this]] show ?thesis .
  next
    case C_Restart
    with act obtain r where "Consumer_Restart P c s = Inr (r, c', s')" by (auto simp: bindr_eq_Inr_iff)
    from Restart_serves [OF inv sv this] show ?thesis .
  next
    case C_Thread
    show ?thesis
    proof (cases "m_consumerThread c")
      case None
      with act sv gd C_Thread show ?thesis by simp
    next
      case (Some pc)
      with th have "m_isInitialized c" "m_threadRunning c" by (auto simp: cons_thread_inv_def)
      from thread_step_serves [OF tr core Some this sv gd] act C_Thread Some show ?thesis
        by (auto simp: okr_def)
    qed
  next
    case (C_Environment t)
    with act env [OF C_Environment] sv gd show ?thesis by (auto simp: serving_def intro: served_mono)
  qed
qed

lemma tracked_serving:
  assumes "consumer_tracked lib acc P c s" and "tracks_consumers acc P"
  shows "serving {} acc c s \<and> connect_guarded c"
  using assms(1)
proof (induction rule: consumer_tracked.induct)
  case (start s)
  show ?case by (simp add: serving_def connect_guarded_def connected_def Consumer_init_def)
next
  case (step c s a c' s')
  note inv = consumer_reachable_inv [OF tracked_reachable [OF step.hyps(1)]]
  show ?case
    by (rule act_serves [OF assms(2) inv step.hyps(2) _ step.hyps(4)]) (use step in auto)
qed

end
