(* ===== verification/Loopback_Broker.thy ===== *)
theory Loopback_Broker
  imports Reference_Library
begin

text \<open>
  A broker that grants every request, keeps the channels opened and those with a consumer, and
  hands back what is published to it, in order, each message once: the instance on which the
  properties of a whole process are applied.
\<close>

record loop_world =
  lw_delivered :: "(nat \<times> string \<times> string \<times> string) list"
  lw_waiting :: "(nat \<times> string \<times> string \<times> string) list"
  lw_consumers :: "nat list"
  lw_opened :: "nat list"

definition lw_letters :: "loop_world \<Rightarrow> (nat \<times> string \<times> string \<times> string) list" where
  "lw_letters w = lw_delivered w @ lw_waiting w"

definition lw_arrived :: "loop_world \<Rightarrow> (string \<times> string \<times> string) list" where
  "lw_arrived w = map snd (lw_delivered w)"

definition loop_consume :: "heap \<Rightarrow> loop_world \<Rightarrow> amqp_rpc_reply \<times> amqp_envelope option \<times> heap \<times> loop_world" where
  "loop_consume h w =
     (case lw_waiting w of
        [] \<Rightarrow> (library_reply (- 13), None, h, w)
      | l # ls \<Rightarrow> (normal_reply, Some (fst (deliver (snd l) h)), snd (deliver (snd l) h),
           w\<lparr>lw_delivered := lw_delivered w @ [l], lw_waiting := ls\<rparr>))"

definition loop_api :: "loop_world amqp_api" where
  "loop_api =
     \<lparr>amqp_new_connection = (\<lambda>w. (Ptr 1, w)),
      amqp_tcp_socket_new = (\<lambda>c w. (Ptr 2, w)),
      amqp_socket_open_noblock = (\<lambda>k host port t w. (0, w)),
      amqp_login = (\<lambda>c vhost cm fm hb sasl user pw w. (normal_reply, w)),
      amqp_connection_close = (\<lambda>c code w. (normal_reply, w)),
      amqp_destroy_connection = (\<lambda>c w. w),
      amqp_exchange_declare = (\<lambda>c ch ex ty p d a i tb w. w),
      amqp_get_rpc_reply = (\<lambda>c w. (normal_reply, w)),
      amqp_channel_open = (\<lambda>c ch w. w\<lparr>lw_opened := ch # lw_opened w\<rparr>),
      amqp_send_method = (\<lambda>c ch m w. (0, w)),
      amqp_channel_close = (\<lambda>c ch code w. w),
      amqp_basic_publish = (\<lambda>c ch ex rk ma im p fs body w.
        (0, w\<lparr>lw_waiting := lw_waiting w @ [(ch, ex, rk, body)]\<rparr>)),
      amqp_consume_message = (\<lambda>c t fl h w. loop_consume h w),
      amqp_basic_consume = (\<lambda>c ch q tag nl na ex tb w. w\<lparr>lw_consumers := ch # lw_consumers w\<rparr>),
      amqp_queue_declare = (\<lambda>c ch q p d e a tb h w.
        (Some \<lparr>ab_len = 7, ab_bytes = Ptr (h_next h)\<rparr>, put_block ''amq.gen'' h, w)),
      amqp_queue_bind = (\<lambda>c ch q ex bk tb w. w),
      amqp_maybe_release_buffers = (\<lambda>c h w. (h, w)),
      amqp_destroy_envelope = (\<lambda>e h w. (h, w))\<rparr>"

definition loop_platform :: "loop_world platform" where
  "loop_platform =
     \<lparr>flags = ref_flags, codes = ref_codes, bapi = ref_bapi\<lparr>amqp_bytes_malloc_dup := polite_dup\<rparr>,
      api = loop_api, runtime = ref_runtime\<rparr>"

definition loop_rt :: "loop_world rt" where
  "loop_rt = \<lparr>rt_heap = empty_heap, rt_world = \<lparr>lw_delivered = [], lw_waiting = [], lw_consumers = [], lw_opened = []\<rparr>\<rparr>"

lemma loop_platform_ok: "platform_ok loop_platform"
  using polite_platform_ok
  by (simp add: platform_ok_def polite_platform_def loop_platform_def runtime_ok_def ref_runtime_def permuting_def)

lemma loop_respects_memory: "respects_memory (\<lambda>_. {}) loop_api"
proof -
  have same: "lib_step (\<lambda>_. {}) s \<lparr>rt_heap = rt_heap s, rt_world = w\<rparr>" if "lib_inv (\<lambda>_. {}) s"
    for s :: "loop_world rt" and w
    using quiet_step [OF that] by (simp add: quiet_def)
  have decl: "lib_step (\<lambda>_. {}) s \<lparr>rt_heap = put_block ''amq.gen'' (rt_heap s), rt_world = w\<rparr>"
    if "lib_inv (\<lambda>_. {}) s" for s :: "loop_world rt" and w
    using lib_step_trans [OF put_block_step [OF that] same [OF lib_stepD(1) [OF put_block_step [OF that]]]]
    by simp
  show ?thesis
    using same decl deliver_step [unfolded rt_update]
    by (auto simp: respects_memory_def loop_api_def loop_consume_def split: list.splits)
qed

lemma loop_library: "consumer_library (\<lambda>_. {}) loop_platform"
proof -
  have "heapless (\<lambda>_. {}) loop_api" by (simp add: heapless_def)
  moreover have "connections_available loop_platform"
    by (simp add: connections_available_def loop_platform_def loop_api_def)
  ultimately have "library_ok (\<lambda>_. {}) loop_platform"
    using loop_platform_ok loop_respects_memory
    by (simp add: library_ok_def) (simp add: loop_platform_def)
  moreover have "envelopes_filled loop_platform"
    using deliver_readable
    by (auto simp: envelopes_filled_def loop_platform_def loop_api_def loop_consume_def ref_codes_def
        library_reply_def normal_reply_def decodeRpcReply_def decodeLibraryException_def Let_def
        split: list.splits)
  moreover have "queues_accepted loop_platform"
    by (auto simp: queues_accepted_def loop_platform_def loop_api_def ref_codes_def put_block_def
        normal_reply_def decodeRpcReply_def deref_bytes_def load_bytes_def)
  moreover have "copies_succeed loop_platform"
    by (auto simp: copies_succeed_def loop_platform_def polite_dup_def bindr_eq_Inr_iff)
  ultimately show ?thesis by (simp add: consumer_library_def)
qed

lemma loop_memory: "lib_inv (\<lambda>_. {}) loop_rt"
  by (simp add: lib_inv_def loop_rt_def)

end
