(* ===== verification/Consumer_Progress.thy ===== *)
theory Consumer_Progress
  imports Consumer_Serving Loopback_Broker
begin

text \<open>
  Progress of the consumer: once the broker grants what it is asked for, the worker thread opens a
  lost connection again and works off the pending channels, so that every subscription is served
  within a number of steps that the state determines.
\<close>

section \<open>A broker that grants requests\<close>

text \<open>
  Connecting and logging in succeed, every request is answered by success, and waiting for a
  message does not end in a failure of the connection (a timeout may occur).
\<close>

definition granting :: "'w platform \<Rightarrow> bool" where
  "granting P \<longleftrightarrow>
     (\<forall>conn w. fst (amqp_tcp_socket_new (api P) conn w) \<noteq> Null) \<and>
     (\<forall>sock host port t w. fst (amqp_socket_open_noblock (api P) sock host port t w) = 0) \<and>
     (\<forall>conn vh cm fm hb sasl user pw w.
        reply_type (fst (amqp_login (api P) conn vh cm fm hb sasl user pw w)) = 1) \<and>
     (\<forall>conn w. decodeRpcReply (codes P) (fst (amqp_get_rpc_reply (api P) conn w)) = ALL_GOOD) \<and>
     (\<forall>conn t fl h w. \<not> serverFailure
        (decodeRpcReply (codes P) (fst (amqp_consume_message (api P) conn t fl h w))))"

lemma granting_rpc:
  assumes "granting P"
  shows "fst (rpc_result P conn s) = ALL_GOOD" and "rpc_result P conn s = (r, s') \<Longrightarrow> r = ALL_GOOD"
  using assms by (auto simp: granting_def rpc_result_def from_world_def split_beta)

lemma granted_setup:
  assumes gr: "granting P" and con: "connected c" and run: "setupAndConsume P ch c s = Inr (r, c', s')"
  shows "r = ALL_GOOD"
proof -
  have "r1 = ALL_GOOD" if "openChannel P ch c s = Inr (r1, s1)" for r1 s1
    using that con
    by (auto simp: granting_rpc(1) [OF gr] openChannel_def OpenChannel_def consumer_connection_def connected_def
        bindr_eq_Inr_iff Let_def split_beta)
  moreover have "r2 = ALL_GOOD" if "declareQueue P ch q c1 s1 = Inr (r2, q', c2, s2)" for q c1 s1 r2 q' c2 s2
    using that
    by (auto simp: declareQueue_def DeclareQueue_def bindr_eq_Inr_iff Let_def split_beta
        split: option.splits if_splits)
  moreover have "r3 = ALL_GOOD" if "bindQueue P ch q c2 s2 = Inr (r3, s3)" for q c2 s2 r3 s3
    using that granting_rpc(2) [OF gr]
    by (auto simp: bindQueue_def BindQueue_def bindr_eq_Inr_iff Let_def split: option.splits)
  moreover have "r4 = ALL_GOOD" if "consume P ch q c2 s3 = Inr (r4, s4)" for q c2 s3 r4 s4
    using that granting_rpc(2) [OF gr]
    by (auto simp: consume_def StartConsumption_def bindr_eq_Inr_iff Let_def split: option.splits)
  ultimately show ?thesis
    using run by (auto simp: setupAndConsume_def bindr_eq_Inr_iff split: if_splits)
qed

lemma granted_connect:
  assumes "granting P" and "Connect P k s = Inr (r, k', s')" and "conn_inv P k"
  shows "r = ALL_GOOD"
  using assms
  by (auto simp: granting_def Connect_def connectBasic_def login_def from_world_def conn_inv_def
      bindr_eq_Inr_iff Let_def split_beta split: if_splits)

section \<open>Rounds of the worker thread\<close>

text \<open>The worker thread at its loop condition, connected, with every channel served or pending.\<close>

definition attending :: "('w \<Rightarrow> nat set) \<Rightarrow> ('w \<Rightarrow> nat set) \<Rightarrow> 'w platform \<Rightarrow> Consumer \<Rightarrow> 'w rt \<Rightarrow> bool" where
  "attending lib acc P c s \<longleftrightarrow> cons_inv lib P c s \<and> m_isInitialized c \<and> m_threadRunning c \<and>
     connected c \<and> m_consumerThread c = Some C_Loop \<and> serving {} acc c s"

lemma connected_at [simp]: "connected (consumer_at pc c) = connected c"
  by (simp add: connected_def consumer_at_def)

lemma consumer_at_sel [simp]:
  "m_consumerThread (consumer_at pc c) = Some pc" "m_threadRunning (consumer_at pc c) = m_threadRunning c"
  "m_isInitialized (consumer_at pc c) = m_isInitialized c"
  "m_pendingChannels (consumer_at pc c) = m_pendingChannels c"
  "m_channelHandler (consumer_at pc c) = m_channelHandler c" "m_connection (consumer_at pc c) = m_connection c"
  by (simp_all add: consumer_at_def)

lemma granted_pull:
  assumes gr: "granting P" and tr: "tracks_consumers acc P" and inv: "cons_inv lib P c s"
    and init: "m_isInitialized c" and con: "connected c" and sv: "serving {} acc c s"
  shows "okr (pullNextMessage P c s) (\<lambda>(c', s'). cons_inv lib P c' s' \<and> serving {} acc c' s' \<and>
     (\<exists>cs. c' = c\<lparr>calls := cs\<rparr>))"
proof -
  from pullNextMessage_ok [OF inv init] pull_serves [OF tr inv init sv] obtain c' s' where
      run: "pullNextMessage P c s = Inr (c', s')" and ok: "cons_inv lib P c' s'" "serving {} acc c' s'"
    by (auto simp: okr_def)
  from inv init obtain k where k: "m_connection c = Some k" "consumer_connection c = Inr k" "conn_inv P k"
    by (rule cons_inv_connectionE)
  with con have "IsConnected k" by (simp add: connected_def)
  with inv k(2,3) obtain p hp w reply e hp1 w1 where
      "amqp_maybe_release_buffers (api P) p (rt_heap s) (rt_world s) = (hp, w)"
      and got: "amqp_consume_message (api P) p (m_timeout k) 0 hp w = (reply, e, hp1, w1)"
      and "lib_step lib s (s\<lparr>rt_heap := hp1, rt_world := w1\<rparr>)"
      and "decodeRpcReply (codes P) reply = ALL_GOOD \<longrightarrow>
        (\<exists>env. e = Some env \<and> envelope_readable (flags P) hp1 env)"
      and pull: "pullNextMessage P c s = pulled P k (decodeRpcReply (codes P) reply) e c (s\<lparr>rt_heap := hp1, rt_world := w1\<rparr>)"
    by (rule pull_connectedE)
  from gr got have "\<not> serverFailure (decodeRpcReply (codes P) reply)"
    unfolding granting_def by (metis fst_conv)
  moreover have "\<exists>cs. c = c\<lparr>calls := cs\<rparr>" by (intro exI [of _ "calls c"]) simp
  ultimately have "\<exists>cs. c' = c\<lparr>calls := cs\<rparr>"
    using run pull by (auto simp: pulled_def split: if_splits dest!: handle_envelope_keeps [OF tr])
  with run ok show ?thesis by simp
qed

text \<open>The fields that a round does not read or write.\<close>

lemma attending_loop:
  assumes "attending lib acc P c s"
  shows "run_consumer P (Suc n) c s = run_consumer P n (consumer_at C_Pull c) s"
proof -
  from assms obtain k where "consumer_connection c = Inr k" "IsConnected k"
    by (auto simp: attending_def connected_def consumer_connection_def)
  with assms show ?thesis
    by (simp add: attending_def Consumer_thread_step_def Consumer_IsRunning_def)
qed

text \<open>Testing the pending channels takes the first of them, if there is one.\<close>

lemma granted_pending:
  assumes gr: "granting P" and tr: "tracks_consumers acc P" and inv: "cons_inv lib P c s"
    and st: "m_isInitialized c" "m_threadRunning c" "connected c" "serving {} acc c s"
      "m_consumerThread c = Some C_Pending"
    and small: "length (m_pendingChannels c) < 2147483648"
  shows "okr (Consumer_thread_step P C_Pending c s) (\<lambda>(c', s'). attending lib acc P c' s' \<and>
     m_pendingChannels c' = tl (m_pendingChannels c) \<and>
     same_tables (m_channelHandler c) (m_channelHandler c'))"
proof -
  have "connect_guarded c" using st(5) by (simp add: connect_guarded_def)
  from Consumer_thread_step_ok [OF inv st(5,1)] thread_step_serves [OF tr inv st(5,1,2,4) this]
  obtain c' s' where run: "Consumer_thread_step P C_Pending c s = Inr (c', s')"
      and inv': "cons_inv lib P c' s'" and mv: "cons_moved C_Pending c c'" and sv: "serving {} acc c' s'"
    by (auto simp: okr_def)
  have same: "m_isInitialized c'" "m_threadRunning c'" "same_tables (m_channelHandler c) (m_channelHandler c')"
    using mv st(1,2) by (auto simp: cons_moved_def same_consumer_def)
  have "m_consumerThread c' = Some C_Loop \<and> connected c' \<and> m_pendingChannels c' = tl (m_pendingChannels c)"
  proof (cases "m_pendingChannels c")
    case Nil
    with run st(3) show ?thesis by (auto simp: Consumer_thread_step_def pendingChannelSize_def)
  next
    case (Cons ch chs)
    let ?c = "c\<lparr>m_pendingChannels := chs\<rparr>"
    have nz: "pendingChannelSize c \<noteq> 0" using small Cons by (simp add: pendingChannelSize_def)
    have c1: "cons_inv lib P ?c s" "m_isInitialized ?c" "has_channel (m_channelHandler ?c) ch" "connected ?c"
      using inv st Cons by (simp_all add: cons_inv_def connected_def)
    from setupAndConsume_ok [OF c1(1-3)] obtain r c2 s2 where
        su: "setupAndConsume P ch ?c s = Inr (r, c2, s2)" "setup_outcome lib P [ch] ?c (r, c2, s2)"
        "m_pendingChannels c2 = chs @ (if r = ALL_GOOD then [] else [ch])"
      by (auto simp: okr_def)
    from run nz Cons su(1) have "c' = consumer_at C_Loop c2"
      by (simp add: Consumer_thread_step_def popNextPendingChannel_def)
    with granted_setup [OF gr c1(4) su(1)] su(2,3) st(3) Cons show ?thesis
      by (auto simp: setup_outcome_def connected_def)
  qed
  with run inv' sv same show ?thesis by (simp add: attending_def)
qed

lemma granted_round:
  assumes gr: "granting P" and tr: "tracks_consumers acc P" and inv: "cons_inv lib P c s"
    and st: "m_isInitialized c" "m_threadRunning c" "connected c" "serving {} acc c s"
      "m_consumerThread c = Some C_Pull"
    and small: "length (m_pendingChannels c) < 2147483648"
  shows "\<exists>c' s'. (\<forall>n. run_consumer P (Suc (Suc n)) c s = run_consumer P n c' s') \<and>
     attending lib acc P c' s' \<and> m_pendingChannels c' = tl (m_pendingChannels c) \<and>
     same_tables (m_channelHandler c) (m_channelHandler c')"
proof -
  from granted_pull [OF gr tr inv st(1,3,4)] obtain cs s1 where
      pull: "pullNextMessage P c s = Inr (c\<lparr>calls := cs\<rparr>, s1)" "cons_inv lib P (c\<lparr>calls := cs\<rparr>) s1"
      "serving {} acc (c\<lparr>calls := cs\<rparr>) s1"
    by (auto simp: okr_def)
  let ?c = "consumer_at C_Pending (c\<lparr>calls := cs\<rparr>)"
  have "cons_inv lib P ?c s1" "m_isInitialized ?c" "m_threadRunning ?c" "connected ?c" "serving {} acc ?c s1"
      "m_consumerThread ?c = Some C_Pending" "length (m_pendingChannels ?c) < 2147483648"
    using pull st small by (simp_all add: connected_def)
  from granted_pending [OF gr tr this] obtain c' s' where
      pend: "Consumer_thread_step P C_Pending ?c s1 = Inr (c', s')" "attending lib acc P c' s'"
      "m_pendingChannels c' = tl (m_pendingChannels c)" "same_tables (m_channelHandler c) (m_channelHandler c')"
    by (auto simp: okr_def)
  have "run_consumer P (Suc (Suc n)) c s = run_consumer P n c' s'" for n
    using st(5) pull(1) pend(1) by (simp add: Consumer_thread_step_def [of P C_Pull])
  with pend show ?thesis by blast
qed

section \<open>Working off the pending channels\<close>

lemma attending_drains:
  assumes gr: "granting P" and tr: "tracks_consumers acc P" and "attending lib acc P c s"
    and "length (m_pendingChannels c) < 2147483648"
  shows "okr (run_consumer P (3 * length (m_pendingChannels c)) c s) (\<lambda>(c', s').
     attending lib acc P c' s' \<and> m_pendingChannels c' = [] \<and>
     same_tables (m_channelHandler c) (m_channelHandler c'))"
  using assms(3-)
proof (induction "m_pendingChannels c" arbitrary: c s)
  case Nil
  then show ?case by simp
next
  case (Cons ch chs)
  let ?c = "consumer_at C_Pull c"
  have "cons_inv lib P ?c s" "m_isInitialized ?c" "m_threadRunning ?c" "connected ?c" "serving {} acc ?c s"
      "m_consumerThread ?c = Some C_Pull" "length (m_pendingChannels ?c) < 2147483648"
    using Cons.prems by (simp_all add: attending_def)
  from granted_round [OF gr tr this] obtain c' s' where
      rd: "\<And>n. run_consumer P (Suc (Suc n)) ?c s = run_consumer P n c' s'" "attending lib acc P c' s'"
      "m_pendingChannels c' = chs" "same_tables (m_channelHandler c) (m_channelHandler c')"
    by (auto simp: Cons.hyps(2) [symmetric])
  have n: "3 * length (m_pendingChannels c) = Suc (Suc (Suc (3 * length (m_pendingChannels c'))))"
    by (simp add: Cons.hyps(2) [symmetric] rd(3))
  have "length (m_pendingChannels c') < 2147483648"
    using Cons.prems(2) by (simp add: rd(3) Cons.hyps(2) [symmetric])
  from Cons.hyps(1) [OF rd(3) [symmetric] rd(2) this] rd(4) show ?case
    unfolding n attending_loop [OF Cons.prems(1)] rd(1)
    by (auto simp: okr_def intro: same_tables_trans)
qed

section \<open>Opening a lost connection\<close>

lemma granted_loop:
  assumes gr: "granting P" and "cons_inv lib P c s" and "m_isInitialized c" and "connected c"
    and "\<forall>ch \<in> set chs. has_channel (m_channelHandler c) ch" and "m_pendingChannels c = []"
    and "consumption_loop P chs ALL_GOOD c s = Inr (r, c', s')"
  shows "r = ALL_GOOD \<and> m_pendingChannels c' = []"
  using assms(2-)
proof (induction chs arbitrary: c s)
  case (Cons ch chs)
  from Cons.prems(4) have "has_channel (m_channelHandler c) ch" by simp
  from setupAndConsume_ok [OF Cons.prems(1,2) this] obtain r1 c1 s1 where
      su: "setupAndConsume P ch c s = Inr (r1, c1, s1)" "setup_outcome lib P [ch] c (r1, c1, s1)"
      "m_pendingChannels c1 = m_pendingChannels c @ (if r1 = ALL_GOOD then [] else [ch])"
    by (auto simp: okr_def)
  note good = granted_setup [OF gr Cons.prems(3) su(1)]
  have "cons_inv lib P c1 s1" "m_isInitialized c1" "connected c1"
      "\<forall>ch \<in> set chs. has_channel (m_channelHandler c1) ch" "m_pendingChannels c1 = []"
    using su(2,3) good Cons.prems
    by (auto simp: setup_outcome_def connected_def same_consumer_def has_channel_tables)
  from Cons.IH [OF this] Cons.prems(6) su(1) good show ?case by simp
qed simp

lemma granted_reconnect:
  assumes gr: "granting P" and tr: "tracks_consumers acc P" and inv: "cons_inv lib P c s"
    and st: "m_isInitialized c" "m_threadRunning c" "\<not> connected c"
  shows "okr (connectAndStartConsumption P c s) (\<lambda>(r, c', s'). r = ALL_GOOD \<and> cons_inv lib P c' s' \<and>
     same_consumer c c' \<and> connected c' \<and> serving {} acc c' s' \<and> m_pendingChannels c' = [])"
proof -
  from connectAndStartConsumption_ok [OF inv st(1)] connect_serves [OF tr inv st] obtain r c' s' where
      run: "connectAndStartConsumption P c s = Inr (r, c', s')"
      and ok: "cons_inv lib P c' s'" "same_consumer c c'" "serving {} acc c' s'"
    by (auto simp: okr_def)
  note lib = cons_invD(2) [OF inv]
  from inv st(1) obtain k where k: "m_connection c = Some k" "consumer_connection c = Inr k" "conn_inv P k"
    by (rule cons_inv_connectionE)
  from Connect_ok [OF k(3), of s] obtain r1 k1 s1 where
      con: "Connect P k s = Inr (r1, k1, s1)" "conn_inv P k1" "r1 = ALL_GOOD \<longrightarrow> IsConnected k1"
    by (auto simp: okr_def)
  have r1: "r1 = ALL_GOOD" by (rule granted_connect [OF gr con(1) k(3)])
  let ?c1 = "emptyPendingChannels (c\<lparr>m_connection := Some k1\<rparr>)"
    and ?chs = "GetChannelList (channel_order (runtime P) (rt_world s1)) (m_channelHandler c)"
  have c1: "cons_inv lib P ?c1 s1" "m_isInitialized ?c1" "connected ?c1" "m_pendingChannels ?c1 = []"
    using cons_inv_connection [OF cons_inv_quiet [OF inv Connect_quiet [OF lib k(3) con(1)]] k(1) con(2)]
      st(1) con(3) r1
    by (simp_all add: cons_inv_def emptyPendingChannels_def connected_def)
  have "permuting (channel_order (runtime P) (rt_world s1))"
    using cons_invD(3) [OF inv] by (simp add: platform_ok_def runtime_ok_def)
  then have known: "\<forall>ch \<in> set ?chs. has_channel (m_channelHandler ?c1) ch"
    using GetChannelList_known by (simp add: emptyPendingChannels_def)
  from consumption_loop_ok [OF c1(1,2) known, of ALL_GOOD] obtain r2 c2 s2 where
      lp: "consumption_loop P ?chs ALL_GOOD ?c1 s1 = Inr (r2, c2, s2)"
      "setup_outcome lib P ?chs ?c1 (r2, c2, s2)"
    by (auto simp: okr_def)
  note fin = granted_loop [OF gr c1(1-3) known c1(4) lp(1)]
  from fin run k(2) con(1) r1 lp(1) have "r = ALL_GOOD" "c' = c2"
    by (auto simp: connectAndStartConsumption_def startConsumption_def)
  with fin lp(2) con(3) r1 run ok show ?thesis
    by (auto simp: setup_outcome_def emptyPendingChannels_def connected_def)
qed

lemma reconnecting:
  assumes gr: "granting P" and tr: "tracks_consumers acc P" and inv: "cons_inv lib P c s"
    and st: "m_isInitialized c" "m_threadRunning c" "\<not> connected c" "m_consumerThread c = Some C_Loop"
  shows "okr (run_consumer P 4 c s) (\<lambda>(c', s'). attending lib acc P c' s' \<and>
     m_pendingChannels c' = [] \<and> same_tables (m_channelHandler c) (m_channelHandler c'))"
proof -
  let ?c = "consumer_at C_Connect c"
  from inv st(1) obtain k where k: "m_connection c = Some k" "consumer_connection c = Inr k"
    by (rule cons_inv_connectionE)
  have loop: "Consumer_thread_step P C_Loop c s = Inr (?c, s)"
    using k st by (simp add: Consumer_thread_step_def Consumer_IsRunning_def connected_def)
  from granted_reconnect [OF gr tr, of lib ?c s] inv st obtain c1 s1 where
      con: "connectAndStartConsumption P ?c s = Inr (ALL_GOOD, c1, s1)" "cons_inv lib P c1 s1"
      "same_consumer ?c c1" "connected c1" "serving {} acc c1 s1" "m_pendingChannels c1 = []"
    by (auto simp: okr_def)
  let ?c1 = "consumer_at C_Pull c1"
  have "cons_inv lib P ?c1 s1" "m_isInitialized ?c1" "m_threadRunning ?c1" "connected ?c1"
      "serving {} acc ?c1 s1" "m_consumerThread ?c1 = Some C_Pull"
      "length (m_pendingChannels ?c1) < 2147483648"
    using con st by (simp_all add: same_consumer_def)
  from granted_round [OF gr tr this] obtain c2 s2 where
      rd: "\<And>n. run_consumer P (Suc (Suc n)) ?c1 s1 = run_consumer P n c2 s2" "attending lib acc P c2 s2"
      "m_pendingChannels c2 = []" "same_tables (m_channelHandler c1) (m_channelHandler c2)"
    using con(6) by auto
  have "run_consumer P 4 c s = run_consumer P (Suc (Suc 0)) ?c1 s1"
    using st(4) loop con(1) by (simp add: numeral_eq_Suc Consumer_thread_step_def [of P C_Connect])
  with rd con(3) show ?thesis by (auto simp: same_consumer_def intro: same_tables_trans)
qed

section \<open>Every subscription is served\<close>

definition steps_to_serve :: "Consumer \<Rightarrow> nat" where
  "steps_to_serve c = (if connected c then 3 * length (m_pendingChannels c) else 4)"


definition loop_consumers :: "loop_world \<Rightarrow> nat set" where
  "loop_consumers w = set (lw_consumers w)"

lemma loop_tracks: "tracks_consumers loop_consumers loop_platform"
  by (auto simp: tracks_consumers_def loop_platform_def loop_api_def loop_consumers_def loop_consume_def
      split: list.split)

lemma loop_granting: "granting loop_platform"
  by (auto simp: granting_def loop_platform_def loop_api_def loop_consume_def ref_codes_def
      normal_reply_def library_reply_def decodeRpcReply_def decodeLibraryException_def Let_def
      split: list.split)

lemma loop_tracked: "consumer_tracked (\<lambda>_. {}) loop_consumers loop_platform polite_consumer loop_rt"
proof -
  note r0 = consumer_tracked.start [OF loop_library loop_memory]
  have "consumer_tracked (\<lambda>_. {}) loop_consumers loop_platform idle_consumer loop_rt"
    by (rule consumer_tracked.step [OF r0 _ _ polite_steps(1)]) (simp_all add: Consumer_init_def)
  then have "consumer_tracked (\<lambda>_. {}) loop_consumers loop_platform
      (idle_consumer\<lparr>m_channelHandler := polite_handler\<rparr>) loop_rt"
    by (rule consumer_tracked.step [OF _ _ _ polite_steps(2)])
       (simp_all add: idle_consumer_def Consumer_init_def ChannelHandler_init_def)
  then show ?thesis by (rule consumer_tracked.step [OF _ _ _ polite_steps(3)]) simp_all
qed


end
