(* ===== verification/Consumer_Interleaving.thy ===== *)
theory Consumer_Interleaving
  imports Consumer_Actions Consumer_Progress Winding_Down
begin

text \<open>
  \<open>Subscribe\<close> in the middle of other activity. Calls of \<open>Subscribe\<close> are taken apart into the
  steps of theory \<open>Consumer_Subscription\<close>; between any two of them the worker thread, other
  methods, other calls of \<open>Subscribe\<close> and the environment may act. No interleaving faults and none
  loses a subscription, but one that lets the worker thread open the connection between the first
  step and the last has the channel set up twice.
\<close>

section \<open>Calls in progress\<close>

text \<open>A call that has registered its channel, and one that has also set the properties.\<close>

datatype subscription = Registered int queueProperties | Configured int

primrec sub_channel :: "subscription \<Rightarrow> int" where
  "sub_channel (Registered ch qp) = ch"
| "sub_channel (Configured ch) = ch"

datatype 'w sub_action =
    Elsewhere "'w consumer_action"
  | Register string string TD_Callback queueProperties
  | Continue nat

type_synonym 'w sub_state = "Consumer \<times> subscription list \<times> 'w rt"

definition continue_call :: "nat \<Rightarrow> Consumer \<Rightarrow> subscription list \<Rightarrow> (Consumer \<times> subscription list) res" where
  "continue_call i c subs =
     (if length subs \<le> i then Inr (c, subs)
      else case subs ! i of
        Registered ch qp \<Rightarrow> bindr (subscribe_configure ch qp c) (\<lambda>c'. Inr (c', subs[i := Configured ch]))
      | Configured ch \<Rightarrow> Inr (subscribe_push ch c, remove_nth i subs))"

fun sub_act :: "'w platform \<Rightarrow> 'w sub_action \<Rightarrow> 'w sub_state \<Rightarrow> 'w sub_state res" where
  "sub_act P (Elsewhere a) (c, subs, s) =
     bindr (consumer_act P a c s) (\<lambda>(c', s'). Inr (c', subs, s'))"
| "sub_act P (Register ex key f qp) (c, subs, s) =
     bindr (subscribe_register ex key f c) (\<lambda>(x, c').
     Inr (c', case x of Inl _ \<Rightarrow> subs | Inr ch \<Rightarrow> subs @ [Registered ch qp], s))"
| "sub_act P (Continue i) (c, subs, s) =
     bindr (continue_call i c subs) (\<lambda>(c', subs'). Inr (c', subs', s))"

fun sub_permitted :: "('w \<Rightarrow> nat set) \<Rightarrow> ('w \<Rightarrow> nat set) \<Rightarrow> 'w sub_action \<Rightarrow> 'w sub_state \<Rightarrow> bool" where
  "sub_permitted lib acc (Elsewhere a) (c, subs, s) \<longleftrightarrow> consumer_permitted lib a c s \<and>
     (\<forall>t. a = C_Environment t \<longrightarrow> keeps acc s t)"
| "sub_permitted lib acc (Register ex key f qp) (c, subs, s) \<longleftrightarrow>
     m_nextAvailableChannel (m_channelHandler c) < INT_MAX"
| "sub_permitted lib acc (Continue i) (c, subs, s) \<longleftrightarrow> True"

inductive interleaved ::
    "('w \<Rightarrow> nat set) \<Rightarrow> ('w \<Rightarrow> nat set) \<Rightarrow> 'w platform \<Rightarrow> 'w sub_state \<Rightarrow> bool" for lib acc P where
  start: "consumer_library lib P \<Longrightarrow> lib_inv lib s \<Longrightarrow> interleaved lib acc P (Consumer_init, [], s)"
| step: "interleaved lib acc P x \<Longrightarrow> sub_permitted lib acc a x \<Longrightarrow> sub_act P a x = Inr x' \<Longrightarrow>
    interleaved lib acc P x'"

section \<open>Channels stay registered\<close>

interpretation tables_rel: consumer_relation lib P
    "\<lambda>(c, s) (c', s'). same_tables (m_channelHandler c) (m_channelHandler c')"
  for lib :: "'w \<Rightarrow> nat set" and P :: "'w platform"
proof (unfold_locales, goal_cases)
  case (5 c s ch r c' s')
  with setupAndConsume_ok [OF 5(1-3)] show ?case
    by (auto simp: okr_def setup_outcome_def same_consumer_def)
next
  case (6 c s c' s')
  with pullNextMessage_ok [OF 6(1,2)] show ?case by (auto simp: okr_def)
qed (auto intro: same_tables_trans)

lemma act_keeps_channels:
  assumes inv: "consumer_inv lib P c s" and perm: "consumer_permitted lib a c s"
    and act: "consumer_act P a c s = Inr (c', s')" and ch: "has_channel (m_channelHandler c) ch"
  shows "has_channel (m_channelHandler c') ch"
proof (cases "\<exists>ex key f qp. a = C_Subscribe ex key f qp")
  case True
  then obtain ex key f qp where a: "a = C_Subscribe ex key f qp" by blast
  with perm inv have "cons_inv lib P c s" "m_nextAvailableChannel (m_channelHandler c) < INT_MAX"
    by (simp_all add: consumer_inv_def)
  from Subscribe_ok [OF this, of ex key f qp] act a ch show ?thesis
    by (auto simp: okr_def bindr_eq_Inr_iff handler_step_def)
next
  case False
  show ?thesis
  proof (cases "\<exists>t. a = C_Environment t")
    case True
    with act ch show ?thesis by auto
  next
    case no_env: False
    from tables_rel.rel_act [OF inv act] False no_env have "same_tables (m_channelHandler c) (m_channelHandler c')"
      by auto
    with ch show ?thesis by (simp add: has_channel_tables)
  qed
qed

section \<open>The invariant\<close>

definition sub_inv :: "('w \<Rightarrow> nat set) \<Rightarrow> 'w platform \<Rightarrow> 'w sub_state \<Rightarrow> bool" where
  "sub_inv lib P x \<longleftrightarrow> (case x of (c, subs, s) \<Rightarrow> consumer_inv lib P c s \<and>
     (\<forall>y \<in> set subs. has_channel (m_channelHandler c) (sub_channel y)))"

text \<open>Channels of calls in progress need not be served yet.\<close>

definition sub_serving :: "('w \<Rightarrow> nat set) \<Rightarrow> 'w sub_state \<Rightarrow> bool" where
  "sub_serving acc x \<longleftrightarrow> (case x of (c, subs, s) \<Rightarrow>
     serving (sub_channel ` set subs) acc c s \<and> connect_guarded c)"

lemma consumer_inv_handler_step:
  "consumer_inv lib P c s \<Longrightarrow> handler_step c c' \<Longrightarrow> cons_inv lib P c' s \<Longrightarrow> consumer_inv lib P c' s"
  by (simp add: consumer_inv_def handler_step_thread)

lemma continue_ok:
  assumes core: "cons_inv lib P c s"
    and known: "\<And>y. y \<in> set subs \<Longrightarrow> has_channel (m_channelHandler c) (sub_channel y)"
  shows "okr (continue_call i c subs) (\<lambda>(c', subs'). cons_inv lib P c' s \<and> handler_step c c' \<and>
     sub_channel ` set subs' \<subseteq> sub_channel ` set subs \<and>
     (serving (sub_channel ` set subs) acc c s \<longrightarrow> serving (sub_channel ` set subs') acc c' s))"
proof (cases "i < length subs")
  case False
  with core show ?thesis by (simp add: continue_call_def handler_step_def)
next
  case i: True
  show ?thesis
  proof (cases "subs ! i")
    case (Registered ch qp)
    with known [OF nth_mem [OF i]] have ch: "has_channel (m_channelHandler c) ch" by simp
    from configure_ok [OF core ch, of qp] obtain c' where
        conf: "subscribe_configure ch qp c = Inr c'" "cons_inv lib P c' s" "handler_step c c'"
      by (auto simp: okr_def)
    have "map sub_channel (subs[i := Configured ch]) = map sub_channel subs"
      using i Registered by (simp add: map_update) (metis list_update_id nth_map sub_channel.simps(1))
    then have "sub_channel ` set (subs[i := Configured ch]) = sub_channel ` set subs" by (metis set_map)
    with i Registered conf configure_serves [OF core ch conf(1)] show ?thesis
      by (simp add: continue_call_def)
  next
    case (Configured ch)
    with known [OF nth_mem [OF i]] have ch: "has_channel (m_channelHandler c) ch" by simp
    have set: "set subs = insert (Configured ch) (set (remove_nth i subs))"
      using set_remove_nth [OF i] Configured by simp
    have "serving (sub_channel ` set (remove_nth i subs)) acc (subscribe_push ch c) s"
      if "serving (sub_channel ` set subs) acc c s"
      using push_serves [OF core ch that] by (auto simp: serving_def set)
    with i Configured push_ok [OF core ch] show ?thesis by (auto simp: continue_call_def set)
  qed
qed

lemma register_step:
  assumes inv: "sub_inv lib P (c, subs, s)" and room: "m_nextAvailableChannel (m_channelHandler c) < INT_MAX"
  shows "okr (sub_act P (Register ex key f qp) (c, subs, s)) (\<lambda>x'. sub_inv lib P x' \<and>
     (sub_serving acc (c, subs, s) \<longrightarrow> sub_serving acc x'))"
proof -
  from inv have ci: "consumer_inv lib P c s" and core: "cons_inv lib P c s"
      and known: "\<And>y. y \<in> set subs \<Longrightarrow> has_channel (m_channelHandler c) (sub_channel y)"
    by (auto simp: sub_inv_def consumer_inv_def)
  from register_ok [OF core room, of ex key f] obtain y c' where
      reg: "subscribe_register ex key f c = Inr (y, c')" "cons_inv lib P c' s" "handler_step c c'"
      "\<forall>ch. y = Inr ch \<longrightarrow> has_channel (m_channelHandler c') ch"
    by (auto simp: okr_def)
  have "\<And>z. z \<in> set subs \<Longrightarrow> has_channel (m_channelHandler c') (sub_channel z)"
    using known reg(3) by (auto simp: handler_step_def)
  with reg consumer_inv_handler_step [OF ci reg(3,2)] register_serves [OF core room reg(1)] show ?thesis
    by (cases y) (auto simp: sub_inv_def sub_serving_def handler_step_guarded)
qed

lemma sub_act_ok:
  assumes inv: "sub_inv lib P x" and perm: "sub_permitted lib acc a x"
  shows "okr (sub_act P a x) (\<lambda>x'. sub_inv lib P x' \<and>
     (tracks_consumers acc P \<and> sub_serving acc x \<longrightarrow> sub_serving acc x'))"
proof -
  obtain c subs s where x: "x = (c, subs, s)" by (cases x)
  from inv x have ci: "consumer_inv lib P c s" and core: "cons_inv lib P c s"
      and known: "\<And>y. y \<in> set subs \<Longrightarrow> has_channel (m_channelHandler c) (sub_channel y)"
    by (auto simp: sub_inv_def consumer_inv_def)
  show ?thesis
  proof (cases a)
    case (Elsewhere b)
    with perm x have p: "consumer_permitted lib b c s" "\<And>t. b = C_Environment t \<Longrightarrow> keeps acc s t" by auto
    from consumer_act_ok [OF ci p(1)] obtain c' s' where
        act: "consumer_act P b c s = Inr (c', s')" "consumer_inv lib P c' s'"
      by (auto simp: okr_def)
    with x Elsewhere known act_keeps_channels [OF ci p(1) act(1)] act_serves [OF _ ci p act(1)]
    show ?thesis by (auto simp: sub_inv_def sub_serving_def)
  next
    case (Register ex key f qp)
    with perm x have room: "m_nextAvailableChannel (m_channelHandler c) < INT_MAX" by simp
    from register_step [OF inv [unfolded x] room, of ex key f qp acc] x Register show ?thesis
      by (auto simp: okr_def)
  next
    case (Continue i)
    from continue_ok [OF core known, of subs i acc] obtain c' subs' where
        run: "continue_call i c subs = Inr (c', subs')" "cons_inv lib P c' s" "handler_step c c'"
        "sub_channel ` set subs' \<subseteq> sub_channel ` set subs"
        "serving (sub_channel ` set subs) acc c s \<longrightarrow> serving (sub_channel ` set subs') acc c' s"
      by (auto simp: okr_def)
    have "\<forall>d \<in> sub_channel ` set subs. has_channel (m_channelHandler c') d"
      using run(3) known by (simp add: handler_step_def)
    then have "\<forall>y \<in> set subs'. has_channel (m_channelHandler c') (sub_channel y)" using run(4) by blast
    with x Continue run consumer_inv_handler_step [OF ci run(3,2)] show ?thesis
      by (simp add: sub_inv_def sub_serving_def handler_step_guarded)
  qed
qed

lemma interleaved_inv: "interleaved lib acc P x \<Longrightarrow> sub_inv lib P x"
proof (induction rule: interleaved.induct)
  case (start s)
  then show ?case by (simp add: sub_inv_def consumer_inv_init)
next
  case (step x a x')
  with sub_act_ok [OF step.IH step.hyps(2)] show ?case by (auto simp: okr_def)
qed

lemma interleaved_serving:
  assumes "interleaved lib acc P x" and tr: "tracks_consumers acc P"
  shows "sub_serving acc x"
  using assms(1)
proof (induction rule: interleaved.induct)
  case (start s)
  show ?case by (simp add: sub_serving_def serving_def connect_guarded_def connected_def Consumer_init_def)
next
  case (step x a x')
  with sub_act_ok [OF interleaved_inv [OF step.hyps(1)] step.hyps(2)] tr show ?case by (auto simp: okr_def)
qed

section \<open>Safety\<close>


text \<open>The consumer of theory \<open>Consumer_System\<close> with its worker thread before connecting.\<close>

definition connecting_consumer :: Consumer where
  "connecting_consumer = consumer_at C_Connect polite_consumer"

lemma loop_interleaved: "interleaved (\<lambda>_. {}) loop_consumers loop_platform (connecting_consumer, [], loop_rt)"
proof -
  have go: "interleaved (\<lambda>_. {}) loop_consumers loop_platform (c', [], loop_rt)"
    if "interleaved (\<lambda>_. {}) loop_consumers loop_platform (c, [], loop_rt)" "consumer_permitted (\<lambda>_. {}) a c loop_rt"
      "consumer_act loop_platform a c loop_rt = Inr (c', loop_rt)" "\<And>t. a \<noteq> C_Environment t" for a c c'
    by (rule interleaved.step [OF that(1), of "Elsewhere a"]) (use that in auto)
  note r0 = interleaved.start [OF loop_library loop_memory]
  have "interleaved (\<lambda>_. {}) loop_consumers loop_platform (idle_consumer, [], loop_rt)"
    by (rule go [OF r0 _ polite_steps(1)]) (simp_all add: Consumer_init_def)
  then have "interleaved (\<lambda>_. {}) loop_consumers loop_platform
      (idle_consumer\<lparr>m_channelHandler := polite_handler\<rparr>, [], loop_rt)"
    by (rule go [OF _ _ polite_steps(2)])
       (simp_all add: idle_consumer_def Consumer_init_def ChannelHandler_init_def)
  then have "interleaved (\<lambda>_. {}) loop_consumers loop_platform (polite_consumer, [], loop_rt)"
    by (rule go [OF _ _ polite_steps(3)]) simp_all
  then show ?thesis
    unfolding connecting_consumer_def by (rule go [OF _ _ polite_connects(1)]) simp_all
qed

lemma connecting_room: "m_nextAvailableChannel (m_channelHandler connecting_consumer) < INT_MAX"
  by (simp add: connecting_consumer_def polite_consumer_def polite_handler_def sample_handler_def)



text \<open>A call in progress on an open connection.\<close>

definition mid_call_schedule :: "loop_world sub_action list" where
  "mid_call_schedule = [Register ''amq.direct'' ''news'' 8 default_queueProperties, Elsewhere C_Thread]"

definition mid_call :: "loop_world sub_state \<Rightarrow> bool" where
  "mid_call x = (case x of (c, subs, s) \<Rightarrow>
     m_connection c = Some open_conn \<and> has_channel (m_channelHandler c) 2 \<and> map sub_channel subs = [2])"

lemma mid_call_reached:
  "(case perform_all (sub_act loop_platform) mid_call_schedule (connecting_consumer, [], loop_rt) of
      Inr x \<Rightarrow> mid_call x | Inl _ \<Rightarrow> False)"
  by code_simp


section \<open>A connection opened in the middle of a call\<close>

text \<open>The schedule: register, let the worker thread open the connection, then finish the call.\<close>

definition across_connect ::
    "string \<Rightarrow> string \<Rightarrow> TD_Callback \<Rightarrow> queueProperties \<Rightarrow> nat \<Rightarrow> 'w sub_action list" where
  "across_connect ex key f qp i = [Register ex key f qp, Elsewhere C_Thread, Continue i, Continue i]"

lemma register_new:
  assumes inv: "cons_inv lib P c s" and init: "m_isInitialized c"
    and room: "m_nextAvailableChannel (m_channelHandler c) < INT_MAX"
    and new: "callback_of (m_channelHandler c) \<lparr>m_exchangeName = ex, m_routingKey = key\<rparr> = None"
  shows "okr (subscribe_register ex key f c) (\<lambda>(x, c'). x = Inr (m_nextAvailableChannel (m_channelHandler c)) \<and>
     has_channel (m_channelHandler c') (m_nextAvailableChannel (m_channelHandler c)) \<and>
     GetQueueProperties (m_nextAvailableChannel (m_channelHandler c)) (m_channelHandler c') =
       Inr default_queueProperties)"
proof -
  let ?h = "m_channelHandler c" and ?bp = "\<lparr>m_exchangeName = ex, m_routingKey = key\<rparr>"
  note hinv = cons_invD(6) [OF inv]
  from new have none: "map_of (m_bindingPairLookup ?h) ?bp = None" by (simp add: callback_of_None_iff [OF hinv])
  have nx: "m_nextAvailableChannel ?h = int (pair_count ?h) + 1" using hinv by (simp add: handler_inv_def Let_def)
  have free: "map_of (m_channelLookup ?h) (int (pair_count ?h) + 1) = None"
    by (simp add: handler_inv_channel [OF hinv])
  with init nx AddChannelProcessor_new [OF hinv none, of f] show ?thesis
    by (simp add: subscribe_register_def Consumer_IsInitialized_def has_channel_def GetQueueProperties_def
        channel_ref_def map_add_def new_info_def)
qed

lemma finish_call:
  assumes "cons_inv lib P c s" and "has_channel (m_channelHandler c) ch" and "m_threadRunning c"
  shows "okr (perform_all (sub_act P) [Continue (length subs), Continue (length subs)] (c, subs @ [Registered ch qp], s))
    (\<lambda>(c', subs', s'). subs' = subs \<and> s' = s \<and> m_connection c' = m_connection c \<and> ch \<in> set (m_pendingChannels c'))"
proof -
  from configure_ok [OF assms(1,2), of qp] assms(2) obtain c1 where
      conf: "subscribe_configure ch qp c = Inr c1" "cons_inv lib P c1 s" "handler_step c c1"
      "has_channel (m_channelHandler c1) ch"
    by (auto simp: okr_def)
  have "m_threadRunning c1" using conf(3) assms(3) by (simp add: handler_step_def)
  note push = push_ok(2) [OF conf(2,4)] push_ok(4) [OF conf(2,4) this]
  from conf(1,3) push show ?thesis by (simp add: continue_call_def handler_step_def)
qed

text \<open>
  C36. A subscription made while the worker thread is about to open the connection: the thread
  finds the new channel as soon as it is registered, with the default properties instead of those
  asked for, and sets it up, so that the broker has accepted a consumer on it; then the call
  finishes and leaves the channel pending all the same, to be set up a second time.
\<close>

theorem subscribe_across_connect:
  assumes il: "interleaved lib acc P (c, subs, s)" and tr: "tracks_consumers acc P" and gr: "granting P"
    and pc: "m_consumerThread c = Some C_Connect"
    and room: "m_nextAvailableChannel (m_channelHandler c) < INT_MAX"
    and new: "callback_of (m_channelHandler c) \<lparr>m_exchangeName = ex, m_routingKey = key\<rparr> = None"
    and ch: "ch = m_nextAvailableChannel (m_channelHandler c)"
  shows "okr (subscribe_register ex key f c) (\<lambda>(x, c'). x = Inr ch \<and>
       GetQueueProperties ch (m_channelHandler c') = Inr default_queueProperties) \<and>
     okr (perform_all (sub_act P) (across_connect ex key f qp (length subs)) (c, subs, s)) (\<lambda>(c', subs', s').
       subs' = subs \<and> connected c' \<and> wire_channel ch \<in> acc (rt_world s') \<and> ch \<in> set (m_pendingChannels c'))"
proof -
  from interleaved_inv [OF il] have core: "cons_inv lib P c s" and th: "cons_thread_inv c"
    by (auto simp: sub_inv_def consumer_inv_def)
  with pc have run: "m_threadRunning c" "m_isInitialized c" by (auto simp: cons_thread_inv_def)
  from interleaved_serving [OF il tr] pc have closed: "\<not> connected c"
    by (simp add: sub_serving_def connect_guarded_def)
  from register_ok [OF core room, of ex key f] register_new [OF core run(2) room new, of f] obtain c1 where
      reg: "subscribe_register ex key f c = Inr (Inr ch, c1)" "cons_inv lib P c1 s" "handler_step c c1"
      "has_channel (m_channelHandler c1) ch" "GetQueueProperties ch (m_channelHandler c1) = Inr default_queueProperties"
    by (auto simp: okr_def ch)
  have c1: "m_isInitialized c1" "m_threadRunning c1" "\<not> connected c1" "m_consumerThread c1 = Some C_Connect"
    using reg(3) run closed pc by (simp_all add: handler_step_def connected_def)
  from granted_reconnect [OF gr tr reg(2) c1(1-3)] obtain c2 s2 where
      con: "connectAndStartConsumption P c1 s = Inr (ALL_GOOD, c2, s2)" "cons_inv lib P c2 s2"
      "same_consumer c1 c2" "connected c2" "serving {} acc c2 s2" "m_pendingChannels c2 = []"
    by (auto simp: okr_def)
  let ?c2 = "consumer_at C_Pull c2"
  have known: "has_channel (m_channelHandler ?c2) ch" "m_threadRunning ?c2" "cons_inv lib P ?c2 s2"
    using con(2,3) c1(2) reg(4) by (auto simp: same_consumer_def has_channel_tables)
  from finish_call [OF known(3,1,2), of subs qp] obtain c3 where
      fin: "perform_all (sub_act P) [Continue (length subs), Continue (length subs)] (?c2, subs @ [Registered ch qp], s2) =
        Inr (c3, subs, s2)" "m_connection c3 = m_connection c2" "ch \<in> set (m_pendingChannels c3)"
    by (auto simp: okr_def)
  have "wire_channel ch \<in> acc (rt_world s2)" "connected c3"
    using con(4-6) known(1) fin(2) by (simp_all add: serving_def served_def connected_def)
  with reg(1,5) c1(4) con(1) fin(1,3) show ?thesis
    by (simp add: across_connect_def Consumer_thread_step_def)
qed

theorem subscribe_across_connect_witness:
  "okr (subscribe_register ''amq.direct'' ''news'' 8 connecting_consumer) (\<lambda>(x, c'). x = Inr 2 \<and>
       GetQueueProperties 2 (m_channelHandler c') = Inr default_queueProperties) \<and>
   okr (perform_all (sub_act loop_platform) (across_connect ''amq.direct'' ''news'' 8 (default_queueProperties\<lparr>m_durable := 1\<rparr>)
       (length ([] :: subscription list))) (connecting_consumer, [], loop_rt)) (\<lambda>(c', subs', s').
     subs' = [] \<and> connected c' \<and> wire_channel 2 \<in> loop_consumers (rt_world s') \<and> 2 \<in> set (m_pendingChannels c'))"
proof (rule subscribe_across_connect [OF loop_interleaved loop_tracks loop_granting _ connecting_room])
  show "m_consumerThread connecting_consumer = Some C_Connect" by (simp add: connecting_consumer_def)
  show "callback_of (m_channelHandler connecting_consumer)
      \<lparr>m_exchangeName = ''amq.direct'', m_routingKey = ''news''\<rparr> = None"
    "2 = m_nextAvailableChannel (m_channelHandler connecting_consumer)"
    by (simp_all add: connecting_consumer_def polite_consumer_def polite_handler_def sample_handler_def
        callback_of_def sample_pair_def)
qed

end
