(* ===== verification/Consumer_Stopping.thy ===== *)
theory Consumer_Stopping
  imports Consumer_Interleaving
begin

text \<open>
  \<open>Consumer::Stop\<close> in the middle of other activity, as theory \<open>Producer_Stopping\<close> does it for the
  producer: the request empties the pending channels and clears the running flag, then the worker
  thread finishes its round while other threads subscribe, each of their calls taken apart into its
  steps, and when the thread has left its loop the call closes the connection.
\<close>

section \<open>The phases\<close>

definition consumer_stop_request :: "Consumer \<Rightarrow> Consumer" where
  "consumer_stop_request c = Consumer_setRunning False (emptyPendingChannels c)"

text \<open>What \<open>Stop\<close> does after \<open>join\<close> has returned.\<close>

definition consumer_stop_finish :: "'w platform \<Rightarrow> Consumer \<Rightarrow> 'w rt \<Rightarrow> 'w consumer_res" where
  "consumer_stop_finish P c s =
     (let c1 = c\<lparr>m_consumerThread := None\<rparr> in
      bindr (consumer_connection c1) (\<lambda>k.
      bindr (CloseConnection P k s) (\<lambda>(retCode, k1, s1).
      Inr (retCode, c1\<lparr>m_connection := Some k1\<rparr>, s1))))"

lemma Consumer_Stop_phases:
  assumes "consumer_inv lib P c s" and "m_threadRunning c"
  shows "Consumer_Stop P c s =
     bindr (run_consumer P 4 (consumer_stop_request c) s) (\<lambda>(c1, s1). consumer_stop_finish P c1 s1)"
proof -
  from assms have "m_isInitialized c" "m_consumerThread c \<noteq> None"
    by (auto simp: consumer_inv_def cons_thread_inv_def)
  then have "Consumer_IsInitialized (emptyPendingChannels c)" "Consumer_IsRunning (emptyPendingChannels c)"
      "m_consumerThread (consumer_stop_request c) \<noteq> None"
    using assms(2)
    by (simp_all add: Consumer_IsInitialized_def Consumer_IsRunning_def emptyPendingChannels_def
        consumer_stop_request_def Consumer_setRunning_def)
  then show ?thesis
    by (cases "run_consumer P 4 (consumer_stop_request c) s")
       (auto simp: Consumer_Stop_def consumer_stop_request_def consumer_stop_finish_def Consumer_join_def Let_def)
qed

section \<open>Activity while stopping\<close>

primrec bystander :: "'w consumer_action \<Rightarrow> bool" where
  "bystander (C_Initialize server port user pw) \<longleftrightarrow> False"
| "bystander (C_Subscribe ex key f qp) \<longleftrightarrow> True"
| "bystander C_Start \<longleftrightarrow> False"
| "bystander C_Stop \<longleftrightarrow> False"
| "bystander C_Restart \<longleftrightarrow> False"
| "bystander C_Thread \<longleftrightarrow> True"
| "bystander (C_Environment s') \<longleftrightarrow> True"

primrec harmless_sub :: "'w sub_action \<Rightarrow> bool" where
  "harmless_sub (Elsewhere a) \<longleftrightarrow> bystander a"
| "harmless_sub (Register ex key f qp) \<longleftrightarrow> True"
| "harmless_sub (Continue i) \<longleftrightarrow> True"

definition while_stopping :: "('w \<Rightarrow> nat set) \<Rightarrow> 'w sub_action \<Rightarrow> 'w sub_state \<Rightarrow> bool" where
  "while_stopping lib a x \<longleftrightarrow> harmless_sub a \<and> sub_permitted lib (\<lambda>_. {}) a x"

fun worker_step :: "'w sub_action \<Rightarrow> bool" where
  "worker_step (Elsewhere C_Thread) \<longleftrightarrow> True"
| "worker_step a \<longleftrightarrow> False"

text \<open>
  The state between the request and the end of the join: the thread is at most \<open>n\<close> steps from its
  exit, and the channels in \<open>old\<close> are still registered.
\<close>

definition cons_winding ::
    "('w \<Rightarrow> nat set) \<Rightarrow> 'w platform \<Rightarrow> int set \<Rightarrow> nat \<Rightarrow> 'w sub_state \<Rightarrow> bool" where
  "cons_winding lib P old n x \<longleftrightarrow> (case x of (c, subs, s) \<Rightarrow>
     cons_inv lib P c s \<and> m_isInitialized c \<and> \<not> m_threadRunning c \<and>
     (\<exists>pc. m_consumerThread c = Some pc \<and> cons_rank pc \<le> n) \<and>
     (\<forall>ch \<in> old \<union> sub_channel ` set subs. has_channel (m_channelHandler c) ch))"

lemma cons_winding_handler:
  assumes "cons_winding lib P old n (c, subs, s)" and "handler_step c c'" and "cons_inv lib P c' s"
    and "\<forall>ch \<in> sub_channel ` set subs'. ch \<in> sub_channel ` set subs \<or> has_channel (m_channelHandler c') ch"
  shows "cons_winding lib P old n (c', subs', s)"
  using assms by (auto simp: cons_winding_def handler_step_def)

lemma winding_thread:
  assumes w: "cons_winding lib P old n (c, subs, s)"
  shows "okr (consumer_act P C_Thread c s) (\<lambda>(c', s'). cons_winding lib P old (n - 1) (c', subs, s'))"
proof -
  from w obtain pc where core: "cons_inv lib P c s" "m_consumerThread c = Some pc" "m_isInitialized c"
      and rank: "cons_rank pc \<le> n" "\<not> m_threadRunning c"
      and known: "\<forall>ch \<in> old \<union> sub_channel ` set subs. has_channel (m_channelHandler c) ch"
    by (auto simp: cons_winding_def)
  from Consumer_thread_step_ok [OF core] obtain c' s' where
      st: "Consumer_thread_step P pc c s = Inr (c', s')" "cons_inv lib P c' s'" "cons_moved pc c c'"
    by (auto simp: okr_def)
  from st(3) rank obtain pc' where pc': "m_consumerThread c' = Some pc'" "cons_rank pc' \<le> n - 1"
    by (auto simp: cons_moved_def)
  from st(3) have "m_isInitialized c' = m_isInitialized c" "m_threadRunning c' = m_threadRunning c"
      "same_tables (m_channelHandler c) (m_channelHandler c')"
    by (auto simp: cons_moved_def same_consumer_def)
  with core st(1,2) pc' rank(2) known show ?thesis by (simp add: cons_winding_def has_channel_tables)
qed

lemma winding_closer:
  assumes w: "cons_winding lib P old n x" and ok: "while_stopping lib a x"
  shows "okr (sub_act P a x) (cons_winding lib P old (n - (if worker_step a then 1 else 0)))"
proof -
  obtain c subs s where x: "x = (c, subs, s)" by (cases x)
  from w x have core: "cons_inv lib P c s"
      and known: "\<And>y. y \<in> set subs \<Longrightarrow> has_channel (m_channelHandler c) (sub_channel y)"
    by (auto simp: cons_winding_def)
  show ?thesis
  proof (cases a)
    case (Elsewhere b)
    with ok x have b: "bystander b" "consumer_permitted lib b c s" by (simp_all add: while_stopping_def)
    show ?thesis
    proof (cases b)
      case (C_Subscribe ex key f qp)
      with b have "m_nextAvailableChannel (m_channelHandler c) < INT_MAX" by simp
      from Subscribe_ok [OF core this, of ex key f qp] obtain r c' where
          "Subscribe ex key f qp c = Inr (r, c')" "cons_inv lib P c' s" "handler_step c c'"
        by (auto simp: okr_def)
      with x Elsewhere C_Subscribe cons_winding_handler [OF w [unfolded x]] show ?thesis by simp
    next
      case C_Thread
      from winding_thread [OF w [unfolded x]] x Elsewhere C_Thread show ?thesis
        by (auto simp: okr_def)
    next
      case (C_Environment t)
      with b core have "cons_inv lib P c t" by (auto intro: cons_inv_step)
      with x Elsewhere C_Environment w show ?thesis by (simp add: cons_winding_def)
    qed (use b in simp_all)
  next
    case (Register ex key f qp)
    with ok x have "m_nextAvailableChannel (m_channelHandler c) < INT_MAX" by (simp add: while_stopping_def)
    from register_ok [OF core this, of ex key f] obtain y c' where
        reg: "subscribe_register ex key f c = Inr (y, c')" "cons_inv lib P c' s" "handler_step c c'"
        "\<forall>ch. y = Inr ch \<longrightarrow> has_channel (m_channelHandler c') ch"
      by (auto simp: okr_def)
    with x Register show ?thesis
      by (cases y) (auto intro!: cons_winding_handler [OF w [unfolded x]])
  next
    case (Continue i)
    from continue_ok [OF core known, of subs i "\<lambda>_. {}"] obtain c' subs' where
        "continue_call i c subs = Inr (c', subs')" "cons_inv lib P c' s" "handler_step c c'"
        "sub_channel ` set subs' \<subseteq> sub_channel ` set subs"
      by (auto simp: okr_def)
    with x Continue cons_winding_handler [OF w [unfolded x], of c' subs'] show ?thesis by auto
  qed
qed

interpretation cons_stop: winding_down "sub_act P" "while_stopping lib" worker_step "cons_winding lib P old"
  for lib :: "'w \<Rightarrow> nat set" and P :: "'w platform" and old :: "int set"
  by unfold_locales (rule winding_closer)

lemma consumer_stop_finish_ok:
  assumes "cons_winding lib P old 0 (c, subs, s)"
  shows "m_consumerThread c = Some C_Exited"
    and "okr (consumer_stop_finish P c s) (\<lambda>(r, c', s'). consumer_inv lib P c' s' \<and>
      \<not> m_threadRunning c' \<and> \<not> connected c' \<and>
      (\<forall>ch \<in> old \<union> sub_channel ` set subs. has_channel (m_channelHandler c') ch))"
proof -
  from assms obtain pc where "m_consumerThread c = Some pc" "cons_rank pc = 0" by (auto simp: cons_winding_def)
  then show "m_consumerThread c = Some C_Exited" by (cases pc) (simp_all add: cons_rank_def)
  let ?c = "c\<lparr>m_consumerThread := None\<rparr>"
  have inv: "cons_inv lib P ?c s" "m_isInitialized ?c"
    using assms by (auto simp: cons_winding_def cons_inv_def)
  from inv obtain k where k: "m_connection ?c = Some k" "consumer_connection ?c = Inr k" "conn_inv P k"
    by (rule cons_inv_connectionE)
  from CloseConnection_quiet [OF cons_invD(2) [OF inv(1)] k(3), of s] obtain r k' s' where
      cl: "CloseConnection P k s = Inr (r, k', s')" "conn_inv P k'" "\<not> IsConnected k'" "quiet lib s s'"
    by (auto simp: okr_def)
  have "cons_inv lib P (?c\<lparr>m_connection := Some k'\<rparr>) s'"
    using cons_inv_connection [OF cons_inv_quiet [OF inv(1) cl(4)] k(1) cl(2)] .
  with assms k(2) cl show "okr (consumer_stop_finish P c s) (\<lambda>(r, c', s'). consumer_inv lib P c' s' \<and>
      \<not> m_threadRunning c' \<and> \<not> connected c' \<and>
      (\<forall>ch \<in> old \<union> sub_channel ` set subs. has_channel (m_channelHandler c') ch))"
    by (simp add: consumer_stop_finish_def Let_def consumer_inv_def cons_thread_inv_def cons_winding_def
        connected_def)
qed

section \<open>Stopping\<close>


text \<open>
  A \<open>Start\<close> in that window finds the flag cleared and assigns to the thread that is being joined,
  which ends the program.
\<close>

lemma start_while_stopping:
  "cons_winding lib P old n (c, subs, s) \<Longrightarrow> Consumer_Start c = Inl Terminate"
  by (auto simp: cons_winding_def Consumer_Start_def Let_def)

definition stop_schedule :: "loop_world sub_action list" where
  "stop_schedule = [Register ''amq.direct'' ''news'' 8 default_queueProperties, Elsewhere C_Thread, Continue 0,
     Elsewhere C_Thread, Continue 0, Elsewhere C_Thread, Elsewhere C_Thread]"

lemma while_stopping_free [simp]:
  "while_stopping lib (Elsewhere C_Thread) x" "while_stopping lib (Continue i) x"
  by (cases x; simp add: while_stopping_def)+


end
