(* ===== verification/Producer_Relations.thy ===== *)
theory Producer_Relations
  imports Producer_System World_Relations
begin

text \<open>
  Relations between the states before and after an action of the producer. A relation that the
  few calls at the bottom respect (connecting, closing, clearing the queue, opening channels,
  publishing) holds for everything built from them: steps of the worker thread, any number of
  them, \<open>Stop\<close>, \<open>Restart\<close> and \<open>Initialize\<close>. Theories \<open>Producer_Delivery\<close> and \<open>Producer_Memory\<close>
  interpret the locale for what is delivered and for what happens to the memory of others.
\<close>

section \<open>Calls of the library\<close>

context producer_calls
begin

lemma W_closeConnection: "closeConnection P p s = Inr (p', s') \<Longrightarrow> across W s s'"
  by (auto simp: closeConnection_def clearActiveSendQueue_def bindr_eq_Inr_iff dest!: W_CloseConnection)

lemma W_connect_loop: "connect_loop P es b p s = Inr (r, p', s') \<Longrightarrow> across W s s'"
proof (induction es arbitrary: b s)
  case Nil
  with W_refl show ?case by simp
next
  case (Cons x es)
  obtain name e where x: "x = (name, e)" by fastforce
  show ?case
  proof (cases "m_connected e")
    case True
    with Cons x show ?thesis by simp
  next
    case False
    with Cons.prems x obtain c r1 s1 where c: "the_connection p = Inr c"
        "OpenChannel P (m_channel e) c s = Inr (r1, s1)"
      by (auto simp: bindr_eq_Inr_iff)
    note o = W_OpenChannel [OF c(2)]
    consider (close) "closeConnection P p s1 = Inr (p', s')"
      | (loop) b' where "connect_loop P es b' p s1 = Inr (r, p', s')"
      | (decl) r2 s2 where "DeclareExchange P (m_channel e) name (m_type e) c s1 = Inr (r2, s2)"
          "closeConnection P p s2 = Inr (p', s') \<or> connect_loop P es b p s2 = Inr (r, p', s')"
      using Cons.prems x False c by (auto simp: bindr_eq_Inr_iff split: if_splits)
    then show ?thesis
    proof cases
      case close
      from W_trans [OF o W_closeConnection [OF close]] show ?thesis .
    next
      case loop
      from W_trans [OF o Cons.IH [OF loop]] show ?thesis .
    next
      case decl
      then have "across W s2 s'" using W_closeConnection Cons.IH by blast
      from W_trans [OF W_trans [OF o W_DeclareExchange [OF decl(1)]] this] show ?thesis .
    qed
  qed
qed

end

section \<open>Actions\<close>

locale producer_relation =
  fixes P :: "'w platform"
    and R :: "Producer \<times> 'w rt \<Rightarrow> Producer \<times> 'w rt \<Rightarrow> bool"
  assumes rel_shell: "m_sendQueue p' = m_sendQueue p \<Longrightarrow> R (p, s) (p', s)"
    and rel_trans: "R x y \<Longrightarrow> R y z \<Longrightarrow> R x z"
    and rel_connect: "conn_inv P c \<Longrightarrow> Connect P c s = Inr (r, c', s') \<Longrightarrow> R (p, s) (p, s')"
    and rel_close: "conn_inv P c \<Longrightarrow> CloseConnection P c s = Inr (r, c', s') \<Longrightarrow> R (p, s) (p, s')"
    and rel_clear: "core_inv P p s \<Longrightarrow> clearActiveSendQueue P p s = Inr (p', s') \<Longrightarrow> R (p, s) (p', s')"
    and rel_channels: "core_inv P p s \<Longrightarrow> connectChannels P p s = Inr (p', s') \<Longrightarrow> R (p, s) (p', s')"
    and rel_publish: "core_inv P p s \<Longrightarrow> publishNextInQueue P p s = Inr (p', s') \<Longrightarrow> R (p, s) (p', s')"
begin

lemma rel_through:
  "m_sendQueue p1 = m_sendQueue p \<Longrightarrow> R (p1, s) (p2, s') \<Longrightarrow> m_sendQueue p' = m_sendQueue p2 \<Longrightarrow>
     R (p, s) (p', s')"
  by (blast intro: rel_trans rel_shell)

lemma rel_connection_invE:
  assumes "core_inv P p s" and "the_connection p = Inr c"
  shows "conn_inv P c" and "m_connection p = Some c"
  using assms by (auto simp: the_connection_def core_inv_def split: option.splits)

lemma rel_thread_step:
  assumes inv: "core_inv P p s" and run: "Producer_thread_step P pc p s = Inr (p', s')"
  shows "R (p, s) (p', s')"
proof (cases pc)
  case P_Connect
  with run obtain c r c' where con: "the_connection p = Inr c" "Connect P c s = Inr (r, c', s')"
      and q: "m_sendQueue p' = m_sendQueue p"
    by (auto simp: Producer_thread_step_def bindr_eq_Inr_iff at_pc_def)
  from rel_through [OF refl rel_connect [OF rel_connection_invE(1) [OF inv con(1)] con(2)] q] show ?thesis .
next
  case P_Channels
  with run obtain p1 where p1: "(if \<not> channelsConnected p then connectChannels P p s else Inr (p, s)) = Inr (p1, s')"
      and q: "m_sendQueue p' = m_sendQueue p1"
    by (auto simp: Producer_thread_step_def bindr_eq_Inr_iff at_pc_def)
  from p1 have "R (p, s) (p1, s')" by (auto split: if_splits intro: rel_shell rel_channels [OF inv])
  from rel_through [OF refl this q] show ?thesis .
next
  case P_Publish
  with run obtain p1 where p1: "publishNextInQueue P p s = Inr (p1, s')"
      and q: "m_sendQueue p' = m_sendQueue p1"
    by (auto simp: Producer_thread_step_def bindr_eq_Inr_iff at_pc_def)
  from rel_through [OF refl rel_publish [OF inv p1] q] show ?thesis .
qed (use run in \<open>auto simp: Producer_thread_step_def at_pc_def intro!: rel_shell\<close>)

lemma rel_run_thread:
  assumes "core_inv P p s" and "m_isInitialized p" and "run_thread P n p s = Inr (p', s')"
  shows "core_inv P p' s' \<and> m_isInitialized p' \<and> R (p, s) (p', s')"
  using assms
proof (induction n arbitrary: p s)
  case 0
  then show ?case by (auto intro: rel_shell)
next
  case (Suc n)
  show ?case
  proof (cases "m_producerThread p")
    case None
    with Suc.prems show ?thesis by (auto intro: rel_shell)
  next
    case (Some pc)
    with Suc.prems obtain p1 s1 where st: "Producer_thread_step P pc p s = Inr (p1, s1)"
        "run_thread P n p1 s1 = Inr (p', s')"
      by (auto simp: bindr_eq_Inr_iff)
    from Producer_thread_step_ok [OF Suc.prems(1) Some Suc.prems(2)] st(1) Suc.prems(2)
    have "core_inv P p1 s1" "m_isInitialized p1"
      by (auto simp: okr_def thread_moved_def same_shell_def)
    from Suc.IH [OF this st(2)] rel_thread_step [OF Suc.prems(1) st(1)] show ?thesis
      by (blast intro: rel_trans)
  qed
qed

lemma rel_close_and_clear:
  assumes inv: "core_inv P p s" and c: "the_connection p = Inr c"
    and cl: "CloseConnection P c s = Inr (r, c', s1)"
    and run: "clearActiveSendQueue P (p\<lparr>m_connection := Some c'\<rparr>) s1 = Inr (p', s')"
  shows "R (p, s) (p', s')"
proof -
  note k = rel_connection_invE [OF inv c]
  let ?p = "p\<lparr>m_connection := Some c'\<rparr>"
  from CloseConnection_ok [OF k(1), of s] cl have c': "conn_inv P c'" "rt_heap s1 = rt_heap s"
    by (simp_all add: okr_def)
  have "core_inv P ?p s1"
    by (rule core_inv_frame [OF inv])
       (use inv k(2) c' in \<open>auto simp: core_inv_def same_shell_def\<close>)
  from rel_trans [OF rel_close [OF k(1) cl] rel_through [OF _ rel_clear [OF this run] refl]] show ?thesis by simp
qed

lemma rel_stop_tail:
  assumes inv: "core_inv P p s"
    and run: "bindr (the_connection p) (\<lambda>c. bindr (CloseConnection P c s) (\<lambda>(_, c', s2).
       bindr (clearActiveSendQueue P (p\<lparr>m_connection := Some c'\<rparr>) s2) (\<lambda>(p2, s3).
       Inr (retCode, p2, s3)))) = Inr (r, p', s')"
  shows "R (p, s) (p', s')"
  using run by (auto simp: bindr_eq_Inr_iff intro: rel_close_and_clear [OF inv])

lemma rel_Stop:
  assumes inv: "core_inv P p s" and init: "m_isInitialized p"
    and run: "Producer_Stop P p s = Inr (r, p', s')"
  shows "R (p, s) (p', s')"
proof (cases "m_threadRunning p")
  case False
  with run init show ?thesis
    by (intro rel_stop_tail [OF inv])
       (simp add: Producer_Stop_def Producer_IsInitialized_def Producer_IsRunning_def)
next
  case True
  let ?p = "Producer_setRunning False p"
  from run True init obtain p2 s1 where j: "Producer_join P ?p s = Inr (p2, s1)"
    by (auto simp: Producer_Stop_def Producer_IsInitialized_def Producer_IsRunning_def bindr_eq_Inr_iff)
  then obtain p3 where p3: "run_thread P 4 ?p s = Inr (p3, s1)" "p2 = p3\<lparr>m_producerThread := None\<rparr>"
    by (auto simp: Producer_join_def bindr_eq_Inr_iff split: if_splits)
  have "core_inv P ?p s" "m_isInitialized ?p"
    using inv init by (simp_all add: core_inv_def exchange_inv_def Producer_setRunning_def)
  from rel_run_thread [OF this p3(1)] have th: "core_inv P p3 s1" "R (?p, s) (p3, s1)" by simp_all
  let ?q = "p2\<lparr>m_channelsConnected := False\<rparr>"
  have "core_inv P ?q s1" using th(1) p3(2) by (simp add: core_inv_def exchange_inv_def)
  then have "R (?q, s1) (p', s')"
    using run True init j
    by (intro rel_stop_tail) (simp_all add: Producer_Stop_def Producer_IsInitialized_def Producer_IsRunning_def)
  moreover have "R (p, s) (?q, s1)"
    by (rule rel_through [OF _ th(2)]) (simp_all add: p3(2) Producer_setRunning_def)
  ultimately show ?thesis by (blast intro: rel_trans)
qed

lemma rel_Start:
  assumes "Producer_Start p = Inr (r, p')"
  shows "R (p, s) (p', s)"
  by (rule rel_shell) (use assms in \<open>auto simp: Producer_Start_def Producer_setRunning_def Let_def split: if_splits\<close>)

lemma rel_Restart:
  assumes inv: "core_inv P p s" and run: "Producer_Restart P p s = Inr (r, p', s')"
  shows "R (p, s) (p', s')"
proof (cases "m_isInitialized p")
  case False
  with run show ?thesis by (auto simp: Producer_Restart_def Producer_IsInitialized_def Let_def intro: rel_shell)
next
  case True
  with run obtain r1 p1 s1 where stop: "Producer_Stop P p s = Inr (r1, p1, s1)"
      and "p' = p1 \<and> s' = s1 \<or> Producer_Start p1 = Inr (r, p') \<and> s' = s1"
    by (auto simp: Producer_Restart_def Producer_IsInitialized_def Let_def bindr_eq_Inr_iff
        split: if_splits)
  then have "R (p1, s1) (p', s')" by (auto intro: rel_shell rel_Start)
  with rel_Stop [OF inv True stop] show ?thesis by (blast intro: rel_trans)
qed

lemma rel_Initialize:
  assumes inv: "core_inv P p s"
    and run: "Producer_Initialize P host port user pw p s = Inr (r, p', s')"
  shows "R (p, s) (p', s')"
proof -
  from run have s1: "(case m_connection p of None \<Rightarrow> Inr s
      | Some old \<Rightarrow> bindr (ConnectionBase_destroy P old s) (\<lambda>(_, _, s'). Inr s')) = Inr s'"
      and q: "m_sendQueue p' = m_sendQueue p"
    by (auto simp: Producer_Initialize_def Producer_setRunning_def setInitialized_def Let_def
        bindr_eq_Inr_iff)
  have "R (p, s) (p, s')"
  proof (cases "m_connection p")
    case None
    with s1 show ?thesis by (auto intro: rel_shell)
  next
    case (Some c)
    with s1 obtain r c' where cl: "CloseConnection P c s = Inr (r, c', s')"
      by (auto simp: ConnectionBase_destroy_def bindr_eq_Inr_iff)
    from Some inv have "conn_inv P c" by (simp add: core_inv_def)
    from rel_close [OF this cl] show ?thesis .
  qed
  from rel_through [OF refl this q] show ?thesis .
qed

text \<open>Every action but sending and the environment's.\<close>

lemma rel_action:
  assumes inv: "core_inv P p s" and perm: "permitted P a p s"
    and act: "producer_action P a p s = Inr (p', s')"
    and other: "\<And>ex rk m. a \<noteq> A_Send ex rk m" "\<And>t. a \<noteq> A_Environment t"
  shows "R (p, s) (p', s')"
proof (cases a)
  case (A_DeclareExchange ex ty)
  with act show ?thesis
    by (auto simp: Producer_DeclareExchange_def split_beta Let_def addExchange_declared_shell intro: rel_shell)
next
  case A_Start
  with act show ?thesis by (auto simp: producer_start_def bindr_eq_Inr_iff intro: rel_Start)
next
  case A_Thread
  with act show ?thesis by (auto split: option.splits intro: rel_shell rel_thread_step [OF inv])
qed (use act perm other in \<open>auto simp: bindr_eq_Inr_iff
      intro: rel_Stop [OF inv] rel_Restart [OF inv] rel_Initialize [OF inv]\<close>)

end

section \<open>Worlds\<close>

text \<open>
  What all calls of the producer respect, publishing included, holds between the worlds before
  and after any of its actions.
\<close>

locale publisher_calls = producer_calls +
  assumes W_basic_publish: "W w (snd (amqp_basic_publish (api P) c ch ex rk ma im props fs body w))"
begin

lemma W_PublishMessage:
  assumes "PublishMessage P m k s = Inr (r, m', s')"
  shows "across W s s'"
  using assms W_refl W_basic_publish
  by (auto simp: PublishMessage_def bindr_eq_Inr_iff Let_def split_beta library_calls split: if_splits)

lemma W_publishNextInQueue:
  assumes run: "publishNextInQueue P p s = Inr (p', s')"
  shows "across W s s'"
proof (cases "isConnected p \<and> m_sendQueue p \<noteq> []")
  case False
  with run W_refl show ?thesis by (auto simp: publishNextInQueue_def split: if_splits)
next
  case True
  then obtain m q where q: "m_sendQueue p = m # q" by (cases "m_sendQueue p") auto
  with True run obtain k r m' s1 where pub: "PublishMessage P m k s = Inr (r, m', s1)"
      and rest: "rt_world s' = rt_world s1 \<or> closeConnection P (p\<lparr>m_sendQueue := m' # q\<rparr>) s1 = Inr (p', s')"
    by (auto simp: publishNextInQueue_def Let_def bindr_eq_Inr_iff split: if_splits)
  from rest have "across W s1 s'" using W_refl W_closeConnection by auto
  with W_PublishMessage [OF pub] show ?thesis by (rule W_trans)
qed

lemma W_connectChannels: "connectChannels P p s = Inr (p', s') \<Longrightarrow> across W s s'"
  using W_refl
  by (auto simp: connectChannels_def bindr_eq_Inr_iff split: if_splits dest: W_connect_loop)

end

sublocale publisher_calls \<subseteq> acts: producer_relation P "\<lambda>x y. across W (snd x) (snd y)"
  by unfold_locales
     (auto simp: W_refl clearActiveSendQueue_def bindr_eq_Inr_iff intro: W_trans dest: W_Connect W_CloseConnection
       W_connectChannels W_publishNextInQueue)

context publisher_calls
begin

lemma W_producer_action:
  assumes inv: "core_inv P p s" and perm: "permitted P a p s"
    and act: "producer_action P a p s = Inr (p', s')" and env: "\<And>t. a \<noteq> A_Environment t"
  shows "across W s s'"
proof (cases "\<exists>ex rk m. a = A_Send ex rk m")
  case True
  with act W_refl show ?thesis by (auto simp: bindr_eq_Inr_iff)
next
  case False
  with acts.rel_action [OF inv perm act] env show ?thesis by simp
qed

end

end
