(* ===== verification/Producer_Memory.thy ===== *)
theory Producer_Memory
  imports Producer_Relations
begin

text \<open>
  What the producer does to the memory of the process. \<open>foreign p s\<close> is the part of the heap that
  does not belong to the send queue. No action of the producer changes it: \<open>Send\<close> allocates
  blocks for the queue only, and every message that leaves the queue, sent or dropped, gives its
  blocks back.
\<close>

definition foreign :: "Producer \<Rightarrow> 'w rt \<Rightarrow> nat \<Rightarrow> byte list option" where
  "foreign p s = h_blocks (rt_heap s) |` (- set (queue_addrs (m_sendQueue p)))"

lemma foreign_cong:
  "m_sendQueue p' = m_sendQueue p \<Longrightarrow> rt_heap s' = rt_heap s \<Longrightarrow> foreign p' s' = foreign p s"
  by (simp add: foreign_def)

lemma foreign_freed:
  assumes "set (queue_addrs (m_sendQueue p)) = set freed \<union> set (queue_addrs (m_sendQueue p'))"
    and "rt_heap s' = drop_blocks freed (rt_heap s)"
  shows "foreign p' s' = foreign p s"
  using assms by (auto simp: foreign_def drop_blocks_def Int_commute)

lemma closed_from_foreign: "closed_from P p s p' s' \<Longrightarrow> foreign p' s' = foreign p s"
  by (rule foreign_freed) (auto simp: closed_from_def)

section \<open>The worker thread\<close>

lemma publish_foreign:
  assumes inv: "core_inv P p s" and run: "publishNextInQueue P p s = Inr (p', s')"
  shows "foreign p' s' = foreign p s"
proof (cases "isConnected p")
  case False
  with run show ?thesis by (simp add: publishNextInQueue_def)
next
  case True
  from publishNextInQueue_ok [OF inv True] run have "publish_outcome P p s p' s'" by (simp add: okr_def)
  then show ?thesis
  proof (cases "m_sendQueue p")
    case Nil
    with \<open>publish_outcome P p s p' s'\<close> show ?thesis by (simp add: publish_outcome_def)
  next
    case (Cons m q)
    with \<open>publish_outcome P p s p' s'\<close> consider
        "p' = p\<lparr>m_sendQueue := q\<rparr>" "rt_heap s' = drop_blocks (owned m) (rt_heap s)"
      | "p' = p\<lparr>m_sendQueue := stamp P m s # q\<rparr>" "rt_heap s' = rt_heap s"
      | "closed_from P p s p' s'"
      by (auto simp: publish_outcome_def)
    then show ?thesis
    proof cases
      case 1
      with Cons show ?thesis by (intro foreign_freed) auto
    next
      case 2
      with Cons show ?thesis by (simp add: foreign_def)
    qed (rule closed_from_foreign)
  qed
qed

lemma connectChannels_foreign:
  assumes inv: "core_inv P p s" and run: "connectChannels P p s = Inr (p', s')"
  shows "foreign p' s' = foreign p s"
proof (cases "isConnected p \<and> Producer_IsRunning p")
  case False
  with run show ?thesis by (auto simp: connectChannels_def)
next
  case True
  with run obtain r p1 where loop: "connect_loop P (exchange_entries P p s) True p s = Inr (r, p1, s')"
      and p': "m_sendQueue p' = m_sendQueue p1"
    by (auto simp: connectChannels_def bindr_eq_Inr_iff split: if_splits)
  from inv True have "m_isInitialized p" by (auto elim: isConnectedE)
  from connect_loop_ok [OF inv this, of "exchange_entries P p s" True] loop
  have "loop_outcome P p s (r, p1, s')" by (simp add: okr_def)
  then have "foreign p1 s' = foreign p s"
    by (auto simp: loop_outcome_def intro: foreign_cong closed_from_foreign)
  with p' show ?thesis by (simp add: foreign_def)
qed

interpretation prod_mem: producer_relation P "\<lambda>x y. foreign (fst y) (snd y) = foreign (fst x) (snd x)"
  for P :: "'w platform"
proof
  fix p p' :: Producer and s s' :: "'w rt" and c c' r
  show "m_sendQueue p' = m_sendQueue p \<Longrightarrow>
      foreign (fst (p', s)) (snd (p', s)) = foreign (fst (p, s)) (snd (p, s))"
    by (simp add: foreign_def)
  assume c: "conn_inv P c"
  show "Connect P c s = Inr (r, c', s') \<Longrightarrow>
      foreign (fst (p, s')) (snd (p, s')) = foreign (fst (p, s)) (snd (p, s))"
    using Connect_ok [OF c, of s] by (auto simp: okr_def intro: foreign_cong)
  show "CloseConnection P c s = Inr (r, c', s') \<Longrightarrow>
      foreign (fst (p, s')) (snd (p, s')) = foreign (fst (p, s)) (snd (p, s))"
    using CloseConnection_ok [OF c, of s] by (auto simp: okr_def intro: foreign_cong)
next
  fix p p' :: Producer and s s' :: "'w rt"
  assume inv: "core_inv P p s"
  show "clearActiveSendQueue P p s = Inr (p', s') \<Longrightarrow>
      foreign (fst (p', s')) (snd (p', s')) = foreign (fst (p, s)) (snd (p, s))"
    by (auto simp: clear_ok(1) [OF inv] intro!: foreign_freed)
  show "connectChannels P p s = Inr (p', s') \<Longrightarrow>
      foreign (fst (p', s')) (snd (p', s')) = foreign (fst (p, s)) (snd (p, s))"
    using connectChannels_foreign [OF inv] by simp
  show "publishNextInQueue P p s = Inr (p', s') \<Longrightarrow>
      foreign (fst (p', s')) (snd (p', s')) = foreign (fst (p, s)) (snd (p, s))"
    using publish_foreign [OF inv] by simp
qed simp

section \<open>Sending\<close>

lemma alloc_spec_outside: "alloc_spec h c p h' \<Longrightarrow> a \<notin> set (ptr_addrs p) \<Longrightarrow> h_blocks h' a = h_blocks h a"
  by (auto simp: alloc_spec_def)

text \<open>The blocks that \<open>Send\<close> allocates are the three of the new message.\<close>

lemma Send_foreign:
  assumes inv: "core_inv P p s" and perm: "permitted P (A_Send ex rk message) p s"
    and run: "Send P ex rk message p (rt_heap s) = Inr (r, p', hp')"
  shows "foreign p' (s\<lparr>rt_heap := hp'\<rparr>) = foreign p s"
proof -
  note plat = core_inv_platform [OF inv]
  from perm obtain body where room: "m_curChannelNumber p < INT_MAX"
      and msg: "sendable (flags P) (rt_heap s) message body"
    by auto
  from Send_ok [OF inv room msg, of ex rk] run perm obtain m where
      p': "m_sendQueue p' = m_sendQueue p @ [m]"
    by (auto simp: okr_def)
  have "\<not> fst (addExchange ex p) < 0"
    using addExchange_result(2) [of p ex] inv by (simp add: core_inv_def)
  with run obtain exb rkb body' b hp1 hp2 ch where
      r: "hare_cstring_bytes (c_str ex) (rt_heap s) = Inr (exb, hp1)"
      "hare_cstring_bytes (c_str rk) hp1 = Inr (rkb, hp2)"
      "Bytes message = Some b" "amqp_bytes_malloc_dup (bapi P) b hp2 = Inr (body', hp')"
      "m_sendQueue p' = m_sendQueue p @ [\<lparr>rm_exchange = exb, rm_channel = ch, rm_routing_key = rkb,
         rm_properties = AmqpProperties message, rm_message = body'\<rparr>]"
    by (auto simp: Send_def bindr_eq_Inr_iff Let_def addExchange_shell split_beta
        split: option.splits)
  with p' have e: "hare_cstring_bytes (c_str ex) (rt_heap s) = Inr (rm_exchange m, hp1)"
      and k: "hare_cstring_bytes (c_str rk) hp1 = Inr (rm_routing_key m, hp2)"
      and d: "Bytes message = Some b" "amqp_bytes_malloc_dup (bapi P) b hp2 = Inr (rm_message m, hp')"
    by auto
  from hare_cstring_bytes_ok [of ex "rt_heap s"] e
  have al1: "alloc_spec (rt_heap s) (c_str (upto_NUL ex)) (ab_bytes (rm_exchange m)) hp1"
    by (simp add: okr_def)
  from hare_cstring_bytes_ok [of rk hp1] k
  have al2: "alloc_spec hp1 (c_str (upto_NUL rk)) (ab_bytes (rm_routing_key m)) hp2" by (simp add: okr_def)
  have le: "heap_le (rt_heap s) hp2"
    using alloc_spec_ext [OF plat(3) al1] alloc_spec_ext [OF alloc_spec_wf [OF plat(3) al1] al2]
    by (rule heap_le_trans)
  from msg d(1) have "deref_bytes (rt_heap s) b = Inr body" by (auto simp: sendable_def)
  from heap_le_deref_bytes [OF le this] obtain c where "load_bytes hp2 b = Inr c"
    by (auto simp: deref_bytes_def bindr_eq_Inr_iff)
  from bytes_api_dup [OF plat(1) this] d(2)
  have al3: "alloc_spec hp2 c (ab_bytes (rm_message m)) hp'" by (simp add: okr_def dup_spec_def)
  have out: "h_blocks hp' a = h_blocks (rt_heap s) a" if "a \<notin> set (owned m)" for a
    using that alloc_spec_outside [OF al1] alloc_spec_outside [OF al2] alloc_spec_outside [OF al3]
    by (simp add: owned_def)
  have fresh: "h_blocks (rt_heap s) a = None" if "a \<in> set (owned m)" for a
  proof -
    have "h_next (rt_heap s) \<le> a"
      using that al1 al2 al3 by (auto simp: owned_def alloc_spec_def)
    with plat(3) show ?thesis by (rule heap_wf_fresh)
  qed
  show ?thesis
    by (rule ext) (use out fresh in \<open>auto simp: foreign_def p' restrict_map_def\<close>)
qed

lemma action_foreign:
  assumes inv: "producer_inv P p s" and perm: "permitted P a p s"
    and act: "producer_action P a p s = Inr (p', s')" and env: "\<And>t. a \<noteq> A_Environment t"
  shows "foreign p' s' = foreign p s"
proof -
  from inv have core: "core_inv P p s" by (simp add: producer_inv_def)
  show ?thesis
  proof (cases "\<exists>ex rk m. a = A_Send ex rk m")
    case True
    then obtain ex rk m where a: "a = A_Send ex rk m" by blast
    with act Send_foreign [OF core, of ex rk m] perm show ?thesis by (auto simp: bindr_eq_Inr_iff)
  next
    case False
    with prod_mem.rel_action [OF core perm act] env show ?thesis by simp
  qed
qed

text \<open>
  C10. The producer leaks nothing and touches nothing that is not its own: whatever it does in a
  reachable state, the part of the heap outside its send queue is the same before and after. So
  the blocks that \<open>Send\<close> allocates all belong to the queue, and a message that leaves the queue,
  by being sent or by being dropped on a failure or a Stop, has given back its three blocks.
\<close>

theorem producer_memory_accounted:
  assumes "producer_reachable P p s" and "permitted P a p s" and "\<forall>t. a \<noteq> A_Environment t"
  shows "okr (producer_action P a p s) (\<lambda>(p', s'). foreign p' s' = foreign p s)"
proof -
  from reachable_inv [OF assms(1)] have inv: "producer_inv P p s" and "connections_available P"
    by simp_all
  from producer_action_ok [OF this assms(2)] obtain p' s' where
      act: "producer_action P a p s = Inr (p', s')"
    by (auto simp: okr_def)
  from action_foreign [OF inv assms(2) act] assms(3) have "foreign p' s' = foreign p s" by simp
  with act show ?thesis by simp
qed

theorem producer_memory_accounted_witness:
  "okr (producer_action ref_platform (A_Send ''amq.direct'' ''test'' plain_message) Producer_init sample_rt)
     (\<lambda>(p', s'). foreign p' s' = foreign Producer_init sample_rt)"
  by (rule producer_memory_accounted [OF sample_heap_reachable sample_sendable]) simp

end
