(* ===== verification/Consumer_Memory.thy ===== *)
theory Consumer_Memory
  imports Consumer_Actions
begin

text \<open>
  What the consumer does to the memory of the process: of the blocks that belong to the program
  it frees and replaces its queue names only. Every other block, such as the buffers of a
  producer in the same process, keeps its contents and stays free of aliases in the tables.
\<close>

lemma Add_names:
  assumes inv: "handler_inv h" and add: "AddChannelProcessor bp cb h = Inr (r, h')"
  shows "name_set h' = name_set h"
proof (cases "map_of (m_bindingPairLookup h) bp")
  case None
  with add AddChannelProcessor_new [OF inv None, of cb]
  have "pair_count h' = Suc (pair_count h)"
      "name_at h' i = (if i = pair_count h then Null else name_at h i)" for i
    by (auto simp: name_at_def new_info_def)
  then have "(i < pair_count h' \<and> name_at h' i = Ptr a) \<longleftrightarrow> (i < pair_count h \<and> name_at h i = Ptr a)" for i a
    by auto
  then show ?thesis by (simp add: name_set_def)
next
  case (Some p)
  from AddChannelProcessor_known [OF inv Some, of cb] add obtain i info where
      "ch_objs h i = Some info"
      "h' = h\<lparr>ch_objs := (ch_objs h)(i \<mapsto> info\<lparr>ci_callback := Some cb\<rparr>)\<rparr>"
    by (auto simp: okr_def)
  then show ?thesis by (auto simp: name_set_def name_at_update)
qed

lemma SetQueueProperties_names:
  assumes upd: "SetQueueProperties ch qp h = Inr h'"
  shows "name_set h' = name_set h"
proof (cases "has_channel h ch")
  case False
  with upd show ?thesis by (simp add: SetQueueProperties_def)
next
  case True
  with upd obtain i info where "ch_objs h i = Some info"
      "h' = h\<lparr>ch_objs := (ch_objs h)(i \<mapsto> info\<lparr>ci_queueProperties := qp\<rparr>)\<rparr>"
    by (cases "channel_ref h ch") (auto simp: SetQueueProperties_def split: option.splits)
  then show ?thesis by (auto simp: name_set_def name_at_update)
qed

lemma Subscribe_names:
  assumes inv: "handler_inv (m_channelHandler c)" and run: "Subscribe ex key f qp c = Inr (r, c')"
  shows "name_set (m_channelHandler c') = name_set (m_channelHandler c)"
proof (cases "m_isInitialized c")
  case False
  with run show ?thesis by (simp add: Subscribe_def Consumer_IsInitialized_def)
next
  case True
  with run obtain ch h1 where
      add: "AddChannelProcessor \<lparr>m_exchangeName = ex, m_routingKey = key\<rparr> f (m_channelHandler c) = Inr (ch, h1)"
      and "m_channelHandler c' = h1 \<or> SetQueueProperties ch qp h1 = Inr (m_channelHandler c')"
    by (auto simp: Subscribe_def Consumer_IsInitialized_def pushIntoPendingChannels_def Let_def
        bindr_eq_Inr_iff split: if_splits)
  with Add_names [OF inv add] SetQueueProperties_names show ?thesis by auto
qed

interpretation cons_mem: consumer_relation lib P "\<lambda>x y. others_kept lib (fst x) (snd x) (fst y) (snd y)"
  for lib :: "'w \<Rightarrow> nat set" and P :: "'w platform"
proof (unfold_locales, goal_cases)
  case (1 c' c s)
  then show ?case by (simp add: others_kept_def)
next
  case (2 x y z)
  then show ?case by (auto intro: others_kept_trans)
next
  case (3 c s k r k' s')
  from Connect_quiet [OF cons_invD(2) [OF 3(1)] 3(2,3)] show ?case by (simp add: others_kept_quiet)
next
  case (4 c s k r k' s')
  from CloseConnection_quiet [OF cons_invD(2) [OF 4(1)] 4(2), of s] 4(3) show ?case
    by (simp add: okr_def others_kept_quiet)
next
  case (5 c s ch r c' s')
  from setupAndConsume_ok [OF 5(1-3)] 5(4) show ?case by (simp add: okr_def)
next
  case (6 c s c' s')
  from pullNextMessage_ok [OF 6(1,2)] 6(3) show ?case
    by (auto simp: okr_def intro!: others_kept_step)
qed

lemma act_keeps_others:
  assumes inv: "consumer_inv lib P c s" and act: "consumer_act P a c s = Inr (c', s')"
    and env: "\<And>t. a \<noteq> C_Environment t"
  shows "others_kept lib c s c' s'"
proof (cases "\<exists>ex key f qp. a = C_Subscribe ex key f qp")
  case True
  then obtain ex key f qp where a: "a = C_Subscribe ex key f qp" by blast
  with act obtain r where run: "Subscribe ex key f qp c = Inr (r, c')" and "s' = s"
    by (auto simp: bindr_eq_Inr_iff)
  from inv have "handler_inv (m_channelHandler c)" by (simp add: consumer_inv_def cons_inv_def)
  from Subscribe_names [OF this run] \<open>s' = s\<close> show ?thesis by (simp add: others_kept_def)
next
  case False
  with cons_mem.rel_act [OF inv act] env show ?thesis by simp
qed


text \<open>A consumer whose process has allocated a block of its own.\<close>

definition busy_rt :: "ref_world rt" where
  "busy_rt = quiet_rt\<lparr>rt_heap := put_block ''mine'' (rt_heap quiet_rt)\<rparr>"

lemma busy_reachable: "consumer_reachable (\<lambda>_. {}) polite_platform polite_consumer busy_rt"
proof -
  have "lib_inv (\<lambda>_. {}) quiet_rt" by (simp add: lib_inv_def quiet_rt_def)
  then have "lib_step (\<lambda>_. {}) quiet_rt busy_rt" unfolding busy_rt_def by (rule put_block_step)
  then show ?thesis
    using consumer_reachable.step [OF polite_reachable, of "C_Environment busy_rt" polite_consumer busy_rt]
    by simp
qed


end
