(* ===== verification/Process.thy ===== *)
theory Process
  imports Producer_Memory Consumer_Memory Loopback_Broker
begin

text \<open>
  A process with a producer and a consumer that share the heap and the library. Each of the two
  is part of the environment of the other; the theory shows that neither breaks what the other
  one relies on: the producer changes no block outside its queue and nothing that the library
  owns, the consumer no block of the program but its queue names.
\<close>

section \<open>The library in a process\<close>

text \<open>Publishing and declaring exchanges get no access to the heap either.\<close>

definition process_library :: "('w \<Rightarrow> nat set) \<Rightarrow> 'w platform \<Rightarrow> bool" where
  "process_library lib P \<longleftrightarrow> consumer_library lib P \<and>
     (\<forall>c ch ex ty n d a i tb w. lib (amqp_exchange_declare (api P) c ch ex ty n d a i tb w) = lib w) \<and>
     (\<forall>c ch ex rk ma im props fs body w.
        lib (snd (amqp_basic_publish (api P) c ch ex rk ma im props fs body w)) = lib w)"

interpretation lib_calls: publisher_calls P "\<lambda>w w'. process_library lib P \<longrightarrow> lib w' = lib w"
  for lib :: "'w \<Rightarrow> nat set" and P :: "'w platform"
  by unfold_locales
     (auto simp: process_library_def consumer_library_def library_ok_def heapless_def)

section \<open>The transition system\<close>

record 'w process =
  pr_producer :: Producer
  pr_consumer :: Consumer
  pr_rt :: "'w rt"

datatype 'w process_action =
    ByProducer "'w action"
  | ByConsumer "'w consumer_action"
  | ByOthers "'w rt"

primrec process_act :: "'w platform \<Rightarrow> 'w process_action \<Rightarrow> 'w process \<Rightarrow> 'w process res" where
  "process_act P (ByProducer a) x =
     bindr (producer_action P a (pr_producer x) (pr_rt x)) (\<lambda>(p, s).
     Inr (x\<lparr>pr_producer := p, pr_rt := s\<rparr>))"
| "process_act P (ByConsumer a) x =
     bindr (consumer_act P a (pr_consumer x) (pr_rt x)) (\<lambda>(c, s).
     Inr (x\<lparr>pr_consumer := c, pr_rt := s\<rparr>))"
| "process_act P (ByOthers s) x = Inr (x\<lparr>pr_rt := s\<rparr>)"

text \<open>The documented use of each object, and other activity that leaves their blocks alone.\<close>

primrec process_permitted ::
    "('w \<Rightarrow> nat set) \<Rightarrow> 'w platform \<Rightarrow> 'w process_action \<Rightarrow> 'w process \<Rightarrow> bool" where
  "process_permitted lib P (ByProducer a) x \<longleftrightarrow>
     permitted P a (pr_producer x) (pr_rt x) \<and> (case a of A_Environment t \<Rightarrow> False | _ \<Rightarrow> True)"
| "process_permitted lib P (ByConsumer a) x \<longleftrightarrow>
     consumer_permitted lib a (pr_consumer x) (pr_rt x) \<and> (case a of C_Environment t \<Rightarrow> False | _ \<Rightarrow> True)"
| "process_permitted lib P (ByOthers s) x \<longleftrightarrow> lib_step lib (pr_rt x) s"

definition new_process :: "'w rt \<Rightarrow> 'w process" where
  "new_process s = \<lparr>pr_producer = Producer_init, pr_consumer = Consumer_init, pr_rt = s\<rparr>"

inductive process_reachable :: "('w \<Rightarrow> nat set) \<Rightarrow> 'w platform \<Rightarrow> 'w process \<Rightarrow> bool" for lib P where
  start: "process_library lib P \<Longrightarrow> lib_inv lib s \<Longrightarrow> process_reachable lib P (new_process s)"
| step: "process_reachable lib P x \<Longrightarrow> process_permitted lib P a x \<Longrightarrow>
    process_act P a x = Inr x' \<Longrightarrow> process_reachable lib P x'"

section \<open>The invariant\<close>

text \<open>
  Both invariants, and separation: the blocks of the send queue belong to the program and none
  of them is a queue name.
\<close>

definition separate :: "('w \<Rightarrow> nat set) \<Rightarrow> Producer \<Rightarrow> Consumer \<Rightarrow> 'w rt \<Rightarrow> bool" where
  "separate lib p c s \<longleftrightarrow>
     set (queue_addrs (m_sendQueue p)) \<subseteq> program_blocks lib s - name_set (m_channelHandler c)"

definition process_inv :: "('w \<Rightarrow> nat set) \<Rightarrow> 'w platform \<Rightarrow> 'w process \<Rightarrow> bool" where
  "process_inv lib P x \<longleftrightarrow> process_library lib P \<and> producer_inv P (pr_producer x) (pr_rt x) \<and>
     consumer_inv lib P (pr_consumer x) (pr_rt x) \<and>
     separate lib (pr_producer x) (pr_consumer x) (pr_rt x)"

lemma process_invD:
  assumes "process_inv lib P x"
  shows "process_library lib P" and "consumer_library lib P" and "connections_available P"
    and "producer_inv P (pr_producer x) (pr_rt x)" and "consumer_inv lib P (pr_consumer x) (pr_rt x)"
    and "separate lib (pr_producer x) (pr_consumer x) (pr_rt x)"
  using assms
  by (simp_all add: process_inv_def process_library_def consumer_library_def library_ok_def)

lemma names_ok_memory: "names_ok A h \<Longrightarrow> name_set h \<subseteq> B \<Longrightarrow> names_ok B h"
  by (fastforce simp: names_ok_def name_set_def)

lemma consumer_inv_memory:
  assumes "consumer_inv lib P c s" and "lib_inv lib s'" and "name_set (m_channelHandler c) \<subseteq> program_blocks lib s'"
  shows "consumer_inv lib P c s'"
  using assms names_ok_memory by (auto simp: consumer_inv_def cons_inv_def)

lemma consumer_names: "consumer_inv lib P c s \<Longrightarrow> name_set (m_channelHandler c) \<subseteq> program_blocks lib s"
  by (auto simp: consumer_inv_def cons_inv_def names_ok_def name_set_def)

section \<open>Non-interference\<close>

text \<open>A block outside the queue that is allocated stays so, and outside the queue.\<close>

lemma foreign_stays:
  assumes "foreign p' s' = foreign p s" and "a \<in> dom (h_blocks (rt_heap s))"
    and "a \<notin> set (queue_addrs (m_sendQueue p))"
  shows "a \<in> dom (h_blocks (rt_heap s'))" and "a \<notin> set (queue_addrs (m_sendQueue p'))"
proof -
  have "foreign p s a \<noteq> None" using assms(2,3) by (simp add: foreign_def domIff)
  then have "foreign p' s' a \<noteq> None" by (simp add: assms(1))
  then show "a \<in> dom (h_blocks (rt_heap s'))" and "a \<notin> set (queue_addrs (m_sendQueue p'))"
    by (simp_all add: foreign_def domIff restrict_map_def split: if_splits)
qed

lemma producer_spares_consumer:
  assumes lib: "process_library lib P" and pinv: "producer_inv P p s" and cinv: "consumer_inv lib P c s"
    and sep: "separate lib p c s" and perm: "permitted P a p s" and env: "\<And>t. a \<noteq> A_Environment t"
    and act: "producer_action P a p s = Inr (p', s')" and pinv': "producer_inv P p' s'"
  shows "consumer_inv lib P c s'" and "separate lib p' c s'"
proof -
  note fr = foreign_stays [OF action_foreign [OF pinv perm act env]]
  from pinv have "core_inv P p s" by (simp add: producer_inv_def)
  from lib_calls.W_producer_action [OF this perm act env] lib
  have same: "lib (rt_world s') = lib (rt_world s)" by blast
  from cinv have mem: "lib_inv lib s" by (simp add: consumer_inv_def cons_inv_def)
  have names: "name_set (m_channelHandler c) \<subseteq> program_blocks lib s' - set (queue_addrs (m_sendQueue p'))"
    using consumer_names [OF cinv] sep fr same by (fastforce simp: separate_def program_blocks_def)
  have libs: "lib (rt_world s') \<subseteq> dom (h_blocks (rt_heap s')) - set (queue_addrs (m_sendQueue p'))"
    using mem sep fr same by (fastforce simp: separate_def program_blocks_def lib_inv_def)
  from pinv' have "heap_wf (rt_heap s')" and q: "set (queue_addrs (m_sendQueue p')) \<subseteq> dom (h_blocks (rt_heap s'))"
    using core_inv_platform(3,4) [of P p' s'] by (simp_all add: producer_inv_def queue_ok_def)
  then have "lib_inv lib s'" using libs by (auto simp: lib_inv_def)
  with names show "consumer_inv lib P c s'" by (intro consumer_inv_memory [OF cinv]) auto
  show "separate lib p' c s'" using q names libs by (auto simp: separate_def program_blocks_def)
qed

lemma consumer_spares_producer:
  assumes av: "connections_available P" and pinv: "producer_inv P p s" and sep: "separate lib p c s"
    and kept: "others_kept lib c s c' s'" and cinv': "consumer_inv lib P c' s'"
  shows "producer_inv P p s'" and "separate lib p c' s'"
proof -
  have q: "\<forall>a \<in> set (queue_addrs (m_sendQueue p)).
      a \<in> program_blocks lib s' - name_set (m_channelHandler c') \<and> h_blocks (rt_heap s') a = h_blocks (rt_heap s) a"
    using sep kept by (auto simp: separate_def others_kept_def)
  then show "separate lib p c' s'" by (auto simp: separate_def)
  have "heap_wf (rt_heap s')" using cinv' by (simp add: consumer_inv_def cons_inv_def lib_inv_def)
  with q have "permitted P (A_Environment s') p s" by simp
  from producer_action_ok [OF pinv av this] show "producer_inv P p s'" by simp
qed

lemma process_act_ok:
  assumes inv: "process_inv lib P x" and perm: "process_permitted lib P a x"
  shows "okr (process_act P a x) (process_inv lib P)"
proof -
  note d = process_invD [OF inv]
  show ?thesis
  proof (cases a)
    case (ByProducer b)
    with perm have b: "permitted P b (pr_producer x) (pr_rt x)" "\<And>t. b \<noteq> A_Environment t" by auto
    from producer_action_ok [OF d(4,3) b(1)] obtain p s where
        act: "producer_action P b (pr_producer x) (pr_rt x) = Inr (p, s)" "producer_inv P p s"
      by (auto simp: okr_def)
    from producer_spares_consumer [OF d(1,4,5,6) b act] act ByProducer d(1) show ?thesis
      by (simp add: process_inv_def)
  next
    case (ByConsumer b)
    with perm have b: "consumer_permitted lib b (pr_consumer x) (pr_rt x)" "\<And>t. b \<noteq> C_Environment t" by auto
    from consumer_act_ok [OF d(5) b(1)] obtain c s where
        act: "consumer_act P b (pr_consumer x) (pr_rt x) = Inr (c, s)" "consumer_inv lib P c s"
      by (auto simp: okr_def)
    from consumer_spares_producer [OF d(3,4,6) act_keeps_others [OF d(5) act(1) b(2)] act(2)] act ByConsumer d(1)
    show ?thesis by (simp add: process_inv_def)
  next
    case (ByOthers s)
    with perm have st: "lib_step lib (pr_rt x) s" by simp
    from consumer_act_ok [OF d(5), of "C_Environment s"] st have c: "consumer_inv lib P (pr_consumer x) s" by simp
    from consumer_spares_producer [OF d(3,4,6) others_kept_step [OF st refl] c] c ByOthers d(1)
    show ?thesis by (simp add: process_inv_def)
  qed
qed

lemma process_reachable_inv: "process_reachable lib P x \<Longrightarrow> process_inv lib P x"
proof (induction rule: process_reachable.induct)
  case (start s)
  then have "consumer_library lib P" "platform_ok P"
    by (simp_all add: process_library_def consumer_library_def library_ok_def)
  moreover have "separate lib Producer_init Consumer_init s"
    by (simp add: separate_def queue_addrs_def) (simp add: Producer_init_def)
  ultimately show ?case
    using start consumer_inv_init [of lib P s] producer_inv_init [of P s]
    by (simp add: process_inv_def new_process_def lib_inv_def)
next
  case (step x a x')
  then show ?case using process_act_ok [of lib P x a] by (simp add: okr_def)
qed


lemma loop_process_library: "process_library (\<lambda>_. {}) loop_platform"
  using loop_library by (simp add: process_library_def)

lemma loop_reachable: "process_reachable (\<lambda>_. {}) loop_platform (new_process loop_rt)"
  using process_reachable.start [OF loop_process_library loop_memory] .


end
