(* ===== verification/Outbox.thy ===== *)
theory Outbox
  imports "HOL-Library.Sublist" Prelude
begin

text \<open>
  What a sender promises, without threads, buffers and connections: messages wait in a queue and
  are delivered from its front, and the whole queue may be dropped at any time. The contract
  \<open>outbox_sender\<close> says that a system does no more than that; its lemma draws the conclusion for
  every run: what has been delivered and what still waits is what was accepted, in that order,
  with omissions only.
\<close>

text \<open>The waiting messages and the delivered ones.\<close>

type_synonym 'm outbox = "'m list \<times> 'm list"

inductive outbox_step :: "'m outbox \<Rightarrow> 'm outbox \<Rightarrow> bool" where
  deliver: "outbox_step (m # q, d) (q, d @ [m])"
| discard: "outbox_step (q, d) ([], d)"

abbreviation outbox_steps :: "'m outbox \<Rightarrow> 'm outbox \<Rightarrow> bool" where
  "outbox_steps \<equiv> outbox_step\<^sup>*\<^sup>*"

definition accept :: "'m option \<Rightarrow> 'm outbox \<Rightarrow> 'm outbox" where
  "accept x b = (fst b @ (case x of None \<Rightarrow> [] | Some m \<Rightarrow> [m]), snd b)"

definition known :: "'m outbox \<Rightarrow> 'm list" where
  "known b = snd b @ fst b"

inductive_cases outbox_stepE: "outbox_step b b'"

lemma accept_None [simp]: "accept None b = b"
  by (simp add: accept_def)

lemma known_accept: "known (accept x b) = known b @ (case x of None \<Rightarrow> [] | Some m \<Rightarrow> [m])"
  by (simp add: known_def accept_def)

lemma known_step: "outbox_step b b' \<Longrightarrow> subseq (known b') (known b)"
  by (erule outbox_stepE) (auto simp: known_def list_emb_append2 intro: subseq_rev_drop_many)

lemma known_steps: "outbox_steps b b' \<Longrightarrow> subseq (known b') (known b)"
  by (induction rule: rtranclp_induct) (auto dest: known_step intro: subseq_order.trans)

text \<open>Delivered messages stay delivered.\<close>

lemma delivered_steps: "outbox_steps b b' \<Longrightarrow> prefix (snd b) (snd b')"
proof (induction rule: rtranclp_induct)
  case (step b' b'')
  from step.hyps(2) have "prefix (snd b') (snd b'')" by (auto elim!: outbox_stepE)
  with step.IH show ?case by (rule prefix_order.trans)
qed simp

text \<open>A run, with the messages that were accepted on the way.\<close>

inductive logged ::
    "('e \<Rightarrow> 's \<Rightarrow> 's \<Rightarrow> bool) \<Rightarrow> ('e \<Rightarrow> 's \<Rightarrow> 'm option) \<Rightarrow> 's \<Rightarrow> 'm list \<Rightarrow> 's \<Rightarrow> bool"
    for step accepted where
  stay: "logged step accepted s [] s"
| go: "logged step accepted s log s1 \<Longrightarrow> step e s1 s2 \<Longrightarrow>
    logged step accepted s (log @ (case accepted e s1 of None \<Rightarrow> [] | Some m \<Rightarrow> [m])) s2"

locale outbox_sender =
  fixes box :: "'s \<Rightarrow> 'm outbox"
    and inv :: "'s \<Rightarrow> bool"
    and step :: "'e \<Rightarrow> 's \<Rightarrow> 's \<Rightarrow> bool"
    and accepted :: "'e \<Rightarrow> 's \<Rightarrow> 'm option"
  assumes inv_step: "inv s \<Longrightarrow> step e s s' \<Longrightarrow> inv s'"
    and simulation: "inv s \<Longrightarrow> step e s s' \<Longrightarrow> outbox_steps (accept (accepted e s) (box s)) (box s')"
begin

lemma logged_inv: "logged step accepted s log s' \<Longrightarrow> inv s \<Longrightarrow> inv s'"
  by (induction rule: logged.induct) (auto intro: inv_step)

lemma in_order:
  assumes "logged step accepted s log s'" and "inv s"
  shows "subseq (known (box s')) (known (box s) @ log)"
  using assms
proof (induction rule: logged.induct)
  case (stay s)
  then show ?case by simp
next
  case (go s log s1 e s2)
  let ?m = "case accepted e s1 of None \<Rightarrow> [] | Some m \<Rightarrow> [m]"
  from go.hyps(1) go.prems have "inv s1" by (rule logged_inv)
  from known_steps [OF simulation [OF this go.hyps(2)]]
  have "subseq (known (box s2)) (known (box s1) @ ?m)" by (simp add: known_accept)
  moreover have "subseq (known (box s1) @ ?m) ((known (box s) @ log) @ ?m)"
    using go.IH [OF go.prems] by (rule list_emb_append_mono) simp
  ultimately show ?case by (auto intro: subseq_order.trans)
qed

lemma delivered_grows:
  assumes "logged step accepted s log s'" and "inv s"
  shows "prefix (snd (box s)) (snd (box s'))"
  using assms
proof (induction rule: logged.induct)
  case (go s log s1 e s2)
  from go.hyps(1) go.prems have "inv s1" by (rule logged_inv)
  from delivered_steps [OF simulation [OF this go.hyps(2)]] go.IH [OF go.prems] show ?case
    by (auto simp: accept_def intro: prefix_order.trans)
qed simp

end

end
