(* ===== verification/Producer_Delivery.thy ===== *)
theory Producer_Delivery
  imports Producer_Relations Outbox
begin

text \<open>
  The producer as a sender. \<open>out w\<close> is the history of the messages that \<open>amqp_basic_publish\<close> has
  taken over. The buffers of the queue, read through the heap, are the waiting messages of an
  outbox and the history its delivered ones; every action of the producer is a sequence of steps
  of that outbox. So messages reach the broker with the texts they had when they were sent, in
  the order of sending, and none of them twice.
\<close>

section \<open>The abstraction\<close>

text \<open>A message as the broker sees it: channel on the wire, exchange, routing key, body.\<close>

type_synonym letter = "nat \<times> string \<times> string \<times> string"

definition letter :: "heap \<Rightarrow> RawMessage \<Rightarrow> letter" where
  "letter hp m = (wire_channel (rm_channel m), text_at hp (rm_exchange m),
     text_at hp (rm_routing_key m), text_at hp (rm_message m))"

definition outbox :: "('w \<Rightarrow> letter list) \<Rightarrow> Producer \<times> 'w rt \<Rightarrow> letter outbox" where
  "outbox out = (\<lambda>(p, s). (map (letter (rt_heap s)) (m_sendQueue p), out (rt_world s)))"

text \<open>
  The history grows by the published message when \<open>amqp_basic_publish\<close> reports success, and by
  nothing else that the producer calls.
\<close>

definition records_publishes :: "('w \<Rightarrow> letter list) \<Rightarrow> 'w platform \<Rightarrow> bool" where
  "records_publishes out P \<longleftrightarrow>
     (\<forall>c ch ex rk ma im props fs body w r w'.
        amqp_basic_publish (api P) c ch ex rk ma im props fs body w = (r, w') \<longrightarrow>
        out w' = (if r < 0 then out w else out w @ [(ch, ex, rk, body)])) \<and>
     (\<forall>w. out (snd (amqp_new_connection (api P) w)) = out w) \<and>
     (\<forall>c w. out (snd (amqp_tcp_socket_new (api P) c w)) = out w) \<and>
     (\<forall>k host port t w. out (snd (amqp_socket_open_noblock (api P) k host port t w)) = out w) \<and>
     (\<forall>c vh cm fm hb sasl u p w. out (snd (amqp_login (api P) c vh cm fm hb sasl u p w)) = out w) \<and>
     (\<forall>c code w. out (snd (amqp_connection_close (api P) c code w)) = out w) \<and>
     (\<forall>c w. out (amqp_destroy_connection (api P) c w) = out w) \<and>
     (\<forall>c ch ex ty p d a i tb w. out (amqp_exchange_declare (api P) c ch ex ty p d a i tb w) = out w) \<and>
     (\<forall>c w. out (snd (amqp_get_rpc_reply (api P) c w)) = out w) \<and>
     (\<forall>c ch w. out (amqp_channel_open (api P) c ch w) = out w) \<and>
     (\<forall>c ch m w. out (snd (amqp_send_method (api P) c ch m w)) = out w)"

lemma recordsD:
  assumes "records_publishes out P"
  shows "out (snd (amqp_new_connection (api P) w)) = out w"
    and "out (snd (amqp_tcp_socket_new (api P) c w)) = out w"
    and "out (snd (amqp_socket_open_noblock (api P) k host port t w)) = out w"
    and "out (snd (amqp_login (api P) c vh cm fm hb sasl u p w)) = out w"
    and "out (snd (amqp_connection_close (api P) c code w)) = out w"
    and "out (amqp_destroy_connection (api P) c w) = out w"
    and "out (amqp_exchange_declare (api P) c ch ex ty n d a i tb w) = out w"
    and "out (snd (amqp_get_rpc_reply (api P) c w)) = out w"
    and "out (amqp_channel_open (api P) c ch w) = out w"
    and "out (snd (amqp_send_method (api P) c ch m w)) = out w"
  using assms by (simp_all add: records_publishes_def)

lemma records_publish:
  assumes "records_publishes out P"
  shows "out (snd (amqp_basic_publish (api P) c ch ex rk ma im props fs body w)) =
     (if fst (amqp_basic_publish (api P) c ch ex rk ma im props fs body w) < 0 then out w
      else out w @ [(ch, ex, rk, body)])"
  using assms unfolding records_publishes_def by (metis prod.collapse)

text \<open>So the other calls leave the history as it is.\<close>

abbreviation same_out :: "('w \<Rightarrow> letter list) \<Rightarrow> 'w rt \<Rightarrow> 'w rt \<Rightarrow> bool" where
  "same_out out s s' \<equiv> out (rt_world s') = out (rt_world s)"

interpretation out_calls: producer_calls P "\<lambda>w w'. records_publishes out P \<longrightarrow> out w' = out w"
  for out :: "'w \<Rightarrow> letter list" and P :: "'w platform"
  by unfold_locales (auto simp: recordsD)

lemma same_outI:
  assumes "records_publishes out P"
  shows "Connect P c s = Inr (r, c', s') \<Longrightarrow> same_out out s s'"
    and "CloseConnection P c s = Inr (r, c', s') \<Longrightarrow> same_out out s s'"
    and "closeConnection P p s = Inr (p', s') \<Longrightarrow> same_out out s s'"
    and "connect_loop P es b p s = Inr (b', p', s') \<Longrightarrow> same_out out s s'"
  using assms out_calls.W_Connect [of P c s r c' s' out] out_calls.W_CloseConnection [of P c s r c' s' out]
    out_calls.W_closeConnection [of P p s p' s' out] out_calls.W_connect_loop [of P es b p s b' p' s' out]
  by blast+

section \<open>Simulation\<close>

lemma text_at_frame:
  "\<forall>a \<in> set (ptr_addrs (ab_bytes b)). h_blocks hp' a = h_blocks hp a \<Longrightarrow> text_at hp' b = text_at hp b"
  using deref_bytes_frame [of b hp' hp] by (simp add: text_at_def)

lemma letter_frame:
  "\<forall>a \<in> set (owned m). h_blocks hp' a = h_blocks hp a \<Longrightarrow> letter hp' m = letter hp m"
  by (simp add: letter_def owned_def text_at_frame)

lemma letters_frame:
  "\<forall>a \<in> set (queue_addrs q). h_blocks hp' a = h_blocks hp a \<Longrightarrow>
     map (letter hp') q = map (letter hp) q"
  by (auto simp: queue_addrs_def intro!: letter_frame)

lemma letter_stamp [simp]: "letter hp (stamp P m s) = letter hp m"
  by (simp add: letter_def)

lemma outbox_cong:
  "m_sendQueue p' = m_sendQueue p \<Longrightarrow> rt_heap s' = rt_heap s \<Longrightarrow> same_out out s s' \<Longrightarrow>
     outbox_steps (outbox out (p, s)) (outbox out (p', s'))"
  by (simp add: outbox_def)

lemma outbox_dropped:
  "m_sendQueue p' = [] \<Longrightarrow> same_out out s s' \<Longrightarrow>
     outbox_steps (outbox out (p, s)) (outbox out (p', s'))"
  by (auto simp: outbox_def intro: r_into_rtranclp outbox_step.discard)

lemma publish_records:
  assumes rec: "records_publishes out P" and con: "IsConnected c"
    and run: "PublishMessage P m c s = Inr (r, m', s')"
  shows "out (rt_world s') =
     (if r = ALL_GOOD then out (rt_world s) @ [letter (rt_heap s) m] else out (rt_world s))"
  using run con
  by (auto simp: PublishMessage_def bindr_eq_Inr_iff Let_def split_beta from_world_def letter_def
      text_at_def records_publish [OF rec] split: if_splits)

lemma publish_connectedE:
  assumes inv: "core_inv P p s" and con: "isConnected p" and q: "m_sendQueue p = m # q"
  obtains c r s1 where "IsConnected c" "PublishMessage P m c s = Inr (r, stamp P m s, s1)" "rt_heap s1 = rt_heap s"
    "publishNextInQueue P p s =
      (if serverFailure r then closeConnection P (p\<lparr>m_sendQueue := stamp P m s # q\<rparr>) s1
       else if r = ALL_GOOD
       then Inr (p\<lparr>m_sendQueue := q\<rparr>, s1\<lparr>rt_heap := drop_blocks (owned m) (rt_heap s)\<rparr>)
       else Inr (p\<lparr>m_sendQueue := stamp P m s # q\<rparr>, s1))"
proof -
  note plat = core_inv_platform [OF inv]
  from plat(4) q have ok: "queue_ok (flags P) (rt_heap s) (m # q)" by simp
  from inv con obtain c where c: "the_connection p = Inr c" "conn_inv P c" "IsConnected c"
      "m_isInitialized p"
    by (rule isConnectedE)
  from PublishMessage_ok [OF plat(2) c(2) queue_ok_head(3) [OF ok]] c(3) obtain r s1 where
      pub: "PublishMessage P m c s = Inr (r, stamp P m s, s1)" "rt_heap s1 = rt_heap s"
    by (auto simp: okr_def)
  have "hare_free_message_risky (bapi P) (stamp P m s) (rt_heap s1) = Inr (drop_blocks (owned m) (rt_heap s))"
    using hare_free_message_risky_ok [OF plat(1), of "stamp P m s" "rt_heap s"] queue_ok_head [OF ok]
      pub(2) by simp
  with con q c(1) pub(1) show thesis
    by (intro that [OF c(3) pub]) (simp add: publishNextInQueue_def Let_def)
qed

lemma publish_simulated:
  assumes rec: "records_publishes out P" and inv: "core_inv P p s"
    and run: "publishNextInQueue P p s = Inr (p', s')"
  shows "outbox_steps (outbox out (p, s)) (outbox out (p', s'))"
proof (cases "isConnected p \<and> m_sendQueue p \<noteq> []")
  case False
  with run have "p' = p \<and> s' = s" by (auto simp: publishNextInQueue_def split: if_splits)
  then show ?thesis by simp
next
  case True
  then obtain m q where q: "m_sendQueue p = m # q" and con: "isConnected p"
    by (cases "m_sendQueue p") auto
  let ?p = "p\<lparr>m_sendQueue := stamp P m s # q\<rparr>"
  from inv con q obtain c r s1 where c: "IsConnected c"
      and pub: "PublishMessage P m c s = Inr (r, stamp P m s, s1)" "rt_heap s1 = rt_heap s"
      and step: "publishNextInQueue P p s = (if serverFailure r then closeConnection P ?p s1
        else if r = ALL_GOOD
        then Inr (p\<lparr>m_sendQueue := q\<rparr>, s1\<lparr>rt_heap := drop_blocks (owned m) (rt_heap s)\<rparr>)
        else Inr (?p, s1))"
    by (rule publish_connectedE)
  note hist = publish_records [OF rec c pub(1)]
  consider (sent) "r = ALL_GOOD" | (lost) "r \<noteq> ALL_GOOD" "serverFailure r"
    | (kept) "r \<noteq> ALL_GOOD" "\<not> serverFailure r" by blast
  then show ?thesis
  proof cases
    case sent
    have "queue_ok (flags P) (rt_heap s) (m # q)" using core_inv_platform(4) [OF inv] q by simp
    then have "map (letter (drop_blocks (owned m) (rt_heap s))) q = map (letter (rt_heap s)) q"
      by (intro letters_frame) (auto simp: queue_ok_def)
    with run step hist sent q show ?thesis
      by (auto simp: outbox_def outbox_step.deliver r_into_rtranclp simp del: map_eq_conv)
  next
    case lost
    with run step have cl: "closeConnection P ?p s1 = Inr (p', s')" by simp
    then have "m_sendQueue p' = []"
      by (auto simp: closeConnection_def clearActiveSendQueue_def bindr_eq_Inr_iff)
    with same_outI(3) [OF rec cl] hist lost show ?thesis by (simp add: outbox_dropped)
  next
    case kept
    with run step have "p' = ?p" "s' = s1" by simp_all
    with hist pub(2) q kept show ?thesis by (simp add: outbox_def)
  qed
qed

lemma connectChannels_simulated:
  assumes rec: "records_publishes out P" and inv: "core_inv P p s"
    and run: "connectChannels P p s = Inr (p', s')"
  shows "outbox_steps (outbox out (p, s)) (outbox out (p', s'))"
proof (cases "isConnected p \<and> Producer_IsRunning p")
  case False
  with run have "p' = p \<and> s' = s" by (auto simp: connectChannels_def)
  then show ?thesis by simp
next
  case True
  with run obtain r p1 where loop: "connect_loop P (exchange_entries P p s) True p s = Inr (r, p1, s')"
      and p': "m_sendQueue p' = m_sendQueue p1"
    by (auto simp: connectChannels_def bindr_eq_Inr_iff split: if_splits)
  note hist = same_outI(4) [OF rec loop]
  from inv True have "m_isInitialized p" by (auto elim: isConnectedE)
  from connect_loop_ok [OF inv this, of "exchange_entries P p s" True] loop
  have "loop_outcome P p s (r, p1, s')" by (simp add: okr_def)
  with hist p' show ?thesis
    by (auto simp: loop_outcome_def closed_from_def intro: outbox_cong outbox_dropped)
qed

interpretation prod_sim: producer_relation P
    "\<lambda>x y. records_publishes out P \<longrightarrow> outbox_steps (outbox out x) (outbox out y)"
  for out :: "'w \<Rightarrow> letter list" and P :: "'w platform"
proof
  fix p p' :: Producer and s s' :: "'w rt" and x y z :: "Producer \<times> 'w rt" and c c' r
  show "m_sendQueue p' = m_sendQueue p \<Longrightarrow>
      records_publishes out P \<longrightarrow> outbox_steps (outbox out (p, s)) (outbox out (p', s))"
    by (simp add: outbox_cong)
  show "records_publishes out P \<longrightarrow> outbox_steps (outbox out x) (outbox out y) \<Longrightarrow>
      records_publishes out P \<longrightarrow> outbox_steps (outbox out y) (outbox out z) \<Longrightarrow>
      records_publishes out P \<longrightarrow> outbox_steps (outbox out x) (outbox out z)"
    by (auto intro: rtranclp_trans)
  assume c: "conn_inv P c"
  show "Connect P c s = Inr (r, c', s') \<Longrightarrow>
      records_publishes out P \<longrightarrow> outbox_steps (outbox out (p, s)) (outbox out (p, s'))"
    using Connect_ok [OF c, of s] by (auto simp: okr_def intro!: outbox_cong dest: same_outI(1))
  show "CloseConnection P c s = Inr (r, c', s') \<Longrightarrow>
      records_publishes out P \<longrightarrow> outbox_steps (outbox out (p, s)) (outbox out (p, s'))"
    using CloseConnection_ok [OF c, of s] by (auto simp: okr_def intro!: outbox_cong dest: same_outI(2))
next
  fix p p' :: Producer and s s' :: "'w rt"
  assume inv: "core_inv P p s"
  show "clearActiveSendQueue P p s = Inr (p', s') \<Longrightarrow>
      records_publishes out P \<longrightarrow> outbox_steps (outbox out (p, s)) (outbox out (p', s'))"
    by (auto simp: clearActiveSendQueue_def bindr_eq_Inr_iff intro!: outbox_dropped)
  show "connectChannels P p s = Inr (p', s') \<Longrightarrow>
      records_publishes out P \<longrightarrow> outbox_steps (outbox out (p, s)) (outbox out (p', s'))"
    using connectChannels_simulated [OF _ inv] by blast
  show "publishNextInQueue P p s = Inr (p', s') \<Longrightarrow>
      records_publishes out P \<longrightarrow> outbox_steps (outbox out (p, s)) (outbox out (p', s'))"
    using publish_simulated [OF _ inv] by blast
qed

section \<open>The producer is a sender\<close>

text \<open>The message that a call of \<open>Send\<close> asks for, and which actions accept a message.\<close>

definition send_letter :: "string \<Rightarrow> string \<Rightarrow> Message \<Rightarrow> Producer \<Rightarrow> 'w rt \<Rightarrow> letter" where
  "send_letter exchange routingKey message p s =
     (wire_channel (fst (addExchange exchange p)), upto_NUL exchange, upto_NUL routingKey,
      case Bytes message of None \<Rightarrow> [] | Some b \<Rightarrow> text_at (rt_heap s) b)"

definition producer_accepts :: "'w action \<Rightarrow> Producer \<times> 'w rt \<Rightarrow> letter option" where
  "producer_accepts a = (\<lambda>(p, s). case a of A_Send ex rk message \<Rightarrow> Some (send_letter ex rk message p s)
     | _ \<Rightarrow> None)"

text \<open>A permitted action, with an environment that publishes nothing on this connection.\<close>

definition producer_moves ::
    "('w \<Rightarrow> letter list) \<Rightarrow> 'w platform \<Rightarrow> 'w action \<Rightarrow> Producer \<times> 'w rt \<Rightarrow> Producer \<times> 'w rt \<Rightarrow> bool" where
  "producer_moves out P a = (\<lambda>(p, s) (p', s'). permitted P a p s \<and>
     (\<forall>t. a = A_Environment t \<longrightarrow> same_out out s t) \<and> producer_action P a p s = Inr (p', s'))"

definition sender_inv :: "('w \<Rightarrow> letter list) \<Rightarrow> 'w platform \<Rightarrow> Producer \<times> 'w rt \<Rightarrow> bool" where
  "sender_inv out P = (\<lambda>(p, s). producer_inv P p s \<and> connections_available P \<and> records_publishes out P)"

lemma Send_simulated:
  assumes inv: "core_inv P p s" and perm: "permitted P (A_Send ex rk message) p s"
    and run: "Send P ex rk message p (rt_heap s) = Inr (r, p', hp')"
  shows "outbox out (p', s\<lparr>rt_heap := hp'\<rparr>) = accept (Some (send_letter ex rk message p s)) (outbox out (p, s))"
proof -
  from perm obtain body where room: "m_curChannelNumber p < INT_MAX"
      and msg: "sendable (flags P) (rt_heap s) message body"
    by auto
  from Send_ok [OF inv room msg, of ex rk] run perm obtain m where
      q: "m_sendQueue p' = m_sendQueue p @ [m]" and le: "heap_le (rt_heap s) hp'"
      and sent: "sent_message ex rk message body (fst (addExchange ex p)) hp' m"
    by (auto simp: okr_def)
  have "map (letter hp') (m_sendQueue p) = map (letter (rt_heap s)) (m_sendQueue p)"
    using core_inv_platform(4) [OF inv] le
    by (intro letters_frame) (auto simp: queue_ok_def heap_le_def dest!: subsetD)
  moreover have "letter hp' m = send_letter ex rk message p s"
    using sent msg
    by (auto simp: sent_message_def letter_def send_letter_def text_at_def sendable_def)
  ultimately show ?thesis using q by (simp add: outbox_def accept_def del: map_eq_conv)
qed

lemma action_simulated:
  assumes rec: "records_publishes out P" and inv: "producer_inv P p s"
    and perm: "permitted P a p s" and env: "\<forall>t. a = A_Environment t \<longrightarrow> same_out out s t"
    and act: "producer_action P a p s = Inr (p', s')"
  shows "outbox_steps (accept (producer_accepts a (p, s)) (outbox out (p, s))) (outbox out (p', s'))"
proof -
  from inv have core: "core_inv P p s" by (simp add: producer_inv_def)
  have rest: "outbox_steps (outbox out (p, s)) (outbox out (p', s'))"
    if "\<And>ex rk m. a \<noteq> A_Send ex rk m" "\<And>t. a \<noteq> A_Environment t"
    using prod_sim.rel_action [OF core perm act that] rec by blast
  show ?thesis
  proof (cases a)
    case (A_Send ex rk message)
    with act perm Send_simulated [OF core, of ex rk message] show ?thesis
      by (auto simp: producer_accepts_def bindr_eq_Inr_iff)
  next
    case (A_Environment t)
    with act perm env letters_frame [of "m_sendQueue p" "rt_heap t" "rt_heap s"] show ?thesis
      by (simp add: producer_accepts_def outbox_def del: map_eq_conv)
  qed (use rest in \<open>simp_all add: producer_accepts_def\<close>)
qed

interpretation prod_out: outbox_sender "outbox out" "sender_inv out P" "producer_moves out P"
    producer_accepts
  for out :: "'w \<Rightarrow> letter list" and P :: "'w platform"
proof
  fix x y :: "Producer \<times> 'w rt" and a :: "'w action"
  assume i: "sender_inv out P x" and m: "producer_moves out P a x y"
  obtain p s where x: "x = (p, s)" by fastforce
  obtain p' s' where y: "y = (p', s')" by fastforce
  from i m x y producer_action_ok [of P p s a] show "sender_inv out P y"
    by (auto simp: sender_inv_def producer_moves_def okr_def)
  from i m x y action_simulated [of out P p s a p' s']
  show "outbox_steps (accept (producer_accepts a x) (outbox out x)) (outbox out y)"
    by (auto simp: sender_inv_def producer_moves_def)
qed

text \<open>
  C9. Every permitted action of the producer, in every reachable state, is a sequence of steps of
  an outbox: \<open>Send\<close> appends one message with the texts given by the caller, and whatever else
  happens (worker-thread steps, failures, reconnects, Stop, Restart, Initialize) only takes
  messages from the front of the queue to the broker or drops the queue.
\<close>

theorem producer_refines_outbox:
  assumes "producer_reachable P p s" and "records_publishes out P" and "permitted P a p s"
    and "\<forall>t. a = A_Environment t \<longrightarrow> out (rt_world t) = out (rt_world s)"
  shows "okr (producer_action P a p s) (\<lambda>(p', s').
     outbox_steps (accept (producer_accepts a (p, s)) (outbox out (p, s))) (outbox out (p', s')))"
proof -
  from reachable_inv [OF assms(1)] have "producer_inv P p s" "connections_available P" by simp_all
  from producer_action_ok [OF this assms(3)] obtain p' s' where
      "producer_action P a p s = Inr (p', s')"
    by (auto simp: okr_def)
  with action_simulated [OF assms(2) \<open>producer_inv P p s\<close> assms(3,4)] show ?thesis by simp
qed

lemma ref_records: "records_publishes rw_published ref_platform"
  by (auto simp: records_publishes_def ref_api_def next_status_def next_reply_def Let_def
      split: list.splits if_splits)

theorem producer_refines_outbox_witness:
  "okr (producer_action ref_platform (A_Send ''amq.direct'' ''test'' plain_message) Producer_init sample_rt)
     (\<lambda>(p', s'). outbox_steps
       (accept (producer_accepts (A_Send ''amq.direct'' ''test'' plain_message) (Producer_init, sample_rt))
         (outbox rw_published (Producer_init, sample_rt))) (outbox rw_published (p', s')))"
  by (rule producer_refines_outbox [OF sample_heap_reachable ref_records sample_sendable]) simp

text \<open>
  Along every run of a producer the messages that the broker has taken over, followed by
  those still queued, are the ones that were sent, in the order of sending: some may be missing,
  none is changed, duplicated, invented or overtaken by a later one.
\<close>

theorem messages_in_order:
  assumes "platform_ok P" and "connections_available P" and "heap_wf (rt_heap s)"
    and "records_publishes out P"
    and "logged (producer_moves out P) producer_accepts (Producer_init, s) log (p', s')"
  shows "subseq (out (rt_world s') @ map (letter (rt_heap s')) (m_sendQueue p')) (out (rt_world s) @ log) \<and>
     prefix (out (rt_world s)) (out (rt_world s'))"
proof -
  have inv: "sender_inv out P (Producer_init, s)"
    using assms(1-4) by (simp add: sender_inv_def producer_inv_init)
  have "m_sendQueue Producer_init = []" by (simp add: Producer_init_def)
  with prod_out.in_order [OF assms(5) inv] prod_out.delivered_grows [OF assms(5) inv] show ?thesis
    by (simp add: known_def outbox_def)
qed

theorem messages_in_order_witness:
  "\<exists>p' s'. logged (producer_moves rw_published ref_platform) producer_accepts (Producer_init, sample_rt)
       [(1, ''amq.direct'', ''test'', ''hi'')] (p', s') \<and>
     subseq (rw_published (rt_world s') @ map (letter (rt_heap s')) (m_sendQueue p'))
       (rw_published (rt_world sample_rt) @ [(1, ''amq.direct'', ''test'', ''hi'')]) \<and>
     prefix (rw_published (rt_world sample_rt)) (rw_published (rt_world s'))"
proof -
  let ?a = "A_Send ''amq.direct'' ''test'' plain_message"
  from sample_send obtain r p' hp' where
      "Send ref_platform ''amq.direct'' ''test'' plain_message Producer_init (rt_heap sample_rt) = Inr (r, p', hp')"
    by (auto simp: okr_def sample_rt_def)
  then have "producer_moves rw_published ref_platform ?a (Producer_init, sample_rt)
      (p', sample_rt\<lparr>rt_heap := hp'\<rparr>)"
    using sample_sendable by (simp add: producer_moves_def)
  from logged.go [where accepted = producer_accepts and step = "producer_moves rw_published ref_platform",
      OF logged.stay this]
  have run: "logged (producer_moves rw_published ref_platform) producer_accepts (Producer_init, sample_rt)
      [(1, ''amq.direct'', ''test'', ''hi'')] (p', sample_rt\<lparr>rt_heap := hp'\<rparr>)"
    by (simp add: producer_accepts_def send_letter_def addExchange_def Producer_init_def upto_NUL_def
        NUL_def plain_message_def sample_message_def Bytes_def text_at_def sample_rt_def sample_heap_def
        deref_bytes_def load_bytes_def c_str_def ExchangeProperties_init_def wire_channel_def Let_def)
  have "heap_wf (rt_heap sample_rt)" by (simp add: sample_rt_def sample_heap_wf)
  from messages_in_order [OF ref_platform_ok ref_connections_available this ref_records run] run
  show ?thesis by blast
qed

end
