(* ===== verification/Producer_Interleaving.thy ===== *)
theory Producer_Interleaving
  imports Producer_Delivery Loopback_Broker
begin

text \<open>
  The producer's longer operations taken apart at their locks. \<open>Send\<close> holds the mutex twice, once
  in \<open>addExchange\<close> and once for building and queueing the message; \<open>publishNextInQueue\<close> looks at the
  queue and publishes its front without the mutex, and takes it only to free and remove what was
  sent. Between these steps any number of other calls may act. The messages still reach the broker
  in the order in which they were queued: senders only append, and only the worker thread takes
  from the front.
\<close>

section \<open>The steps\<close>

text \<open>
  The second half of \<open>Send\<close>. The subscript operator of the table would insert a missing exchange
  with its default properties; after \<open>addExchange\<close> there is none missing.
\<close>

definition send_enqueue ::
    "'w platform \<Rightarrow> string \<Rightarrow> string \<Rightarrow> Message \<Rightarrow> Producer \<Rightarrow> heap \<Rightarrow>
     (HARE_ERROR_E \<times> Producer \<times> heap) res" where
  "send_enqueue P exchange routingKey message p hp =
     bindr (hare_cstring_bytes (c_str exchange) hp) (\<lambda>(ex, hp1).
     bindr (hare_cstring_bytes (c_str routingKey) hp1) (\<lambda>(rk, hp2).
     bindr (case Bytes message of
              None \<Rightarrow> Inl UninitRead
            | Some b \<Rightarrow> amqp_bytes_malloc_dup (bapi P) b hp2) (\<lambda>(body, hp3).
     let missing = ExchangeProperties_init (- 1) False ''direct'';
         (e, p1) = (case map_of (m_exchangeList p) exchange of
            None \<Rightarrow> (missing, p\<lparr>m_exchangeList := AList.update exchange missing (m_exchangeList p)\<rparr>)
          | Some e \<Rightarrow> (e, p));
         builtMessage =
           \<lparr>rm_exchange = ex, rm_channel = m_channel e, rm_routing_key = rk,
            rm_properties = AmqpProperties message, rm_message = body\<rparr> in
     Inr (ALL_GOOD, p1\<lparr>m_sendQueue := m_sendQueue p1 @ [builtMessage]\<rparr>, hp3))))"

text \<open>Publishing the front, and what follows from the return code; \<open>None\<close> when there is nothing to do.\<close>

definition publish_front ::
    "'w platform \<Rightarrow> Producer \<Rightarrow> 'w rt \<Rightarrow> (HARE_ERROR_E option \<times> Producer \<times> 'w rt) res" where
  "publish_front P p s =
     (if \<not> isConnected p then Inr (None, p, s)
      else case m_sendQueue p of
        [] \<Rightarrow> Inr (None, p, s)
      | m # q \<Rightarrow>
          bindr (the_connection p) (\<lambda>c.
          bindr (PublishMessage P m c s) (\<lambda>(retCode, m', s1).
          Inr (Some retCode, p\<lparr>m_sendQueue := m' # q\<rparr>, s1))))"

definition publish_settle ::
    "'w platform \<Rightarrow> HARE_ERROR_E \<Rightarrow> Producer \<Rightarrow> 'w rt \<Rightarrow> (Producer \<times> 'w rt) res" where
  "publish_settle P retCode p s =
     (if serverFailure retCode then closeConnection P p s
      else if noError retCode
      then case m_sendQueue p of
             [] \<Rightarrow> Inl EmptyContainer
           | m # q \<Rightarrow>
               bindr (hare_free_message_risky (bapi P) m (rt_heap s)) (\<lambda>hp.
               Inr (p\<lparr>m_sendQueue := q\<rparr>, s\<lparr>rt_heap := hp\<rparr>))
      else Inr (p, s))"

lemma Send_phases:
  "Send P ex rk message p hp =
     (let (channel, p1) = addExchange ex p in
      if channel < 0 then Inr (INVALID_PARAMETERS, p1, hp) else send_enqueue P ex rk message p1 hp)"
proof -
  obtain channel p1 where add: "addExchange ex p = (channel, p1)" by fastforce
  then obtain e where "map_of (m_exchangeList p1) ex = Some e"
    by (auto simp: addExchange_def map_of_update split: option.splits)
  with add show ?thesis by (simp add: Send_def send_enqueue_def)
qed

lemma publish_phases:
  "publishNextInQueue P p s =
     bindr (publish_front P p s) (\<lambda>(r, p1, s1).
       case r of None \<Rightarrow> Inr (p1, s1) | Some retCode \<Rightarrow> publish_settle P retCode p1 s1)"
  by (cases "the_connection p")
     (auto simp: publishNextInQueue_def publish_front_def publish_settle_def Let_def bindr_assoc split_beta
       split: list.split intro!: bindr_cong)

section \<open>What the steps do\<close>

text \<open>Queueing a message for an exchange that is registered is the whole of \<open>Send\<close>.\<close>

lemma enqueue_is_Send:
  assumes inv: "exchange_inv p" and known: "map_of (m_exchangeList p) ex = Some e"
  shows "send_enqueue P ex rk message p hp = Send P ex rk message p hp"
proof -
  have "addExchange ex p = (m_channel e, p)" using known by (simp add: addExchange_def)
  with addExchange_result(2) [OF inv, of ex] show ?thesis by (simp add: Send_phases)
qed

lemma addExchange_ok:
  assumes "core_inv P p s" and "m_curChannelNumber p < INT_MAX"
  shows "core_inv P (snd (addExchange ex p)) s"
    and "map_of (m_exchangeList (snd (addExchange ex p))) ex \<noteq> None"
    and "0 \<le> fst (addExchange ex p)"
proof -
  from assms(1) have ei: "exchange_inv p" by (simp add: core_inv_def)
  have "exchange_inv (snd (addExchange ex p))" using exchange_add_inv [OF ei assms(2), of "Use ex"] by simp
  with assms(1) show "core_inv P (snd (addExchange ex p)) s" by (simp add: core_inv_def addExchange_shell)
  from addExchange_result [OF ei, of ex]
  show "map_of (m_exchangeList (snd (addExchange ex p))) ex \<noteq> None" "0 \<le> fst (addExchange ex p)"
    by (auto simp: exchange_channel_def)
qed

lemma publish_front_ok:
  assumes inv: "core_inv P p s"
  shows "okr (publish_front P p s) (\<lambda>(r, p', s'). case r of
     None \<Rightarrow> p' = p \<and> s' = s
   | Some ret \<Rightarrow> core_inv P p' s' \<and> m_isInitialized p \<and> rt_heap s' = rt_heap s \<and> (\<exists>m q. m_sendQueue p = m # q \<and>
       p' = p\<lparr>m_sendQueue := stamp P m s # q\<rparr> \<and>
       (records_publishes out P \<longrightarrow> out (rt_world s') =
          (if ret = ALL_GOOD then out (rt_world s) @ [letter (rt_heap s) m] else out (rt_world s)))))"
proof (cases "isConnected p \<and> m_sendQueue p \<noteq> []")
  case False
  then show ?thesis by (auto simp: publish_front_def)
next
  case True
  then obtain m q where q: "m_sendQueue p = m # q" and con: "isConnected p"
    by (cases "m_sendQueue p") auto
  note plat = core_inv_platform [OF inv]
  from plat(4) q have ok: "queue_ok (flags P) (rt_heap s) (m # q)" by simp
  from inv con obtain c where c: "the_connection p = Inr c" "conn_inv P c" "IsConnected c" "m_isInitialized p"
    by (rule isConnectedE)
  from PublishMessage_ok [OF plat(2) c(2) queue_ok_head(3) [OF ok]] c(3) obtain r s1 where
      pub: "PublishMessage P m c s = Inr (r, stamp P m s, s1)" "rt_heap s1 = rt_heap s"
    by (auto simp: okr_def)
  have "core_inv P (p\<lparr>m_sendQueue := stamp P m s # q\<rparr>) s1"
    by (rule core_inv_frame [OF inv])
       (use inv pub(2) ok queue_ok_stamp [OF plat(2) ok] in \<open>auto simp: core_inv_def same_shell_def\<close>)
  with con q c pub publish_records [OF _ c(3) pub(1), of out] show ?thesis
    by (auto simp: publish_front_def)
qed

text \<open>The three ways a publication ends.\<close>

lemma publish_settle_ok:
  assumes inv: "core_inv P p s" and init: "m_isInitialized p" and q: "m_sendQueue p = m # q"
  shows "okr (publish_settle P ret p s) (\<lambda>(p', s'). core_inv P p' s' \<and> same_shell p p' \<and>
     (if ret = ALL_GOOD then p' = p\<lparr>m_sendQueue := q\<rparr> \<and> s' = s\<lparr>rt_heap := drop_blocks (owned m) (rt_heap s)\<rparr>
      else if serverFailure ret
      then m_sendQueue p' = [] \<and> (records_publishes out P \<longrightarrow> same_out out s s')
      else p' = p \<and> s' = s))"
proof -
  note plat = core_inv_platform [OF inv]
  from plat(4) q have ok: "queue_ok (flags P) (rt_heap s) (m # q)" by simp
  have freed: "hare_free_message_risky (bapi P) m (rt_heap s) = Inr (drop_blocks (owned m) (rt_heap s))"
    by (rule hare_free_message_risky_ok [OF plat(1)]) (use queue_ok_head [OF ok] in auto)
  have popped: "core_inv P (p\<lparr>m_sendQueue := q\<rparr>) (s\<lparr>rt_heap := drop_blocks (owned m) (rt_heap s)\<rparr>)"
    by (rule core_inv_frame [OF inv])
       (use inv ok in \<open>auto simp: core_inv_def same_shell_def queue_ok_tail drop_blocks_wf\<close>)
  from closeConnection_ok [OF inv init] obtain p1 s1 where
      cl: "closeConnection P p s = Inr (p1, s1)" "closed_from P p s p1 s1"
    by (auto simp: okr_def)
  from inv cl q freed popped same_outI(3) [OF _ cl(1), of out] show ?thesis
    by (auto simp: publish_settle_def closed_from_def same_shell_def)
qed

section \<open>The system of steps\<close>

text \<open>
  The state: the producer, the calls of \<open>Send\<close> that have registered their exchange and not yet
  queued their message, the return code of a publication that is not settled, and the rest.
\<close>

type_synonym send_call = "string \<times> string \<times> Message"

type_synonym 'w fine_state = "Producer \<times> send_call list \<times> HARE_ERROR_E option \<times> 'w rt"

datatype 'w fine_action =
    Whole "'w action"
  | BeginSend string string Message
  | EndSend nat
  | BeginPublish
  | EndPublish

definition end_send ::
    "'w platform \<Rightarrow> nat \<Rightarrow> Producer \<Rightarrow> send_call list \<Rightarrow> 'w rt \<Rightarrow> (Producer \<times> send_call list \<times> 'w rt) res" where
  "end_send P i p sends s =
     (if length sends \<le> i then Inr (p, sends, s)
      else case sends ! i of (ex, rk, message) \<Rightarrow>
        bindr (send_enqueue P ex rk message p (rt_heap s)) (\<lambda>(r, p', hp).
        Inr (p', remove_nth i sends, s\<lparr>rt_heap := hp\<rparr>)))"

fun fine_act :: "'w platform \<Rightarrow> 'w fine_action \<Rightarrow> 'w fine_state \<Rightarrow> 'w fine_state res" where
  "fine_act P (Whole a) (p, sends, pub, s) =
     bindr (producer_action P a p s) (\<lambda>(p', s'). Inr (p', sends, pub, s'))"
| "fine_act P (BeginSend ex rk message) (p, sends, pub, s) =
     (case addExchange ex p of (channel, p') \<Rightarrow>
      Inr (p', if channel < 0 then sends else sends @ [(ex, rk, message)], pub, s))"
| "fine_act P (EndSend i) (p, sends, pub, s) =
     bindr (end_send P i p sends s) (\<lambda>(p', sends', s'). Inr (p', sends', pub, s'))"
| "fine_act P BeginPublish (p, sends, pub, s) =
     bindr (publish_front P p s) (\<lambda>(r, p', s').
     Inr (if r = None then at_pc P_Loop p' else p', sends, r, s'))"
| "fine_act P EndPublish (p, sends, pub, s) =
     (case pub of
        None \<Rightarrow> Inr (p, sends, None, s)
      | Some retCode \<Rightarrow>
          bindr (publish_settle P retCode p s) (\<lambda>(p', s'). Inr (at_pc P_Loop p', sends, None, s')))"

text \<open>
  What may happen in the middle of a publication: other calls of the running producer. \<open>Stop\<close> has
  to wait for the worker thread and is taken after the publication.
\<close>

primrec during_publish :: "'w action \<Rightarrow> bool" where
  "during_publish (A_Initialize server port user pw) \<longleftrightarrow> False"
| "during_publish (A_DeclareExchange ex ty) \<longleftrightarrow> True"
| "during_publish (A_Send ex rk message) \<longleftrightarrow> True"
| "during_publish A_Start \<longleftrightarrow> False"
| "during_publish A_Stop \<longleftrightarrow> False"
| "during_publish A_Restart \<longleftrightarrow> False"
| "during_publish A_Thread \<longleftrightarrow> False"
| "during_publish (A_Environment s') \<longleftrightarrow> True"

fun fine_permitted :: "'w platform \<Rightarrow> 'w fine_action \<Rightarrow> 'w fine_state \<Rightarrow> bool" where
  "fine_permitted P (Whole a) (p, sends, pub, s) \<longleftrightarrow>
     permitted P a p s \<and> (pub = None \<or> during_publish a)"
| "fine_permitted P (BeginSend ex rk message) (p, sends, pub, s) \<longleftrightarrow> m_curChannelNumber p < INT_MAX"
| "fine_permitted P (EndSend i) (p, sends, pub, s) \<longleftrightarrow>
     i < length sends \<longrightarrow> (case sends ! i of (ex, rk, message) \<Rightarrow> permitted P (A_Send ex rk message) p s)"
| "fine_permitted P BeginPublish (p, sends, pub, s) \<longleftrightarrow>
     pub = None \<and> m_producerThread p = Some P_Publish"
| "fine_permitted P EndPublish (p, sends, pub, s) \<longleftrightarrow> True"

inductive fine_reachable :: "'w platform \<Rightarrow> 'w fine_state \<Rightarrow> bool" for P where
  start: "platform_ok P \<Longrightarrow> connections_available P \<Longrightarrow> heap_wf (rt_heap s) \<Longrightarrow>
    fine_reachable P (Producer_init, [], None, s)"
| step: "fine_reachable P x \<Longrightarrow> fine_permitted P a x \<Longrightarrow> fine_act P a x = Inr x' \<Longrightarrow> fine_reachable P x'"

section \<open>The invariant\<close>

definition registered :: "Producer \<Rightarrow> string \<Rightarrow> bool" where
  "registered p ex \<longleftrightarrow> map_of (m_exchangeList p) ex \<noteq> None"

definition fine_inv :: "'w platform \<Rightarrow> 'w fine_state \<Rightarrow> bool" where
  "fine_inv P x \<longleftrightarrow> (case x of (p, sends, pub, s) \<Rightarrow>
     producer_inv P p s \<and> connections_available P \<and> (\<forall>c \<in> set sends. registered p (fst c)) \<and>
     (pub \<noteq> None \<longrightarrow> m_producerThread p = Some P_Publish \<and> m_sendQueue p \<noteq> []))"

lemma registered_addExchange: "registered p k \<Longrightarrow> registered (snd (addExchange ex p)) k"
  by (auto simp: registered_def addExchange_def map_of_update split: option.split)

lemma registered_declare: "registered p k \<Longrightarrow> registered (snd (addExchange_declared ex ty p)) k"
  by (auto simp: registered_def addExchange_declared_def map_of_update split: option.split)

lemma registered_same: "m_exchangeList p' = m_exchangeList p \<Longrightarrow> registered p' k = registered p k"
  by (simp add: registered_def)

lemma Send_exchanges:
  assumes "Send P ex rk message p hp = Inr (r, p', hp')"
  shows "m_exchangeList p' = m_exchangeList (snd (addExchange ex p))"
  using assms by (auto simp: Send_def bindr_eq_Inr_iff Let_def split: prod.splits if_splits)

lemma Restart_exchanges:
  assumes inv: "core_inv P p s" and th: "thread_inv p" and run: "Producer_Restart P p s = Inr (r, p', s')"
  shows "m_exchangeList p' = m_exchangeList p"
proof (cases "m_isInitialized p")
  case False
  with run show ?thesis by (auto simp: Producer_Restart_def Producer_IsInitialized_def)
next
  case True
  from Producer_Stop_ok [OF inv th True] obtain r1 p1 s1 where
      st: "Producer_Stop P p s = Inr (r1, p1, s1)" "m_exchangeList p1 = m_exchangeList p"
    by (auto simp: okr_def)
  with run True show ?thesis
    by (auto simp: Producer_Restart_def Producer_IsInitialized_def Producer_Start_def Producer_setRunning_def
        bindr_eq_Inr_iff Let_def split: if_splits)
qed

lemma action_keeps_registered:
  assumes inv: "producer_inv P p s" and perm: "permitted P a p s"
    and act: "producer_action P a p s = Inr (p', s')" and k: "registered p k"
  shows "registered p' k"
proof -
  from inv have core: "core_inv P p s" and th: "thread_inv p" by (simp_all add: producer_inv_def)
  have same: "registered p' k" if "m_exchangeList p' = m_exchangeList p"
    using that k by (simp add: registered_def)
  show ?thesis
  proof (cases a)
    case (A_Initialize server port user pw)
    with act show ?thesis
      by (intro same) (auto simp: Producer_Initialize_def Producer_setRunning_def setInitialized_def bindr_eq_Inr_iff Let_def)
  next
    case (A_DeclareExchange ex ty)
    with act registered_declare [OF k, of ex ty] show ?thesis
      by (auto simp: Producer_DeclareExchange_def split_beta Let_def)
  next
    case (A_Send ex rk message)
    with act obtain r hp where "Send P ex rk message p (rt_heap s) = Inr (r, p', hp)"
      by (auto simp: bindr_eq_Inr_iff)
    from Send_exchanges [OF this] registered_addExchange [OF k, of ex] show ?thesis
      by (simp add: registered_def)
  next
    case A_Start
    with act show ?thesis
      by (intro same) (auto simp: producer_start_def Producer_Start_def Producer_setRunning_def
          bindr_eq_Inr_iff Let_def split: if_splits)
  next
    case A_Stop
    with perm act Producer_Stop_ok [OF core th] show ?thesis
      by (intro same) (auto simp: okr_def)
  next
    case A_Restart
    with act Restart_exchanges [OF core th] show ?thesis by (intro same) (auto simp: bindr_eq_Inr_iff)
  next
    case A_Thread
    show ?thesis
    proof (cases "m_producerThread p")
      case None
      with A_Thread act k show ?thesis by simp
    next
      case (Some pc)
      with th have "m_isInitialized p" by (auto simp: thread_inv_def)
      from Producer_thread_step_ok [OF core Some this] A_Thread act Some show ?thesis
        by (intro same) (auto simp: okr_def thread_moved_def same_shell_def)
    qed
  next
    case (A_Environment t)
    with act k show ?thesis by simp
  qed
qed

section \<open>The outbox\<close>

text \<open>A message that is published and not yet removed no longer waits.\<close>

definition fine_box :: "('w \<Rightarrow> letter list) \<Rightarrow> 'w fine_state \<Rightarrow> letter outbox" where
  "fine_box out x = (case x of (p, sends, pub, s) \<Rightarrow>
     let b = outbox out (p, s) in (if pub = Some ALL_GOOD then tl (fst b) else fst b, snd b))"

definition fine_accepts :: "'w fine_action \<Rightarrow> 'w fine_state \<Rightarrow> letter option" where
  "fine_accepts a x = (case x of (p, sends, pub, s) \<Rightarrow>
     case a of
       Whole b \<Rightarrow> producer_accepts b (p, s)
     | EndSend i \<Rightarrow> if i < length sends
         then (case sends ! i of (ex, rk, message) \<Rightarrow> Some (send_letter ex rk message p s)) else None
     | _ \<Rightarrow> None)"

definition publishes_nothing :: "('w \<Rightarrow> letter list) \<Rightarrow> 'w fine_action \<Rightarrow> 'w fine_state \<Rightarrow> bool" where
  "publishes_nothing out a x \<longleftrightarrow> (case x of (p, sends, pub, s) \<Rightarrow>
     \<forall>t. a = Whole (A_Environment t) \<longrightarrow> same_out out s t)"

lemma fine_box_simps:
  "fine_box out (p, sends, None, s) = outbox out (p, s)"
  "fine_box out (p, sends, Some r, s) =
     (if r = ALL_GOOD then (tl (fst (outbox out (p, s))), snd (outbox out (p, s))) else outbox out (p, s))"
  by (simp_all add: fine_box_def Let_def)

lemma fst_outbox: "fst (outbox out (p, s)) = map (letter (rt_heap s)) (m_sendQueue p)"
  by (simp add: outbox_def)

lemma snd_outbox: "snd (outbox out (p, s)) = out (rt_world s)"
  by (simp add: outbox_def)

text \<open>What other calls do in the middle of a publication: append, at most.\<close>

lemma during_publish_appends:
  assumes inv: "producer_inv P p s" and perm: "permitted P a p s" and dp: "during_publish a"
    and act: "producer_action P a p s = Inr (p', s')" and q: "m_sendQueue p \<noteq> []"
  shows "m_producerThread p' = m_producerThread p" and "m_sendQueue p' \<noteq> []"
    and "(\<forall>t. a = A_Environment t \<longrightarrow> same_out out s t) \<Longrightarrow>
      outbox out (p', s') = accept (producer_accepts a (p, s)) (outbox out (p, s))"
proof -
  from inv have core: "core_inv P p s" by (simp add: producer_inv_def)
  have "m_producerThread p' = m_producerThread p \<and> m_sendQueue p' \<noteq> [] \<and>
      ((\<forall>t. a = A_Environment t \<longrightarrow> same_out out s t) \<longrightarrow>
        outbox out (p', s') = accept (producer_accepts a (p, s)) (outbox out (p, s)))"
  proof (cases a)
    case (A_DeclareExchange ex ty)
    with act q show ?thesis
      by (auto simp: Producer_DeclareExchange_def split_beta Let_def addExchange_declared_shell
          producer_accepts_def outbox_def)
  next
    case (A_Send ex rk message)
    with act obtain r hp where run: "Send P ex rk message p (rt_heap s) = Inr (r, p', hp)" "s' = s\<lparr>rt_heap := hp\<rparr>"
      by (auto simp: bindr_eq_Inr_iff)
    from A_Send perm obtain body where "m_curChannelNumber p < INT_MAX"
        "sendable (flags P) (rt_heap s) message body" by auto
    from Send_ok [OF core this, of ex rk] run(1) obtain m where
        "p' = (snd (addExchange ex p))\<lparr>m_sendQueue := m_sendQueue p @ [m]\<rparr>"
      by (auto simp: okr_def)
    with A_Send perm run Send_simulated [OF core _ run(1), of out] show ?thesis
      by (simp add: producer_accepts_def addExchange_shell)
  next
    case (A_Environment t)
    with act perm q letters_frame [of "m_sendQueue p" "rt_heap t" "rt_heap s"] show ?thesis
      by (auto simp: producer_accepts_def outbox_def simp del: map_eq_conv)
  qed (use dp in simp_all)
  then show "m_producerThread p' = m_producerThread p" and "m_sendQueue p' \<noteq> []"
    and "(\<forall>t. a = A_Environment t \<longrightarrow> same_out out s t) \<Longrightarrow>
      outbox out (p', s') = accept (producer_accepts a (p, s)) (outbox out (p, s))"
    by blast+
qed

lemma tl_accept: "fst b \<noteq> [] \<Longrightarrow> (tl (fst (accept x b)), snd (accept x b)) = accept x (tl (fst b), snd b)"
  by (simp add: accept_def)

text \<open>An action of the coarse system, with calls and a publication in progress.\<close>

lemma whole_ok:
  assumes inv: "fine_inv P (p, sends, pub, s)" and perm: "permitted P a p s"
    and dp: "pub = None \<or> during_publish a"
  shows "okr (producer_action P a p s) (\<lambda>(p', s'). fine_inv P (p', sends, pub, s') \<and>
     (records_publishes out P \<and> (\<forall>t. a = A_Environment t \<longrightarrow> same_out out s t) \<longrightarrow>
       outbox_steps (accept (producer_accepts a (p, s)) (fine_box out (p, sends, pub, s)))
         (fine_box out (p', sends, pub, s'))))"
proof -
  from inv have pi: "producer_inv P p s" and av: "connections_available P"
      and known: "\<forall>c \<in> set sends. registered p (fst c)"
    by (simp_all add: fine_inv_def)
  from producer_action_ok [OF pi av perm] obtain p' s' where
      act: "producer_action P a p s = Inr (p', s')" and pi': "producer_inv P p' s'"
    by (auto simp: okr_def)
  have known': "\<forall>c \<in> set sends. registered p' (fst c)"
    using known action_keeps_registered [OF pi perm act] by blast
  show ?thesis
  proof (cases pub)
    case None
    with act pi' av known' action_simulated [OF _ pi perm _ act, of out] show ?thesis
      by (auto simp: fine_inv_def fine_box_simps)
  next
    case (Some r)
    with inv dp have q: "m_sendQueue p \<noteq> []" "m_producerThread p = Some P_Publish" "during_publish a"
      by (simp_all add: fine_inv_def)
    note eff = during_publish_appends [OF pi perm q(3) act q(1)]
    have box: "fine_box out (p', sends, pub, s') =
        accept (producer_accepts a (p, s)) (fine_box out (p, sends, pub, s))"
      if "\<forall>t. a = A_Environment t \<longrightarrow> same_out out s t"
      using eff(3) [of out, OF that] tl_accept [of "outbox out (p, s)" "producer_accepts a (p, s)"] q(1) Some
      by (auto simp: fine_box_simps fst_outbox)
    with act pi' av known' eff(1,2) q(2) show ?thesis by (auto simp: fine_inv_def)
  qed
qed

text \<open>The steps of \<open>Send\<close>.\<close>

lemma end_send_is_send:
  assumes inv: "fine_inv P (p, sends, pub, s)" and i: "i < length sends" and c: "sends ! i = (ex, rk, message)"
  shows "end_send P i p sends s =
     bindr (producer_action P (A_Send ex rk message) p s) (\<lambda>(p', s'). Inr (p', remove_nth i sends, s'))"
proof -
  from inv have "exchange_inv p" by (simp add: fine_inv_def producer_inv_def core_inv_def)
  moreover from inv nth_mem [OF i] c obtain e where "map_of (m_exchangeList p) ex = Some e"
    by (auto simp: fine_inv_def registered_def)
  ultimately have "send_enqueue P ex rk message p (rt_heap s) = Send P ex rk message p (rt_heap s)"
    by (rule enqueue_is_Send)
  with i c show ?thesis
    by (cases "Send P ex rk message p (rt_heap s)") (auto simp: end_send_def)
qed

lemma end_send_ok:
  assumes inv: "fine_inv P (p, sends, pub, s)" and perm: "fine_permitted P (EndSend i) (p, sends, pub, s)"
  shows "okr (fine_act P (EndSend i) (p, sends, pub, s)) (\<lambda>x'. fine_inv P x' \<and>
     (records_publishes out P \<longrightarrow>
       outbox_steps (accept (fine_accepts (EndSend i) (p, sends, pub, s)) (fine_box out (p, sends, pub, s)))
         (fine_box out x')))"
proof (cases "i < length sends")
  case False
  with inv show ?thesis by (simp add: end_send_def fine_accepts_def)
next
  case i: True
  obtain ex rk message where c: "sends ! i = (ex, rk, message)" by (cases "sends ! i") auto
  with perm i have perm': "permitted P (A_Send ex rk message) p s" by simp
  from whole_ok [OF inv perm', of out] obtain p' s' where
      act: "producer_action P (A_Send ex rk message) p s = Inr (p', s')" "fine_inv P (p', sends, pub, s')"
      "records_publishes out P \<longrightarrow>
        outbox_steps (accept (producer_accepts (A_Send ex rk message) (p, s)) (fine_box out (p, sends, pub, s)))
         (fine_box out (p', sends, pub, s'))"
    by (auto simp: okr_def simp del: producer_action.simps permitted.simps)
  have "fine_inv P (p', remove_nth i sends, pub, s')"
    using act(2) set_remove_nth [OF i] by (auto simp: fine_inv_def)
  moreover have "fine_box out (p', remove_nth i sends, pub, s') = fine_box out (p', sends, pub, s')"
    by (simp add: fine_box_def)
  ultimately show ?thesis
    using act(1,3) end_send_is_send [OF inv i c] i c
    by (simp add: fine_accepts_def producer_accepts_def del: producer_action.simps)
qed

lemma begin_send_ok:
  assumes inv: "fine_inv P (p, sends, pub, s)" and room: "m_curChannelNumber p < INT_MAX"
  shows "okr (fine_act P (BeginSend ex rk message) (p, sends, pub, s)) (\<lambda>x'. fine_inv P x' \<and>
     fine_box out x' = fine_box out (p, sends, pub, s))"
proof -
  obtain ch p' where add: "addExchange ex p = (ch, p')" by fastforce
  from inv have core: "core_inv P p s" by (simp add: fine_inv_def producer_inv_def)
  note ok = addExchange_ok [OF core room, of ex]
  note shell = addExchange_shell [of ex p]
  have "fine_inv P (p', sends @ [(ex, rk, message)], pub, s)"
    using inv ok shell add registered_addExchange [of p _ ex]
    by (auto simp: fine_inv_def producer_inv_def thread_inv_def registered_def)
  moreover have "fine_box out (p', sends @ [(ex, rk, message)], pub, s) = fine_box out (p, sends, pub, s)"
    using shell add by (simp add: fine_box_def outbox_def)
  ultimately show ?thesis using add ok(3) by simp
qed

text \<open>The steps of a publication.\<close>

lemma producer_inv_at_pc:
  assumes "producer_inv P p s" and "m_producerThread p = Some pc" and "core_inv P p' s'" and "same_shell p p'"
    and "pc' \<noteq> P_Exited"
  shows "producer_inv P (at_pc pc' p') s'"
  using assms by (auto simp: producer_inv_def thread_inv_def same_shell_def) (auto simp: at_pc_def)

lemma begin_publish_ok:
  assumes inv: "fine_inv P (p, sends, pub, s)" and perm: "fine_permitted P BeginPublish (p, sends, pub, s)"
  shows "okr (fine_act P BeginPublish (p, sends, pub, s)) (\<lambda>x'. fine_inv P x' \<and>
     (records_publishes out P \<longrightarrow> outbox_steps (fine_box out (p, sends, pub, s)) (fine_box out x')))"
proof -
  from inv perm have pi: "producer_inv P p s" and core: "core_inv P p s" and pc: "m_producerThread p = Some P_Publish"
      and pub: "pub = None"
    by (simp_all add: fine_inv_def producer_inv_def)
  from publish_front_ok [OF core, of out] obtain r p' s' where
      run: "publish_front P p s = Inr (r, p', s')" and res: "case r of None \<Rightarrow> p' = p \<and> s' = s
      | Some ret \<Rightarrow> core_inv P p' s' \<and> m_isInitialized p \<and> rt_heap s' = rt_heap s \<and> (\<exists>m q. m_sendQueue p = m # q \<and>
          p' = p\<lparr>m_sendQueue := stamp P m s # q\<rparr> \<and> (records_publishes out P \<longrightarrow> out (rt_world s') =
            (if ret = ALL_GOOD then out (rt_world s) @ [letter (rt_heap s) m] else out (rt_world s))))"
    by (auto simp: okr_def)
  show ?thesis
  proof (cases r)
    case None
    have "fine_inv P (at_pc P_Loop p, sends, None, s)"
      using inv producer_inv_at_pc [OF pi pc core same_shell_refl, of P_Loop]
      by (auto simp: fine_inv_def registered_def at_pc_def)
    with None run res pub show ?thesis by (simp add: fine_box_simps outbox_def at_pc_def)
  next
    case (Some ret)
    with res obtain m q where mq: "m_sendQueue p = m # q" "p' = p\<lparr>m_sendQueue := stamp P m s # q\<rparr>"
        "core_inv P p' s'" "rt_heap s' = rt_heap s" and out: "records_publishes out P \<longrightarrow> out (rt_world s') =
          (if ret = ALL_GOOD then out (rt_world s) @ [letter (rt_heap s) m] else out (rt_world s))"
      by auto
    have "fine_inv P (p', sends, Some ret, s')"
      using inv mq pc by (auto simp: fine_inv_def producer_inv_def thread_inv_def registered_def)
    moreover have "outbox_steps (fine_box out (p, sends, None, s)) (fine_box out (p', sends, Some ret, s'))"
      if "records_publishes out P"
      using out that mq by (auto simp: fine_box_simps outbox_def intro!: r_into_rtranclp outbox_step.deliver)
    ultimately show ?thesis using Some run pub by simp
  qed
qed

lemma end_publish_ok:
  assumes inv: "fine_inv P (p, sends, pub, s)"
  shows "okr (fine_act P EndPublish (p, sends, pub, s)) (\<lambda>x'. fine_inv P x' \<and>
     (records_publishes out P \<longrightarrow> outbox_steps (fine_box out (p, sends, pub, s)) (fine_box out x')))"
proof (cases pub)
  case None
  with inv show ?thesis by simp
next
  case (Some ret)
  with inv have pi: "producer_inv P p s" and core: "core_inv P p s" and pc: "m_producerThread p = Some P_Publish"
      and "m_sendQueue p \<noteq> []"
    by (simp_all add: fine_inv_def producer_inv_def)
  then obtain m q where q: "m_sendQueue p = m # q" by (cases "m_sendQueue p") auto
  from pi pc have init: "m_isInitialized p" by (auto simp: producer_inv_def thread_inv_def)
  from publish_settle_ok [OF core init q, of ret out] obtain p' s' where
      run: "publish_settle P ret p s = Inr (p', s')" and ok: "core_inv P p' s'" "same_shell p p'"
      and res: "if ret = ALL_GOOD then p' = p\<lparr>m_sendQueue := q\<rparr> \<and>
          s' = s\<lparr>rt_heap := drop_blocks (owned m) (rt_heap s)\<rparr>
        else if serverFailure ret then m_sendQueue p' = [] \<and> (records_publishes out P \<longrightarrow> same_out out s s')
        else p' = p \<and> s' = s"
    by (auto simp: okr_def)
  have "fine_inv P (at_pc P_Loop p', sends, None, s')"
    using inv producer_inv_at_pc [OF pi pc ok, of P_Loop] ok(2)
    by (auto simp: fine_inv_def registered_def same_shell_def at_pc_def)
  moreover have "outbox_steps (fine_box out (p, sends, Some ret, s)) (fine_box out (at_pc P_Loop p', sends, None, s'))"
    if rec: "records_publishes out P"
  proof -
    have at: "outbox out (at_pc P_Loop p', s') = outbox out (p', s')" by (simp add: outbox_def at_pc_def)
    consider (sent) "ret = ALL_GOOD" | (lost) "ret \<noteq> ALL_GOOD" "serverFailure ret"
      | (kept) "ret \<noteq> ALL_GOOD" "\<not> serverFailure ret" by blast
    then show ?thesis
    proof cases
      case sent
      have "queue_ok (flags P) (rt_heap s) (m # q)" using core_inv_platform(4) [OF core] q by simp
      then have "map (letter (drop_blocks (owned m) (rt_heap s))) q = map (letter (rt_heap s)) q"
        by (intro letters_frame) (auto simp: queue_ok_def)
      with sent res q show ?thesis unfolding fine_box_simps at by (simp add: outbox_def del: map_eq_conv)
    next
      case lost
      with res rec have "m_sendQueue p' = []" "same_out out s s'" by auto
      from outbox_dropped [OF this] lost show ?thesis unfolding fine_box_simps at by simp
    next
      case kept
      with res show ?thesis unfolding fine_box_simps at by simp
    qed
  qed
  ultimately show ?thesis using Some run by simp
qed

lemma fine_act_ok:
  assumes inv: "fine_inv P x" and perm: "fine_permitted P a x"
  shows "okr (fine_act P a x) (\<lambda>x'. fine_inv P x' \<and>
     (records_publishes out P \<and> publishes_nothing out a x \<longrightarrow>
       outbox_steps (accept (fine_accepts a x) (fine_box out x)) (fine_box out x')))"
proof -
  obtain p sends pub s where x: "x = (p, sends, pub, s)" by (cases x)
  note inv' = inv [unfolded x] and perm' = perm [unfolded x]
  show ?thesis
  proof (cases a)
    case (Whole b)
    with perm' have b: "permitted P b p s" "pub = None \<or> during_publish b" by simp_all
    from whole_ok [OF inv' b, of out] Whole x show ?thesis
      by (auto simp: okr_def fine_accepts_def publishes_nothing_def)
  next
    case (BeginSend ex rk message)
    with perm' have "m_curChannelNumber p < INT_MAX" by simp
    from begin_send_ok [OF inv' this, of ex rk message out] BeginSend x show ?thesis
      by (auto simp: okr_def fine_accepts_def simp del: fine_act.simps)
  next
    case (EndSend i)
    from end_send_ok [OF inv', of i out] perm' EndSend x show ?thesis
      by (auto simp: okr_def simp del: fine_act.simps fine_permitted.simps)
  next
    case BeginPublish
    from begin_publish_ok [OF inv', of out] perm' BeginPublish x show ?thesis
      by (auto simp: okr_def fine_accepts_def simp del: fine_act.simps fine_permitted.simps)
  next
    case EndPublish
    from end_publish_ok [OF inv', of out] EndPublish x show ?thesis
      by (auto simp: okr_def fine_accepts_def simp del: fine_act.simps)
  qed
qed

lemma fine_reachable_inv: "fine_reachable P x \<Longrightarrow> fine_inv P x"
proof (induction rule: fine_reachable.induct)
  case (start s)
  then show ?case by (simp add: fine_inv_def producer_inv_init)
next
  case (step x a x')
  with fine_act_ok [OF step.IH step.hyps(2)] show ?case by (auto simp: okr_def)
qed

section \<open>Safety and order\<close>


definition fine_moves ::
    "('w \<Rightarrow> letter list) \<Rightarrow> 'w platform \<Rightarrow> 'w fine_action \<Rightarrow> 'w fine_state \<Rightarrow> 'w fine_state \<Rightarrow> bool" where
  "fine_moves out P a x x' \<longleftrightarrow>
     fine_permitted P a x \<and> publishes_nothing out a x \<and> fine_act P a x = Inr x'"

definition fine_sender_inv :: "('w \<Rightarrow> letter list) \<Rightarrow> 'w platform \<Rightarrow> 'w fine_state \<Rightarrow> bool" where
  "fine_sender_inv out P x \<longleftrightarrow> fine_inv P x \<and> records_publishes out P"

interpretation fine_out: outbox_sender "fine_box out" "fine_sender_inv out P" "fine_moves out P" fine_accepts
  for out :: "'w \<Rightarrow> letter list" and P :: "'w platform"
proof (unfold_locales, goal_cases)
  case (1 x a x')
  with fine_act_ok [of P x a out] show ?case by (auto simp: fine_moves_def fine_sender_inv_def okr_def)
next
  case (2 x a x')
  with fine_act_ok [of P x a out] show ?case by (auto simp: fine_moves_def fine_sender_inv_def okr_def)
qed

text \<open>
  C5. The order of messages does not depend on the locks that \<open>Send\<close> and \<open>publishNextInQueue\<close> leave
  out: along every interleaving of their steps, what the broker has taken over, followed by what
  still waits, is what was queued, in the order in which the second steps of the calls of \<open>Send\<close>
  took place. Messages may be lost; none is changed, published twice, invented or overtaken.
\<close>

theorem interleaved_messages_in_order:
  assumes "platform_ok P" and "connections_available P" and "heap_wf (rt_heap s)"
    and "records_publishes out P"
    and "logged (fine_moves out P) fine_accepts (Producer_init, [], None, s) log (p', sends', pub', s')"
  shows "subseq (out (rt_world s') @ map (letter (rt_heap s'))
       (if pub' = Some ALL_GOOD then tl (m_sendQueue p') else m_sendQueue p')) (out (rt_world s) @ log) \<and>
     prefix (out (rt_world s)) (out (rt_world s'))"
proof -
  have inv: "fine_sender_inv out P (Producer_init, [], None, s)"
    using fine_reachable_inv [OF fine_reachable.start [OF assms(1-3)]] assms(4)
    by (simp add: fine_sender_inv_def)
  have start: "m_sendQueue Producer_init = []" by (simp add: Producer_init_def)
  have tl: "map f (if b then tl q else q) = (if b then tl (map f q) else map f q)" for f b and q :: "RawMessage list"
    by (simp add: map_tl)
  from fine_out.in_order [OF assms(5) inv] fine_out.delivered_grows [OF assms(5) inv] start show ?thesis
    unfolding tl by (cases "pub' = Some ALL_GOOD") (simp_all add: known_def fine_box_def outbox_def Let_def)
qed

text \<open>A call of \<open>Send\<close> on the reference platform, step by step.\<close>

definition mid_send :: Producer where
  "mid_send = snd (addExchange ''amq.direct'' Producer_init)"

lemma mid_send_add: "addExchange ''amq.direct'' Producer_init = (1, mid_send)"
  by (simp add: mid_send_def addExchange_def Producer_init_def ExchangeProperties_init_def)

lemma mid_send_known: "addExchange ''amq.direct'' mid_send = (1, mid_send)"
  by (simp add: mid_send_def addExchange_def Producer_init_def ExchangeProperties_init_def)

lemma mid_send_begin:
  "fine_act ref_platform (BeginSend ''amq.direct'' ''test'' plain_message) (Producer_init, [], None, sample_rt) =
     Inr (mid_send, [(''amq.direct'', ''test'', plain_message)], None, sample_rt)"
  by (simp add: mid_send_add)

lemma mid_send_permitted:
  "permitted ref_platform (A_Send ''amq.direct'' ''test'' plain_message) mid_send sample_rt"
proof -
  have "Send ref_platform ''amq.direct'' ''test'' plain_message mid_send hp =
      Send ref_platform ''amq.direct'' ''test'' plain_message Producer_init hp" for hp
    by (simp add: Send_phases mid_send_add mid_send_known)
  moreover have "m_curChannelNumber mid_send < INT_MAX"
    by (simp add: mid_send_def addExchange_def Producer_init_def int_incr_def)
  ultimately show ?thesis using sample_sendable by simp
qed

lemma mid_send_reachable:
  "fine_reachable ref_platform (mid_send, [(''amq.direct'', ''test'', plain_message)], None, sample_rt)"
proof -
  have "fine_reachable ref_platform (Producer_init, [], None, sample_rt)"
    by (rule fine_reachable.start)
       (simp_all add: ref_platform_ok ref_connections_available sample_rt_def sample_heap_wf)
  then show ?thesis
    by (rule fine_reachable.step [OF _ _ mid_send_begin]) (simp add: Producer_init_def)
qed


theorem interleaved_messages_in_order_witness:
  "\<exists>p' sends' pub' s'. logged (fine_moves rw_published ref_platform) fine_accepts (Producer_init, [], None, sample_rt)
       [(1, ''amq.direct'', ''test'', ''hi'')] (p', sends', pub', s') \<and>
     subseq (rw_published (rt_world s') @ map (letter (rt_heap s'))
         (if pub' = Some ALL_GOOD then tl (m_sendQueue p') else m_sendQueue p'))
       (rw_published (rt_world sample_rt) @ [(1, ''amq.direct'', ''test'', ''hi'')]) \<and>
     prefix (rw_published (rt_world sample_rt)) (rw_published (rt_world s'))"
proof -
  let ?x1 = "(mid_send, [(''amq.direct'', ''test'', plain_message)], None :: HARE_ERROR_E option, sample_rt)"
    and ?step = "fine_moves rw_published ref_platform"
  have m1: "?step (BeginSend ''amq.direct'' ''test'' plain_message) (Producer_init, [], None, sample_rt) ?x1"
    using mid_send_begin by (simp add: fine_moves_def publishes_nothing_def Producer_init_def)
  have perm: "fine_permitted ref_platform (EndSend 0) ?x1" using mid_send_permitted by (simp del: permitted.simps)
  from fine_act_ok [OF fine_reachable_inv [OF mid_send_reachable] this, of rw_published]
  obtain x2 where "fine_act ref_platform (EndSend 0) ?x1 = Inr x2" unfolding okr_def by blast
  then have m2: "?step (EndSend 0) ?x1 x2" using perm by (simp add: fine_moves_def publishes_nothing_def)
  have "fine_accepts (EndSend 0) ?x1 = Some (1, ''amq.direct'', ''test'', ''hi'')"
    by (simp add: fine_accepts_def send_letter_def mid_send_known upto_NUL_def NUL_def plain_message_def
        sample_message_def Bytes_def text_at_def sample_rt_def sample_heap_def deref_bytes_def load_bytes_def
        c_str_def wire_channel_def)
  moreover have "fine_accepts (BeginSend ''amq.direct'' ''test'' plain_message) (Producer_init, [], None, sample_rt) = None"
    by (simp add: fine_accepts_def)
  ultimately have run: "logged ?step fine_accepts (Producer_init, [], None, sample_rt)
      [(1, ''amq.direct'', ''test'', ''hi'')] x2"
    using logged.go [where step = ?step and accepted = fine_accepts,
        OF logged.go [where step = ?step and accepted = fine_accepts, OF logged.stay m1] m2] by simp
  obtain p' sends' pub' s' where x2: "x2 = (p', sends', pub', s')" by (cases x2)
  have "heap_wf (rt_heap sample_rt)" by (simp add: sample_rt_def sample_heap_wf)
  from interleaved_messages_in_order [OF ref_platform_ok ref_connections_available this ref_records run [unfolded x2]]
    run x2
  show ?thesis by blast
qed

section \<open>A message that overtakes the opening of its channel\<close>

text \<open>\<open>opened w\<close> are the channels opened on the wire; publishing opens none.\<close>

definition publishing_opens_none :: "('w \<Rightarrow> nat set) \<Rightarrow> 'w platform \<Rightarrow> bool" where
  "publishing_opens_none opened P \<longleftrightarrow> (\<forall>c ch ex rk ma im props fs body w.
     opened (snd (amqp_basic_publish (api P) c ch ex rk ma im props fs body w)) = opened w)"

lemma PublishMessage_opens_none:
  assumes "publishing_opens_none opened P" and "PublishMessage P m c s = Inr (r, m', s')"
  shows "opened (rt_world s') = opened (rt_world s)"
  using assms
  by (auto simp: publishing_opens_none_def PublishMessage_def bindr_eq_Inr_iff Let_def split_beta from_world_def
      split: if_splits)

lemma PublishMessage_works:
  assumes "publishing_works P" and "IsConnected c" and "PublishMessage P m c s = Inr (r, m', s')"
  shows "r = ALL_GOOD"
proof -
  have "\<not> fst (amqp_basic_publish (api P) x0 x1 x2 x3 x4 x5 x6 x7 x8 x9) < 0"
    for x0 x1 x2 x3 x4 x5 x6 x7 x8 x9
    using assms(1) by (simp add: publishing_works_def not_less)
  with assms(2,3) show ?thesis
    by (auto simp: PublishMessage_def bindr_eq_Inr_iff Let_def split_beta from_world_def split: if_splits)
qed

text \<open>
  C35. The test of the channels and the publication are separate steps of the worker thread. When
  the first message for a new exchange is sent between them and the queue is empty, the thread
  publishes it at once, on a channel that has not been opened; only the next round would have
  opened it.
\<close>

theorem send_overtakes_channel_opening:
  assumes reach: "producer_reachable P p s" and pc: "m_producerThread p = Some P_Publish"
    and con: "isConnected p" and q: "m_sendQueue p = []" and new: "map_of (m_exchangeList p) ex = None"
    and perm: "permitted P (A_Send ex rk message) p s"
    and lib: "publishing_works P" "records_publishes out P" "publishing_opens_none opened P"
    and closed: "wire_channel (m_curChannelNumber p) \<notin> opened (rt_world s)"
  shows "okr (bindr (producer_action P (A_Send ex rk message) p s) (\<lambda>(p1, s1). producer_action P A_Thread p1 s1))
    (\<lambda>(p2, s2). (\<exists>key body. out (rt_world s2) =
         out (rt_world s) @ [(wire_channel (m_curChannelNumber p), upto_NUL ex, key, body)]) \<and>
       wire_channel (m_curChannelNumber p) \<notin> opened (rt_world s2) \<and> \<not> m_channelsConnected p2)"
proof -
  from reachable_inv [OF reach] have pi: "producer_inv P p s" and core: "core_inv P p s"
    by (simp_all add: producer_inv_def)
  have add: "fst (addExchange ex p) = m_curChannelNumber p" "\<not> m_channelsConnected (snd (addExchange ex p))"
    using new by (simp_all add: addExchange_def)
  from perm obtain body where room: "m_curChannelNumber p < INT_MAX"
      and msg: "sendable (flags P) (rt_heap s) message body" by auto
  from Send_ok [OF core this, of ex rk] perm obtain hp m where
      send: "Send P ex rk message p (rt_heap s) = Inr (ALL_GOOD, (snd (addExchange ex p))\<lparr>m_sendQueue := [m]\<rparr>, hp)"
      and core1: "core_inv P ((snd (addExchange ex p))\<lparr>m_sendQueue := [m]\<rparr>) (s\<lparr>rt_heap := hp\<rparr>)"
    using q by (auto simp: okr_def)
  let ?p = "(snd (addExchange ex p))\<lparr>m_sendQueue := [m]\<rparr>" and ?s = "s\<lparr>rt_heap := hp\<rparr>"
  have "letter hp m = send_letter ex rk message p s"
    using Send_simulated [OF core perm send, of "\<lambda>_. []"] q by (simp add: outbox_def accept_def)
  then obtain key bd where l: "letter hp m = (wire_channel (m_curChannelNumber p), upto_NUL ex, key, bd)"
    by (simp add: send_letter_def add)
  have con1: "isConnected ?p" and pc1: "m_producerThread ?p = Some P_Publish"
    using con pc by (simp_all add: isConnected_def addExchange_shell)
  have "m_sendQueue ?p = m # []" by simp
  from core1 con1 this obtain c r s1 where pub: "IsConnected c" "PublishMessage P m c ?s = Inr (r, stamp P m ?s, s1)"
      and heap: "rt_heap s1 = rt_heap ?s"
      and step: "publishNextInQueue P ?p ?s =
        (if serverFailure r then closeConnection P (?p\<lparr>m_sendQueue := stamp P m ?s # []\<rparr>) s1
         else if r = ALL_GOOD
         then Inr (?p\<lparr>m_sendQueue := []\<rparr>, s1\<lparr>rt_heap := drop_blocks (owned m) (rt_heap ?s)\<rparr>)
         else Inr (?p\<lparr>m_sendQueue := stamp P m ?s # []\<rparr>, s1))"
    by (rule publish_connectedE)
  note r = PublishMessage_works [OF lib(1) pub]
  have "out (rt_world s1) = out (rt_world s) @ [letter hp m]" "opened (rt_world s1) = opened (rt_world s)"
    using publish_records [OF lib(2) pub] PublishMessage_opens_none [OF lib(3) pub(2)] r by simp_all
  with send step r pc1 add(2) l closed show ?thesis
    by (simp add: Producer_thread_step_def) (simp add: at_pc_def)
qed

text \<open>A producer on the loopback broker, about to publish from an empty queue.\<close>

definition loop_start :: "loop_world rt" where
  "loop_start = loop_rt\<lparr>rt_heap := sample_heap\<rparr>"

lemma loop_records: "records_publishes lw_letters loop_platform"
  by (auto simp: records_publishes_def loop_platform_def loop_api_def lw_letters_def)

fun run_actions :: "'w platform \<Rightarrow> 'w action list \<Rightarrow> Producer \<times> 'w rt \<Rightarrow> (Producer \<times> 'w rt) option" where
  "run_actions P [] x = Some x"
| "run_actions P (a # as) (p, s) =
     (case a of
        A_Send ex rk message \<Rightarrow> None
      | A_DeclareExchange ex ty \<Rightarrow> None
      | A_Environment t \<Rightarrow> None
      | A_Stop \<Rightarrow> None
      | A_Initialize server port user pw \<Rightarrow>
          if m_threadRunning p then None
          else (case producer_action P a p s of Inl _ \<Rightarrow> None | Inr y \<Rightarrow> run_actions P as y)
      | _ \<Rightarrow> (case producer_action P a p s of Inl _ \<Rightarrow> None | Inr y \<Rightarrow> run_actions P as y))"

lemma run_actions_reachable:
  "run_actions P as (p, s) = Some (p', s') \<Longrightarrow> producer_reachable P p s \<Longrightarrow> producer_reachable P p' s'"
proof (induction as arbitrary: p s)
  case (Cons a as)
  from Cons.prems(1) obtain p1 s1 where st: "permitted P a p s" "producer_action P a p s = Inr (p1, s1)"
      and rest: "run_actions P as (p1, s1) = Some (p', s')"
    by (cases a) (auto split: if_splits sum.splits)
  from Cons.IH [OF rest producer_reachable.step [OF Cons.prems(2) st]] show ?case .
qed simp

definition about_to_publish :: "loop_world action list" where
  "about_to_publish = [A_Initialize ''localhost'' 5672 ''guest'' ''guest'', A_Start, A_Thread, A_Thread, A_Thread]"

lemma about_to_publish_reached:
  "(case run_actions loop_platform about_to_publish (Producer_init, loop_start) of
      None \<Rightarrow> False
    | Some (p, s) \<Rightarrow> m_producerThread p = Some P_Publish \<and> isConnected p \<and> m_sendQueue p = [] \<and>
        m_exchangeList p = [] \<and> m_curChannelNumber p = 1 \<and> lw_opened (rt_world s) = [] \<and>
        (case Bytes plain_message of None \<Rightarrow> False | Some b \<Rightarrow> deref_bytes (rt_heap s) b = Inr ''hi'') \<and>
        (case Send loop_platform ''amq.direct'' ''test'' plain_message p (rt_heap s) of
           Inl _ \<Rightarrow> False | Inr (r, p', hp) \<Rightarrow> fully_allocated (last (m_sendQueue p'))))"
  by code_simp

theorem send_overtakes_channel_opening_witness:
  "\<exists>p s. m_producerThread p = Some P_Publish \<and> isConnected p \<and> m_curChannelNumber p = 1 \<and>
     lw_opened (rt_world s) = [] \<and>
     okr (bindr (producer_action loop_platform (A_Send ''amq.direct'' ''test'' plain_message) p s)
         (\<lambda>(p1, s1). producer_action loop_platform A_Thread p1 s1))
       (\<lambda>(p2, s2). (\<exists>key body. lw_letters (rt_world s2) =
            lw_letters (rt_world s) @ [(wire_channel (m_curChannelNumber p), upto_NUL ''amq.direct'', key, body)]) \<and>
          wire_channel (m_curChannelNumber p) \<notin> set (lw_opened (rt_world s2)) \<and> \<not> m_channelsConnected p2)"
proof -
  from about_to_publish_reached obtain p s where
      run: "run_actions loop_platform about_to_publish (Producer_init, loop_start) = Some (p, s)"
      and st: "m_producerThread p = Some P_Publish" "isConnected p" "m_sendQueue p = []"
        "m_exchangeList p = []" "m_curChannelNumber p = 1" "lw_opened (rt_world s) = []"
      and body: "case Bytes plain_message of None \<Rightarrow> False | Some b \<Rightarrow> deref_bytes (rt_heap s) b = Inr ''hi''"
      and full: "case Send loop_platform ''amq.direct'' ''test'' plain_message p (rt_heap s) of
        Inl _ \<Rightarrow> False | Inr (r, p', hp) \<Rightarrow> fully_allocated (last (m_sendQueue p'))"
    by (auto split: option.splits)
  have "connections_available loop_platform"
    by (simp add: connections_available_def loop_platform_def loop_api_def)
  then have "producer_reachable loop_platform Producer_init loop_start"
    by (intro producer_reachable.start) (simp_all add: loop_platform_ok loop_start_def sample_heap_wf)
  with run have reach: "producer_reachable loop_platform p s" by (rule run_actions_reachable)
  have sc: "self_contained (flags loop_platform) (AmqpProperties plain_message)"
    using plain_message_sendable by (auto simp: sendable_def loop_platform_def)
  have perm: "permitted loop_platform (A_Send ''amq.direct'' ''test'' plain_message) p s"
    using st(5) sc body full by (auto simp: sendable_def split: option.splits sum.splits)
  have lib: "publishing_works loop_platform" "publishing_opens_none (\<lambda>w. set (lw_opened w)) loop_platform"
    by (simp_all add: publishing_works_def publishing_opens_none_def loop_platform_def loop_api_def)
  from send_overtakes_channel_opening [OF reach st(1-3) _ perm lib(1) loop_records lib(2)] st show ?thesis
    by (intro exI [of _ p] exI [of _ s]) simp
qed

end
