(* ===== verification/Consumer_Dispatch.thy ===== *)
theory Consumer_Dispatch
  imports Consumer_Actions
begin

text \<open>
  From the wire to the callbacks. \<open>arr w\<close> is the history of the messages that
  \<open>amqp_consume_message\<close> has handed to the program. Every action of the consumer turns the messages
  that arrive during it into calls of the callbacks registered for them, one call each, in the
  order of arrival; no call is made for anything else.
\<close>

section \<open>Arrivals and calls\<close>

text \<open>A message that arrived: exchange, routing key, body.\<close>

type_synonym arrival = "string \<times> string \<times> string"

definition arrival_of :: "heap \<Rightarrow> amqp_envelope \<Rightarrow> arrival" where
  "arrival_of hp e = (text_at hp (env_exchange e), text_at hp (env_routing_key e), text_at hp (env_body e))"

text \<open>The callback for an arrival; a message without an exchange is dropped.\<close>

definition dispatch ::
    "(HashableBindingPair \<Rightarrow> TD_Callback option) \<Rightarrow> arrival \<Rightarrow> TD_Callback list" where
  "dispatch cb = (\<lambda>(exchange, key, body).
     if exchange = [] then []
     else case cb \<lparr>m_exchangeName = exchange, m_routingKey = key\<rparr> of None \<Rightarrow> [] | Some f \<Rightarrow> [f])"

primrec callee :: "invocation \<Rightarrow> TD_Callback" where
  "callee (CallInline f m) = f"
| "callee (CallDetached f m) = f"

text \<open>
  A reply that the program takes for a success brings one message; nothing else that the
  consumer calls brings any.
\<close>

definition records_arrivals :: "('w \<Rightarrow> arrival list) \<Rightarrow> 'w platform \<Rightarrow> bool" where
  "records_arrivals arr P \<longleftrightarrow>
     (\<forall>c t fl h w reply e hp w'. amqp_consume_message (api P) c t fl h w = (reply, e, hp, w') \<longrightarrow>
        arr w' = arr w @ (if decodeRpcReply (codes P) reply = ALL_GOOD
                          then case e of None \<Rightarrow> [] | Some env \<Rightarrow> [arrival_of hp env] else [])) \<and>
     (\<forall>c h w. arr (snd (amqp_maybe_release_buffers (api P) c h w)) = arr w) \<and>
     (\<forall>e h w. arr (snd (amqp_destroy_envelope (api P) e h w)) = arr w) \<and>
     (\<forall>w. arr (snd (amqp_new_connection (api P) w)) = arr w) \<and>
     (\<forall>c w. arr (snd (amqp_tcp_socket_new (api P) c w)) = arr w) \<and>
     (\<forall>k host port t w. arr (snd (amqp_socket_open_noblock (api P) k host port t w)) = arr w) \<and>
     (\<forall>c vh cm fm hb sasl u p w. arr (snd (amqp_login (api P) c vh cm fm hb sasl u p w)) = arr w) \<and>
     (\<forall>c code w. arr (snd (amqp_connection_close (api P) c code w)) = arr w) \<and>
     (\<forall>c w. arr (amqp_destroy_connection (api P) c w) = arr w) \<and>
     (\<forall>c w. arr (snd (amqp_get_rpc_reply (api P) c w)) = arr w) \<and>
     (\<forall>c ch w. arr (amqp_channel_open (api P) c ch w) = arr w) \<and>
     (\<forall>c ch m w. arr (snd (amqp_send_method (api P) c ch m w)) = arr w) \<and>
     (\<forall>c ch q ex bk tb w. arr (amqp_queue_bind (api P) c ch q ex bk tb w) = arr w) \<and>
     (\<forall>c ch q p d ex a tb h w. arr (snd (snd (amqp_queue_declare (api P) c ch q p d ex a tb h w))) = arr w) \<and>
     (\<forall>c ch q tag nl na ex tb w. arr (amqp_basic_consume (api P) c ch q tag nl na ex tb w) = arr w)"

interpretation arr_calls: consumer_calls P "\<lambda>w w'. records_arrivals arr P \<longrightarrow> arr w' = arr w"
  for arr :: "'w \<Rightarrow> arrival list" and P :: "'w platform"
  by unfold_locales (auto simp: records_arrivals_def)

lemma arrivals_kept:
  assumes "records_arrivals arr P"
  shows "arr (snd (amqp_maybe_release_buffers (api P) c h w)) = arr w"
    and "arr (snd (amqp_destroy_envelope (api P) e h w)) = arr w"
  using assms by (simp_all add: records_arrivals_def)

lemma arrival_recorded:
  assumes "records_arrivals arr P" and "amqp_consume_message (api P) c t fl h w = (reply, e, hp, w')"
  shows "arr w' = arr w @ (if decodeRpcReply (codes P) reply = ALL_GOOD
     then case e of None \<Rightarrow> [] | Some env \<Rightarrow> [arrival_of hp env] else [])"
  using assms(1) [unfolded records_arrivals_def, THEN conjunct1, rule_format, OF assms(2)] .

section \<open>Dispatching\<close>

text \<open>Between two states: what has arrived has been dispatched by the table of callbacks.\<close>

definition dispatched :: "('w \<Rightarrow> arrival list) \<Rightarrow> Consumer \<Rightarrow> 'w rt \<Rightarrow> Consumer \<Rightarrow> 'w rt \<Rightarrow> bool" where
  "dispatched arr c s c' s' \<longleftrightarrow> (\<exists>new. arr (rt_world s') = arr (rt_world s) @ new \<and>
     map callee (calls c') =
       map callee (calls c) @ concat (map (dispatch (callback_of (m_channelHandler c))) new))"

lemma dispatched_none:
  "arr (rt_world s') = arr (rt_world s) \<Longrightarrow> calls c' = calls c \<Longrightarrow> dispatched arr c s c' s'"
  by (auto simp: dispatched_def)

lemma dispatched_trans:
  assumes "dispatched arr c s c1 s1" and "dispatched arr c1 s1 c2 s2"
    and "callback_of (m_channelHandler c1) = callback_of (m_channelHandler c)"
  shows "dispatched arr c s c2 s2"
  using assms unfolding dispatched_def by fastforce

lemma handle_envelope_dispatches:
  assumes rec: "records_arrivals arr P" and inv: "cons_inv lib P c s"
    and e: "envelope_readable (flags P) (rt_heap s) e"
    and run: "handle_envelope P (Some e) c s = Inr (c', s')"
  shows "map callee (calls c') = map callee (calls c) @
      dispatch (callback_of (m_channelHandler c)) (arrival_of (rt_heap s) e)"
    and "arr (rt_world s') = arr (rt_world s)"
proof -
  note d = cons_invD [OF inv]
  have wf: "heap_wf (rt_heap s)" using d(5) by (simp add: lib_inv_def)
  from e obtain b ex rk where ld: "load_bytes (rt_heap s) (env_body e) = Inr b"
      and ex: "deref_bytes (rt_heap s) (env_exchange e) = Inr ex"
      and rk: "deref_bytes (rt_heap s) (env_routing_key e) = Inr rk"
      and props: "props_readable (flags P) (rt_heap s) (env_properties e)"
    by (auto simp: envelope_readable_def okr_def deref_bytes_def bindr_eq_Inr_iff)
  from Message_envelope_ok [OF d(4) wf ld props] obtain m hp1 where
      m: "Message_envelope (flags P) (bapi P) e (rt_heap s) = Inr (m, hp1)" "heap_le (rt_heap s) hp1"
    by (auto simp: okr_def)
  have inl: "\<not> m_multiThreaded (m_channelHandler c)" using inv by (simp add: cons_inv_def)
  let ?bp = "\<lparr>m_exchangeName = ex, m_routingKey = rk\<rparr>"
  define call where "call = (if ab_len (env_exchange e) = 0 then None
      else map_option (\<lambda>f. CallInline f m) (callback_of (m_channelHandler c) ?bp))"
  have pr: "(if ab_len (env_exchange e) = 0 then Inr (None, hp1)
      else bindr (deref_bytes hp1 (env_exchange e)) (\<lambda>exchange.
           bindr (deref_bytes hp1 (env_routing_key e)) (\<lambda>routing_key.
           Process (flags P) (bapi P) \<lparr>m_exchangeName = exchange, m_routingKey = routing_key\<rparr> m
             (m_channelHandler c) hp1))) = Inr (call, hp1)"
    using heap_le_deref_bytes [OF m(2) ex] heap_le_deref_bytes [OF m(2) rk]
      Process_inline [OF d(6) inl] by (simp add: call_def)
  obtain hp3 w where de: "amqp_destroy_envelope (api P) e hp1 (rt_world s) = (hp3, w)" by fastforce
  have "handle_envelope P (Some e) c s = bindr (Message_destroy m hp3) (\<lambda>hp4.
      Inr (c\<lparr>calls := calls c @ (case call of None \<Rightarrow> [] | Some f \<Rightarrow> [f])\<rparr>,
           s\<lparr>rt_heap := hp4, rt_world := w\<rparr>))"
    using m(1) de by (simp add: handle_envelope_def pr del: if_split)
  with run have c': "c' = c\<lparr>calls := calls c @ (case call of None \<Rightarrow> [] | Some f \<Rightarrow> [f])\<rparr>"
      and w': "rt_world s' = w"
    by (auto simp: bindr_eq_Inr_iff)
  have s': "arr (rt_world s') = arr (rt_world s)"
    using arrivals_kept(2) [OF rec, of e hp1 "rt_world s"] de w' by simp
  show "arr (rt_world s') = arr (rt_world s)" by (rule s')
  have "ab_len (env_exchange e) = 0 \<longleftrightarrow> ex = []" using deref_bytes_length [OF ex] by auto
  then show "map callee (calls c') = map callee (calls c) @
      dispatch (callback_of (m_channelHandler c)) (arrival_of (rt_heap s) e)"
    unfolding c' using ex rk
    by (auto simp: call_def dispatch_def arrival_of_def text_at_def split: option.split)
qed

lemma pull_dispatches:
  assumes rec: "records_arrivals arr P" and inv: "cons_inv lib P c s" and init: "m_isInitialized c"
    and run: "pullNextMessage P c s = Inr (c', s')"
  shows "dispatched arr c s c' s'"
proof -
  from inv init obtain k where k: "m_connection c = Some k" "consumer_connection c = Inr k" "conn_inv P k"
    by (rule cons_inv_connectionE)
  show ?thesis
  proof (cases "IsConnected k")
    case False
    with run k show ?thesis by (auto simp: pullNextMessage_def intro: dispatched_none)
  next
    case True
    from inv k(2,3) True obtain p hp w reply e hp1 w1 where
        rel: "amqp_maybe_release_buffers (api P) p (rt_heap s) (rt_world s) = (hp, w)"
        and got: "amqp_consume_message (api P) p (m_timeout k) 0 hp w = (reply, e, hp1, w1)"
        and st1: "lib_step lib s (s\<lparr>rt_heap := hp1, rt_world := w1\<rparr>)"
        and rd: "decodeRpcReply (codes P) reply = ALL_GOOD \<longrightarrow>
          (\<exists>env. e = Some env \<and> envelope_readable (flags P) hp1 env)"
        and pull: "pullNextMessage P c s = pulled P k (decodeRpcReply (codes P) reply) e c (s\<lparr>rt_heap := hp1, rt_world := w1\<rparr>)"
      by (rule pull_connectedE)
    let ?s1 = "s\<lparr>rt_heap := hp1, rt_world := w1\<rparr>"
    have inv1: "cons_inv lib P c (s\<lparr>rt_heap := hp1, rt_world := w1\<rparr>)"
      using cons_inv_step [OF inv st1] .
    let ?r = "decodeRpcReply (codes P) reply"
    have arr: "arr w1 = arr (rt_world s) @ (if ?r = ALL_GOOD
        then case e of None \<Rightarrow> [] | Some env \<Rightarrow> [arrival_of hp1 env] else [])"
      using arrival_recorded [OF rec got] arrivals_kept(1) [OF rec, of p "rt_heap s" "rt_world s"] rel
      by simp
    show ?thesis
    proof (cases "?r = ALL_GOOD")
      case True
      with rd obtain env where env: "e = Some env" "envelope_readable (flags P) (rt_heap ?s1) env"
        by auto
      from True run pull [unfolded pulled_def] env(1) have "handle_envelope P (Some env) c ?s1 = Inr (c', s')" by simp
      from handle_envelope_dispatches [OF rec inv1 env(2) this] True arr env(1) show ?thesis
        by (auto simp: dispatched_def)
    next
      case False
      with run pull [unfolded pulled_def] have "calls c' = calls c \<and> arr (rt_world s') = arr w1"
        using rec arr_calls.W_CloseConnection [where arr = arr and P = P]
        by (fastforce simp: bindr_eq_Inr_iff split: if_splits)
      with False arr show ?thesis by (intro dispatched_none) simp_all
    qed
  qed
qed

section \<open>Every action\<close>

interpretation arr_rel: consumer_relation lib P "\<lambda>x y. records_arrivals arr P \<longrightarrow>
    callback_of (m_channelHandler (fst y)) = callback_of (m_channelHandler (fst x)) \<and>
    dispatched arr (fst x) (snd x) (fst y) (snd y)"
  for lib :: "'w \<Rightarrow> nat set" and P :: "'w platform" and arr :: "'w \<Rightarrow> arrival list"
proof (unfold_locales, goal_cases)
  case (1 c' c s)
  then show ?case by (auto intro: dispatched_none)
next
  case (2 x y z)
  then show ?case by (auto intro: dispatched_trans)
next
  case (3 c s k r k' s')
  then show ?case using arr_calls.W_Connect [OF 3(3)] by (auto intro: dispatched_none)
next
  case (4 c s k r k' s')
  then show ?case using arr_calls.W_CloseConnection [OF 4(3)] by (auto intro: dispatched_none)
next
  case (5 c s ch r c' s')
  then show ?case
    using setupAndConsume_ok [OF 5(1-3)] arr_calls.W_setupAndConsume [OF 5(4)]
    by (auto simp: okr_def setup_outcome_def same_consumer_def same_tables_def intro: dispatched_none)
next
  case (6 c s c' s')
  then show ?case
    using pullNextMessage_ok [OF 6(1,2)] pull_dispatches [OF _ 6]
    by (auto simp: okr_def same_consumer_def same_tables_def)
qed

lemma Subscribe_calls: "Subscribe ex key f qp c = Inr (r, c') \<Longrightarrow> calls c' = calls c"
  by (auto simp: Subscribe_def pushIntoPendingChannels_def Let_def bindr_eq_Inr_iff split: if_splits)

lemma act_dispatches:
  assumes rec: "records_arrivals arr P" and inv: "consumer_inv lib P c s"
    and env: "\<And>t. a = C_Environment t \<Longrightarrow> arr (rt_world t) = arr (rt_world s)"
    and act: "consumer_act P a c s = Inr (c', s')"
  shows "dispatched arr c s c' s'"
proof (cases "\<exists>ex key f qp. a = C_Subscribe ex key f qp")
  case True
  with act show ?thesis by (auto simp: bindr_eq_Inr_iff intro!: dispatched_none dest: Subscribe_calls)
next
  case False
  show ?thesis
  proof (cases "\<exists>t. a = C_Environment t")
    case True
    with act env show ?thesis by (auto intro: dispatched_none)
  next
    case other: False
    from arr_rel.rel_act [OF inv act, of arr] False other rec show ?thesis by auto
  qed
qed


text \<open>
  The polite broker records its deliveries. A consumer that is connected to it receives the
  message that waits.
\<close>

definition polite_arrivals :: "ref_world \<Rightarrow> arrival list" where
  "polite_arrivals w = map snd (filter (\<lambda>x. fst (snd x) \<noteq> ''basic.consume'') (rw_published w))"

lemma polite_arrivals_simps [simp]:
  "polite_arrivals (w\<lparr>rw_replies := rs\<rparr>) = polite_arrivals w"
  "polite_arrivals (w\<lparr>rw_statuses := xs\<rparr>) = polite_arrivals w"
  "polite_arrivals (w\<lparr>rw_inbox := es\<rparr>) = polite_arrivals w"
  "polite_arrivals (w\<lparr>rw_published := rw_published w @ [x]\<rparr>) =
     polite_arrivals w @ (if fst (snd x) = ''basic.consume'' then [] else [snd x])"
  by (simp_all add: polite_arrivals_def)

lemma deliver_arrival: "arrival_of (snd (deliver m h)) (fst (deliver m h)) = m"
  by (cases m) (simp add: arrival_of_def text_at_def deliver_texts)

lemma polite_records: "records_arrivals polite_arrivals polite_platform"
proof -
  have n: "polite_arrivals (snd (next_reply w)) = polite_arrivals w"
      "polite_arrivals (snd (next_status w)) = polite_arrivals w" for w
    by (simp_all add: next_reply_def next_status_def split: list.split)
  show ?thesis
    using deliver_arrival [of "(''amq.direct'', ''test'', ''hello'')"]
    unfolding records_arrivals_def
    by (auto simp: polite_platform_def polite_api_def ref_api_def n ref_queue_declare_def library_reply_def
        normal_reply_def ref_codes_def decodeRpcReply_def decodeLibraryException_def Let_def split_beta
        split: list.splits) (simp add: polite_arrivals_def)
qed


end
