(* ===== verification/End_To_End.thy ===== *)
theory End_To_End
  imports Process Producer_Interleaving Consumer_Dispatch
begin

text \<open>
  From \<open>Send\<close> to the callback. A producer and a consumer of one process are connected through a
  broker that keeps the order of each exchange and routing key; the theory composes the
  refinement of theory \<open>Producer_Delivery\<close> with the dispatching of theory \<open>Consumer_Dispatch\<close> along
  every run of the process.
\<close>

section \<open>The broker\<close>

text \<open>What is addressed to one pair.\<close>

definition addressed :: "string \<Rightarrow> string \<Rightarrow> arrival \<Rightarrow> bool" where
  "addressed exchange key = (\<lambda>(e, k, body). e = exchange \<and> k = key)"

text \<open>For each pair, what has arrived is what was published, in that order, with omissions only.\<close>

definition fifo :: "('w \<Rightarrow> letter list) \<Rightarrow> ('w \<Rightarrow> arrival list) \<Rightarrow> 'w \<Rightarrow> bool" where
  "fifo out arr w \<longleftrightarrow> (\<forall>exchange key. subseq (filter (addressed exchange key) (arr w))
     (filter (addressed exchange key) (map snd (out w))))"

text \<open>
  The two histories: publishing is the only call that adds to the one, receiving the only one
  that adds to the other, and what a delivery adds keeps the order of its pair.
\<close>

definition histories :: "('w \<Rightarrow> letter list) \<Rightarrow> ('w \<Rightarrow> arrival list) \<Rightarrow> 'w platform \<Rightarrow> bool" where
  "histories out arr P \<longleftrightarrow> records_publishes out P \<and> records_arrivals arr P \<and>
     (\<forall>c ch ex ty n d a i tb w. arr (amqp_exchange_declare (api P) c ch ex ty n d a i tb w) = arr w) \<and>
     (\<forall>c ch ex rk ma im props fs body w.
        arr (snd (amqp_basic_publish (api P) c ch ex rk ma im props fs body w)) = arr w) \<and>
     (\<forall>c h w. out (snd (amqp_maybe_release_buffers (api P) c h w)) = out w) \<and>
     (\<forall>e h w. out (snd (amqp_destroy_envelope (api P) e h w)) = out w) \<and>
     (\<forall>c ch q ex bk tb w. out (amqp_queue_bind (api P) c ch q ex bk tb w) = out w) \<and>
     (\<forall>c ch q n d ex a tb h w. out (snd (snd (amqp_queue_declare (api P) c ch q n d ex a tb h w))) = out w) \<and>
     (\<forall>c ch q tag nl na ex tb w. out (amqp_basic_consume (api P) c ch q tag nl na ex tb w) = out w) \<and>
     (\<forall>c t fl h w. out (snd (snd (snd (amqp_consume_message (api P) c t fl h w)))) = out w \<and>
        (fifo out arr w \<longrightarrow> fifo out arr (snd (snd (snd (amqp_consume_message (api P) c t fl h w))))))"

lemma historiesD:
  assumes "histories out arr P"
  shows "records_publishes out P" and "records_arrivals arr P"
  using assms by (simp_all add: histories_def)

lemma fifo_cong: "out w' = out w \<Longrightarrow> arr w' = arr w \<Longrightarrow> fifo out arr w' = fifo out arr w"
  by (simp add: fifo_def)

lemma fifo_publish: "fifo out arr w \<Longrightarrow> arr w' = arr w \<Longrightarrow> prefix (out w) (out w') \<Longrightarrow> fifo out arr w'"
  by (auto simp: fifo_def prefix_def intro!: subseq_rev_drop_many)

text \<open>What the actions of each side do to the histories.\<close>

interpretation hist_prod: publisher_calls P "\<lambda>w w'. histories out arr P \<longrightarrow> arr w' = arr w"
  for out :: "'w \<Rightarrow> letter list" and arr :: "'w \<Rightarrow> arrival list" and P :: "'w platform"
  by unfold_locales (auto simp: histories_def records_arrivals_def)

interpretation hist_cons: receiver_calls P
    "\<lambda>w w'. histories out arr P \<longrightarrow> out w' = out w \<and> (fifo out arr w \<longrightarrow> fifo out arr w')"
  for out :: "'w \<Rightarrow> letter list" and arr :: "'w \<Rightarrow> arrival list" and P :: "'w platform"
  by unfold_locales
     (auto simp: histories_def recordsD records_arrivals_def cong: fifo_cong)

section \<open>Runs\<close>

definition process_accepts :: "'w process_action \<Rightarrow> 'w process \<Rightarrow> letter option" where
  "process_accepts a x = (case a of ByProducer b \<Rightarrow> producer_accepts b (pr_producer x, pr_rt x) | _ \<Rightarrow> None)"

text \<open>The deliveries between two states: callback and message, by the table of the first state.\<close>

definition deliveries :: "('w \<Rightarrow> arrival list) \<Rightarrow> 'w process \<Rightarrow> 'w process \<Rightarrow> (TD_Callback \<times> arrival) list" where
  "deliveries arr x x' =
     concat (map (\<lambda>m. map (\<lambda>f. (f, m)) (dispatch (callback_of (m_channelHandler (pr_consumer x))) m))
       (drop (length (arr (rt_world (pr_rt x)))) (arr (rt_world (pr_rt x')))))"

text \<open>A permitted action, where others neither publish nor receive on these connections.\<close>

definition process_moves :: "('w \<Rightarrow> nat set) \<Rightarrow> ('w \<Rightarrow> letter list) \<Rightarrow> ('w \<Rightarrow> arrival list) \<Rightarrow> 'w platform \<Rightarrow>
    'w process_action \<Rightarrow> 'w process \<Rightarrow> 'w process \<Rightarrow> bool" where
  "process_moves lib out arr P a x x' \<longleftrightarrow> process_permitted lib P a x \<and> process_act P a x = Inr x' \<and>
     (\<forall>t. a = ByOthers t \<longrightarrow>
        out (rt_world t) = out (rt_world (pr_rt x)) \<and> arr (rt_world t) = arr (rt_world (pr_rt x)))"

text \<open>A run with what was sent on the way and what was delivered to which callback.\<close>

inductive pubsub :: "('w \<Rightarrow> nat set) \<Rightarrow> ('w \<Rightarrow> letter list) \<Rightarrow> ('w \<Rightarrow> arrival list) \<Rightarrow> 'w platform \<Rightarrow>
    'w process \<Rightarrow> letter list \<Rightarrow> (TD_Callback \<times> arrival) list \<Rightarrow> 'w process \<Rightarrow> bool"
    for lib out arr P where
  stay: "pubsub lib out arr P x [] [] x"
| go: "pubsub lib out arr P x sent served x1 \<Longrightarrow> process_moves lib out arr P a x1 x2 \<Longrightarrow>
    pubsub lib out arr P x (sent @ (case process_accepts a x1 of None \<Rightarrow> [] | Some m \<Rightarrow> [m]))
      (served @ deliveries arr x1 x2) x2"

section \<open>The process is a sender\<close>

abbreviation process_box :: "('w \<Rightarrow> letter list) \<Rightarrow> 'w process \<Rightarrow> letter outbox" where
  "process_box out x \<equiv> outbox out (pr_producer x, pr_rt x)"

definition broker_inv :: "('w \<Rightarrow> nat set) \<Rightarrow> ('w \<Rightarrow> letter list) \<Rightarrow> ('w \<Rightarrow> arrival list) \<Rightarrow> 'w platform \<Rightarrow>
    'w process \<Rightarrow> bool" where
  "broker_inv lib out arr P x \<longleftrightarrow>
     process_inv lib P x \<and> histories out arr P \<and> fifo out arr (rt_world (pr_rt x))"

lemma letters_kept:
  assumes "separate lib p c s" and "others_kept lib c s c' s'"
  shows "map (letter (rt_heap s')) (m_sendQueue p) = map (letter (rt_heap s)) (m_sendQueue p)"
  by (rule letters_frame) (use assms in \<open>auto simp: separate_def others_kept_def\<close>)

text \<open>One action: what it does to the outbox, the histories and the calls.\<close>

text \<open>What an action does to the outbox, the histories and the calls.\<close>

definition moved :: "('w \<Rightarrow> letter list) \<Rightarrow> ('w \<Rightarrow> arrival list) \<Rightarrow>
    'w process_action \<Rightarrow> 'w process \<Rightarrow> 'w process \<Rightarrow> bool" where
  "moved out arr a x x' \<longleftrightarrow>
     outbox_steps (accept (process_accepts a x) (process_box out x)) (process_box out x') \<and>
     fifo out arr (rt_world (pr_rt x')) \<and>
     dispatched arr (pr_consumer x) (pr_rt x) (pr_consumer x') (pr_rt x')"

lemma producer_moves:
  assumes inv: "broker_inv lib out arr P x" and perm: "process_permitted lib P (ByProducer b) x"
    and act: "process_act P (ByProducer b) x = Inr x'"
  shows "moved out arr (ByProducer b) x x'"
proof -
  from inv have p: "process_inv lib P x" and h: "histories out arr P"
      and f: "fifo out arr (rt_world (pr_rt x))" by (simp_all add: broker_inv_def)
  note d = process_invD [OF p] and rec = historiesD [OF h]
  from d(4) have core: "core_inv P (pr_producer x) (pr_rt x)" by (simp add: producer_inv_def)
  from perm have b: "permitted P b (pr_producer x) (pr_rt x)" "\<And>t. b \<noteq> A_Environment t" by auto
  from act obtain q s where
      st: "producer_action P b (pr_producer x) (pr_rt x) = Inr (q, s)"
      and x': "x' = x\<lparr>pr_producer := q, pr_rt := s\<rparr>"
    by (auto simp: bindr_eq_Inr_iff)
  have sim: "outbox_steps (accept (producer_accepts b (pr_producer x, pr_rt x)) (process_box out x)) (outbox out (q, s))"
    by (rule action_simulated [OF rec(1) d(4) b(1) _ st]) (use b(2) in blast)
  have "arr (rt_world s) = arr (rt_world (pr_rt x))"
    using hist_prod.W_producer_action [OF core b(1) st b(2), of out arr] h by blast
  moreover have "prefix (out (rt_world (pr_rt x))) (out (rt_world s))"
    using delivered_steps [OF sim] by (simp add: accept_def outbox_def)
  ultimately show ?thesis
    using sim f x' by (auto simp: moved_def process_accepts_def intro: dispatched_none fifo_publish)
qed

lemma consumer_moves:
  assumes inv: "broker_inv lib out arr P x" and perm: "process_permitted lib P (ByConsumer b) x"
    and act: "process_act P (ByConsumer b) x = Inr x'"
  shows "moved out arr (ByConsumer b) x x'"
proof -
  from inv have p: "process_inv lib P x" and h: "histories out arr P"
      and f: "fifo out arr (rt_world (pr_rt x))" by (simp_all add: broker_inv_def)
  note d = process_invD [OF p] and rec = historiesD [OF h]
  from perm have b: "\<And>t. b \<noteq> C_Environment t" by auto
  from act obtain c s where
      st: "consumer_act P b (pr_consumer x) (pr_rt x) = Inr (c, s)"
      and x': "x' = x\<lparr>pr_consumer := c, pr_rt := s\<rparr>"
    by (auto simp: bindr_eq_Inr_iff)
  from hist_cons.W_consumer_act [OF d(5) st b, of out arr] h f
  have "out (rt_world s) = out (rt_world (pr_rt x))" "fifo out arr (rt_world s)" by blast+
  moreover have "dispatched arr (pr_consumer x) (pr_rt x) c s"
    by (rule act_dispatches [OF rec(2) d(5) _ st]) (use b in blast)
  ultimately show ?thesis
    using letters_kept [OF d(6) act_keeps_others [OF d(5) st b]] x'
    by (simp add: moved_def process_accepts_def outbox_def del: map_eq_conv)
qed

lemma process_moves_effect:
  assumes inv: "broker_inv lib out arr P x" and move: "process_moves lib out arr P a x x'"
  shows "outbox_steps (accept (process_accepts a x) (process_box out x)) (process_box out x')"
    and "fifo out arr (rt_world (pr_rt x'))"
    and "dispatched arr (pr_consumer x) (pr_rt x) (pr_consumer x') (pr_rt x')"
proof -
  from move have perm: "process_permitted lib P a x" and act: "process_act P a x = Inr x'"
      and env: "\<And>t. a = ByOthers t \<Longrightarrow> out (rt_world t) = out (rt_world (pr_rt x)) \<and>
        arr (rt_world t) = arr (rt_world (pr_rt x))"
    by (auto simp: process_moves_def)
  have "moved out arr a x x'"
  proof (cases a)
    case (ByProducer b)
    with inv perm act show ?thesis by (auto intro: producer_moves simp del: process_permitted.simps process_act.simps)
  next
    case (ByConsumer b)
    with inv perm act show ?thesis by (auto intro: consumer_moves simp del: process_permitted.simps process_act.simps)
  next
    case (ByOthers t)
    from inv have p: "process_inv lib P x" and f: "fifo out arr (rt_world (pr_rt x))"
      by (simp_all add: broker_inv_def)
    from ByOthers act have x': "x' = x\<lparr>pr_rt := t\<rparr>" by simp
    from ByOthers perm have "lib_step lib (pr_rt x) t" by simp
    from letters_kept [OF process_invD(6) [OF p] others_kept_step [OF this refl]] env [OF ByOthers] f x' ByOthers
    show ?thesis
      by (auto simp: moved_def process_accepts_def outbox_def fifo_def intro: dispatched_none simp del: map_eq_conv)
  qed
  then show "outbox_steps (accept (process_accepts a x) (process_box out x)) (process_box out x')"
    and "fifo out arr (rt_world (pr_rt x'))"
    and "dispatched arr (pr_consumer x) (pr_rt x) (pr_consumer x') (pr_rt x')"
    by (simp_all add: moved_def)
qed

interpretation proc_out: outbox_sender "process_box out" "broker_inv lib out arr P"
    "process_moves lib out arr P" process_accepts
  for lib :: "'w \<Rightarrow> nat set" and out :: "'w \<Rightarrow> letter list" and arr :: "'w \<Rightarrow> arrival list"
    and P :: "'w platform"
proof
  fix x x' :: "'w process" and a
  assume i: "broker_inv lib out arr P x" and m: "process_moves lib out arr P a x x'"
  from i m process_act_ok [of lib P x a] process_moves_effect(2) [OF i m] show "broker_inv lib out arr P x'"
    by (auto simp: broker_inv_def process_moves_def okr_def)
  show "outbox_steps (accept (process_accepts a x) (process_box out x)) (process_box out x')"
    by (rule process_moves_effect(1) [OF i m])
qed

lemma pubsub_logged:
  "pubsub lib out arr P x sent served x' \<Longrightarrow> logged (process_moves lib out arr P) process_accepts x sent x'"
  by (induction rule: pubsub.induct) (auto intro: logged.stay logged.go)

section \<open>End to end\<close>

lemma dispatch_once: "dispatch cb m = [] \<or> (\<exists>f. dispatch cb m = [f])"
  by (auto simp: dispatch_def split: prod.splits option.splits)

lemma served_subseq: "subseq (map snd (concat (map (\<lambda>m. map (\<lambda>f. (f, m)) (dispatch cb m)) ms))) ms"
proof (induction ms)
  case (Cons m ms)
  with dispatch_once [of cb m] show ?case by auto
qed simp

lemma deliveries_dispatched:
  assumes "dispatched arr (pr_consumer x) (pr_rt x) (pr_consumer x') (pr_rt x')"
  shows "map callee (calls (pr_consumer x')) = map callee (calls (pr_consumer x)) @ map fst (deliveries arr x x')"
    and "\<exists>new. arr (rt_world (pr_rt x')) = arr (rt_world (pr_rt x)) @ new \<and> subseq (map snd (deliveries arr x x')) new"
proof -
  from assms obtain new where new: "arr (rt_world (pr_rt x')) = arr (rt_world (pr_rt x)) @ new"
      and calls: "map callee (calls (pr_consumer x')) = map callee (calls (pr_consumer x)) @
        concat (map (dispatch (callback_of (m_channelHandler (pr_consumer x)))) new)"
    by (auto simp: dispatched_def)
  show "map callee (calls (pr_consumer x')) = map callee (calls (pr_consumer x)) @ map fst (deliveries arr x x')"
    using new calls by (simp add: deliveries_def map_concat comp_def)
  show "\<exists>new. arr (rt_world (pr_rt x')) = arr (rt_world (pr_rt x)) @ new \<and> subseq (map snd (deliveries arr x x')) new"
    using new served_subseq [of "callback_of (m_channelHandler (pr_consumer x))" new]
    by (auto simp: deliveries_def)
qed

lemma pubsub_served:
  assumes "pubsub lib out arr P x sent served x'" and "broker_inv lib out arr P x"
  shows "map callee (calls (pr_consumer x')) = map callee (calls (pr_consumer x)) @ map fst served"
    and "\<exists>new. arr (rt_world (pr_rt x')) = arr (rt_world (pr_rt x)) @ new \<and> subseq (map snd served) new"
  using assms
proof (induction rule: pubsub.induct)
  case (go x sent served x1 a x2)
  {
    case 1
    from proc_out.logged_inv [OF pubsub_logged [OF go.hyps(1)] 1] have "broker_inv lib out arr P x1" .
    from deliveries_dispatched(1) [OF process_moves_effect(3) [OF this go.hyps(2)]] go.IH(1) [OF 1]
    show ?case by simp
  next
    case 2
    from proc_out.logged_inv [OF pubsub_logged [OF go.hyps(1)] 2] have "broker_inv lib out arr P x1" .
    from deliveries_dispatched(2) [OF process_moves_effect(3) [OF this go.hyps(2)]] go.IH(2) [OF 2]
    show ?case by (auto intro: list_emb_append_mono)
  }
qed simp_all


section \<open>A message on its way\<close>

text \<open>The loopback broker keeps both histories.\<close>

lemma loop_histories: "histories lw_letters lw_arrived loop_platform"
proof -
  note loop_records
  moreover have "records_arrivals lw_arrived loop_platform"
    by (auto simp: records_arrivals_def loop_platform_def loop_api_def loop_consume_def lw_arrived_def
        deliver_arrival library_reply_def normal_reply_def ref_codes_def decodeRpcReply_def
        decodeLibraryException_def Let_def split: list.splits)
  moreover have "fifo lw_letters lw_arrived w" for w
    by (simp add: fifo_def lw_letters_def lw_arrived_def subseq_rev_drop_many)
  ultimately show ?thesis
    by (auto simp: histories_def loop_platform_def loop_api_def loop_consume_def lw_letters_def
        lw_arrived_def split: list.splits)
qed

text \<open>Actions whose permission is plain to see, and a run of such actions.\<close>

fun plainly_permitted :: "'w process_action \<Rightarrow> 'w process \<Rightarrow> bool" where
  "plainly_permitted (ByProducer (A_Initialize server port user pw)) x \<longleftrightarrow> \<not> Producer.m_threadRunning (pr_producer x)"
| "plainly_permitted (ByProducer A_Start) x \<longleftrightarrow> True"
| "plainly_permitted (ByProducer A_Thread) x \<longleftrightarrow> True"
| "plainly_permitted (ByConsumer (C_Initialize server port user pw)) x \<longleftrightarrow> \<not> Consumer.m_threadRunning (pr_consumer x)"
| "plainly_permitted (ByConsumer (C_Subscribe ex key f qp)) x \<longleftrightarrow>
     m_nextAvailableChannel (m_channelHandler (pr_consumer x)) < INT_MAX"
| "plainly_permitted (ByConsumer C_Start) x \<longleftrightarrow> True"
| "plainly_permitted (ByConsumer C_Thread) x \<longleftrightarrow> True"
| "plainly_permitted a x \<longleftrightarrow> False"

fun play :: "'w platform \<Rightarrow> 'w process_action list \<Rightarrow> 'w process \<Rightarrow> 'w process option" where
  "play P [] x = Some x"
| "play P (a # as) x =
     (if plainly_permitted a x
      then case process_act P a x of Inl _ \<Rightarrow> None | Inr x' \<Rightarrow> play P as x'
      else None)"

lemma plainly_permitted_moves:
  assumes "plainly_permitted a x" and "process_act P a x = Inr x'"
  shows "process_moves lib out arr P a x x'" and "process_accepts a x = None"
  using assms
  by (induction a x rule: plainly_permitted.induct)
     (auto simp: process_moves_def process_accepts_def producer_accepts_def)

lemma play_pubsub:
  assumes "pubsub lib out arr P x0 sent served x" and "play P as x = Some x'"
  shows "\<exists>more. pubsub lib out arr P x0 sent (served @ more) x'"
  using assms
proof (induction as arbitrary: x served)
  case Nil
  then show ?case by (intro exI [of _ "[]"]) simp
next
  case (Cons a as)
  from Cons.prems(2) obtain x1 where st: "plainly_permitted a x" "process_act P a x = Inr x1"
      and rest: "play P as x1 = Some x'"
    by (auto split: if_splits sum.splits)
  from pubsub.go [OF Cons.prems(1) plainly_permitted_moves(1) [OF st]] plainly_permitted_moves(2) [OF st]
  have "pubsub lib out arr P x0 sent (served @ deliveries arr x x1) x1" by simp
  from Cons.IH [OF this rest] show ?case by (metis append.assoc)
qed

text \<open>The start, with the body of a message on the heap, and the state after sending it.\<close>

definition after_send :: "loop_world process" where
  "after_send = (case process_act loop_platform (ByProducer (A_Send ''amq.direct'' ''test'' plain_message))
     (new_process loop_start) of Inr x \<Rightarrow> x | Inl _ \<Rightarrow> new_process loop_start)"

definition rest_of_the_way :: "loop_world process_action list" where
  "rest_of_the_way =
     [ByConsumer (C_Initialize ''localhost'' 5672 ''guest'' ''guest''),
      ByConsumer (C_Subscribe ''amq.direct'' ''test'' 7 default_queueProperties), ByConsumer C_Start,
      ByProducer (A_Initialize ''localhost'' 5672 ''guest'' ''guest''), ByProducer A_Start,
      ByProducer A_Thread, ByConsumer C_Thread, ByProducer A_Thread, ByConsumer C_Thread,
      ByProducer A_Thread, ByProducer A_Thread, ByConsumer C_Thread]"

lemma loop_plays:
  "map_option (\<lambda>x. map callee (calls (pr_consumer x))) (play loop_platform rest_of_the_way after_send) = Some [7]"
  by code_simp

lemma loop_send:
  "okr (Send loop_platform ''amq.direct'' ''test'' plain_message Producer_init sample_heap)
     (\<lambda>(r, p', hp'). fully_allocated (last (m_sendQueue p')))"
  by (simp add: Send_def addExchange_def Producer_init_def ExchangeProperties_init_def
      hare_cstring_bytes_def malloc_def sample_heap_def c_str_def NUL_def plain_message_def
      sample_message_def Bytes_def loop_platform_def polite_dup_def load_bytes_def fully_allocated_def
      int_incr_def Let_def)

lemma loop_sent:
  "pubsub (\<lambda>_. {}) lw_letters lw_arrived loop_platform (new_process loop_start)
     [(1, ''amq.direct'', ''test'', ''hi'')] [] after_send"
proof -
  let ?a = "ByProducer (A_Send ''amq.direct'' ''test'' plain_message)" and ?x = "new_process loop_start"
  from loop_send obtain r p' hp' where send: "Send loop_platform ''amq.direct'' ''test'' plain_message
      Producer_init sample_heap = Inr (r, p', hp')" "fully_allocated (last (m_sendQueue p'))"
    by (auto simp: okr_def)
  then have act: "process_act loop_platform ?a ?x = Inr after_send"
    by (simp add: after_send_def new_process_def loop_start_def)
  have "m_curChannelNumber Producer_init < INT_MAX" by (simp add: Producer_init_def)
  with send plain_message_sendable
  have "permitted loop_platform (A_Send ''amq.direct'' ''test'' plain_message) Producer_init loop_start"
    by (auto simp: loop_start_def) (auto simp: loop_platform_def)
  with act have move: "process_moves (\<lambda>_. {}) lw_letters lw_arrived loop_platform ?a ?x after_send"
    by (simp add: process_moves_def new_process_def)
  have "process_accepts ?a ?x = Some (1, ''amq.direct'', ''test'', ''hi'')"
    by (simp add: process_accepts_def producer_accepts_def send_letter_def addExchange_def Producer_init_def
        upto_NUL_def NUL_def plain_message_def sample_message_def Bytes_def text_at_def new_process_def
        loop_start_def sample_heap_def deref_bytes_def load_bytes_def c_str_def ExchangeProperties_init_def
        wire_channel_def Let_def)
  moreover have "deliveries lw_arrived ?x after_send = []"
    using send by (simp add: deliveries_def after_send_def new_process_def loop_start_def)
  ultimately show ?thesis using pubsub.go [OF pubsub.stay move] by simp
qed


end
