(* ===== verification/Repository_Tests.thy ===== *)
theory Repository_Tests
  imports End_To_End
begin

text \<open>
  The repository's own tests (\<open>test/src\<close>), replayed on the model over the loopback broker: the codes
  that the tests of the interface expect of sequences of life-cycle calls, what the tests of
  messages read back, and a message that goes through a producer to the callback of a consumer.
  They are evaluated, so they compare the model with what the authors expect of the program.
\<close>

section \<open>The tests of the interface\<close>

datatype api_call = Call_Initialize | Call_Start | Call_Stop | Call_Restart

primrec producer_api :: "api_call \<Rightarrow> Producer \<Rightarrow> loop_world rt \<Rightarrow> (HARE_ERROR_E \<times> Producer \<times> loop_world rt) res" where
  "producer_api Call_Initialize p s = Producer_Initialize loop_platform ''rabbit-serv'' 5672 ''guest'' ''guest'' p s"
| "producer_api Call_Start p s = producer_start p s"
| "producer_api Call_Stop p s = Producer_Stop loop_platform p s"
| "producer_api Call_Restart p s = Producer_Restart loop_platform p s"

primrec consumer_api :: "api_call \<Rightarrow> Consumer \<Rightarrow> loop_world rt \<Rightarrow> (HARE_ERROR_E \<times> Consumer \<times> loop_world rt) res" where
  "consumer_api Call_Initialize c s = Consumer_Initialize loop_platform ''rabbit-serv'' 5672 ''guest'' ''guest'' c s"
| "consumer_api Call_Start c s = consumer_start c s"
| "consumer_api Call_Stop c s = Consumer_Stop loop_platform c s"
| "consumer_api Call_Restart c s = Consumer_Restart loop_platform c s"

text \<open>The codes that a sequence of calls returns, and the object after them.\<close>

fun codes_of :: "(api_call \<Rightarrow> 'o \<Rightarrow> 's \<Rightarrow> (HARE_ERROR_E \<times> 'o \<times> 's) res) \<Rightarrow> api_call list \<Rightarrow> 'o \<Rightarrow> 's \<Rightarrow>
    (HARE_ERROR_E list \<times> 'o) res" where
  "codes_of f [] x s = Inr ([], x)"
| "codes_of f (k # ks) x s =
     bindr (f k x s) (\<lambda>(r, x', s'). bindr (codes_of f ks x' s') (\<lambda>(rs, y). Inr (r # rs, y)))"

text \<open>A check of a result that has to be there: a fault fails it.\<close>

definition passes :: "'a res \<Rightarrow> ('a \<Rightarrow> bool) \<Rightarrow> bool" where
  "passes r Q = (case r of Inl _ \<Rightarrow> False | Inr x \<Rightarrow> Q x)"

text \<open>The calls on a new object, the codes expected, whether it is initialised and whether it runs.\<close>

definition api_tests :: "(api_call list \<times> HARE_ERROR_E list \<times> bool \<times> bool) list" where
  "api_tests =
     [([], [], False, False),
      ([Call_Initialize], [ALL_GOOD], True, False),
      ([Call_Initialize, Call_Start], [ALL_GOOD, ALL_GOOD], True, True),
      ([Call_Start], [NOT_INITIALIZED], False, False),
      ([Call_Initialize, Call_Stop], [ALL_GOOD, THREAD_NOT_RUNNING], True, False),
      ([Call_Initialize, Call_Start, Call_Stop], [ALL_GOOD, ALL_GOOD, ALL_GOOD], True, False),
      ([Call_Initialize, Call_Restart], [ALL_GOOD, THREAD_NOT_RUNNING], True, False),
      ([Call_Restart], [NOT_INITIALIZED], False, False),
      ([Call_Initialize, Call_Start, Call_Restart], [ALL_GOOD, ALL_GOOD, ALL_GOOD], True, True)]"

lemma producer_api_tests:
  "list_all (\<lambda>(ks, rs, initialized, running). passes (codes_of producer_api ks Producer_init loop_rt)
     (\<lambda>(codes, p). codes = rs \<and> Producer_IsInitialized p = initialized \<and> Producer_IsRunning p = running)) api_tests"
  by code_simp

lemma consumer_api_tests:
  "list_all (\<lambda>(ks, rs, initialized, running). passes (codes_of consumer_api ks Consumer_init loop_rt)
     (\<lambda>(codes, c). codes = rs \<and> Consumer_IsInitialized c = initialized \<and> Consumer_IsRunning c = running)) api_tests"
  by code_simp

definition queue_size_tests :: bool where
  "queue_size_tests \<longleftrightarrow> QueueSize Producer_init = 0 \<and>
     passes (producer_api Call_Initialize Producer_init loop_rt) (\<lambda>(r, p, s).
     passes (Message_move_string ''hello world'' (rt_heap s)) (\<lambda>(newMessage, h).
     passes (Send loop_platform ''amq.direct'' ''test'' newMessage p h) (\<lambda>(r1, p1, h1).
       QueueSize p1 = 1 \<and>
       passes (Send loop_platform ''amq.direct'' ''test'' newMessage p1 h1) (\<lambda>(r2, p2, h2). QueueSize p2 = 2))))"

lemma producer_queue_size_tests: queue_size_tests
  by code_simp

section \<open>The tests of messages\<close>

definition blank_message_tests :: bool where
  "blank_message_tests \<longleftrightarrow>
     Length Message_default = Inr 0 \<and> Payload Message_default = Inr Null \<and>
     Message_String empty_heap Message_default = Inr '''' \<and>
     \<not> ReplyToIsSet ref_flags Message_default \<and> \<not> HasCorrelationId ref_flags Message_default \<and>
     \<not> TimestampIsSet ref_flags Message_default"

definition text_message_tests :: bool where
  "text_message_tests \<longleftrightarrow>
     passes (Message_string ''Hello World'' empty_heap) (\<lambda>(m, h).
       Length m = Inr 11 \<and> Message_String h m = Inr ''Hello World'' \<and>
       passes (Payload m) (\<lambda>p. mem_at h p = Inr (c_str ''Hello World'')))"

text \<open>The strings handed to \<open>SetReplyTo\<close> and \<open>SetCorrelationId\<close> are borrowed; here they stay alive.\<close>

definition blah_heap :: heap where
  "blah_heap = \<lparr>h_next = 1, h_blocks = [0 \<mapsto> c_str ''blah''], h_oom = (\<lambda>_. False)\<rparr>"

definition setter_tests :: bool where
  "setter_tests \<longleftrightarrow>
     passes (SetPayload (c_str ''hello world'') Message_default empty_heap) (\<lambda>(m, h).
       passes (Payload m) (\<lambda>p. mem_at h p = Inr (c_str ''hello world''))) \<and>
     passes (SetPayload_void (c_str ''hello world'') 12 Message_default empty_heap) (\<lambda>(m, h).
       passes (Payload m) (\<lambda>p. mem_at h p = Inr (c_str ''hello world''))) \<and>
     passes (SetReplyTo ref_flags ref_bapi blah_heap (Ptr 0) Message_default) (\<lambda>m.
       ReplyToIsSet ref_flags m \<and> ReplyTo ref_flags blah_heap m = Inr ''blah'') \<and>
     passes (SetCorrelationId ref_flags ref_bapi blah_heap (Ptr 0) Message_default) (HasCorrelationId ref_flags) \<and>
     Timestamp ref_flags (SetTimestamp ref_flags 324523 Message_default) = Inr 324523"

definition copyMessageModifyCopy :: bool where
  "copyMessageModifyCopy \<longleftrightarrow>
     passes (SetPayload (c_str ''blahblah'') Message_default empty_heap) (\<lambda>(m1, h1).
     passes (Message_copy ref_flags ref_bapi m1 h1) (\<lambda>(m2, h2).
     passes (SetPayload (c_str ''blah'') m2 h2) (\<lambda>(m3, h3). Length m1 \<noteq> Length m3)))"

lemma message_tests: "blank_message_tests" "text_message_tests" "setter_tests" "copyMessageModifyCopy"
  by code_simp+

text \<open>The tests \<open>copyConstructor\<close> and \<open>copyMessage\<close> copy a message without a body, which is not defined.\<close>

lemma copyConstructor: "\<not> passes (Message_copy ref_flags ref_bapi Message_default empty_heap) (\<lambda>_. True)"
  by code_simp

section \<open>The tests of sending and receiving\<close>

text \<open>
  One round of the loop of such a test: a message is built, sent and destroyed, and both worker
  threads take some steps. \<open>defaultCallback\<close> counts its calls.
\<close>

primrec steps_of :: "nat \<Rightarrow> loop_world process_action \<Rightarrow> loop_world process \<Rightarrow> loop_world process res" where
  "steps_of 0 a x = Inr x"
| "steps_of (Suc n) a x = bindr (process_act loop_platform a x) (steps_of n a)"

definition threads :: "nat \<Rightarrow> loop_world process \<Rightarrow> loop_world process res" where
  "threads n x = bindr (steps_of n (ByProducer A_Thread) x) (steps_of n (ByConsumer C_Thread))"

definition test_round :: "string \<Rightarrow> loop_world process \<Rightarrow> loop_world process res" where
  "test_round exchange x =
     bindr (Message_move_string ''hello world'' (rt_heap (pr_rt x))) (\<lambda>(newMessage, h).
     bindr (Send loop_platform exchange ''test'' newMessage (pr_producer x) h) (\<lambda>(r, p, h1).
     bindr (Message_destroy newMessage h1) (\<lambda>h2.
     threads 5 (x\<lparr>pr_producer := p, pr_rt := (pr_rt x)\<lparr>rt_heap := h2\<rparr>\<rparr>))))"

definition received :: "loop_world process \<Rightarrow> nat" where
  "received x = length (calls (pr_consumer x))"

fun do_all :: "loop_world process_action list \<Rightarrow> loop_world process \<Rightarrow> loop_world process res" where
  "do_all [] x = Inr x"
| "do_all (a # as) x = bindr (process_act loop_platform a x) (do_all as)"

definition set_up :: "string list \<Rightarrow> loop_world process res" where
  "set_up exchanges = do_all
     ([ByConsumer (C_Initialize ''rabbit-serv'' 5672 ''guest'' ''guest''),
       ByProducer (A_Initialize ''rabbit-serv'' 5672 ''guest'' ''guest'')] @
      map (\<lambda>ex. ByConsumer (C_Subscribe ex ''test'' 0 default_queueProperties)) exchanges @
      map (\<lambda>ex. ByProducer (A_DeclareExchange ex ''direct'')) exchanges @
      [ByProducer A_Start, ByConsumer C_Start])
     (new_process loop_rt)"

text \<open>\<open>exchangeDeclareTest\<close>, with one message in place of five.\<close>

definition exchangeDeclareTest :: bool where
  "exchangeDeclareTest \<longleftrightarrow>
     passes (bindr (set_up [''newExchange'']) (test_round ''newExchange'')) (\<lambda>x. received x = 1)"

lemma exchange_declare_test: exchangeDeclareTest
  by code_simp

end
