(* ===== verification/Spec2Isabelle.thy ===== *)
theory Spec2Isabelle
  imports Message_Typing Logger Producer_Stopping Consumer_Stopping Repository_Tests
begin

text \<open>
  HareCpp is a C++ library over rabbitmq-c: an application declares exchanges and sends messages
  through a \<open>Producer\<close>, and subscribes callbacks to exchange and routing-key pairs through a
  \<open>Consumer\<close>. Each of the two owns a \<open>ConnectionBase\<close>, the only class that talks to the broker, and
  a worker thread that connects, reconnects, opens channels and moves messages. A \<open>Message\<close> owns
  a body on the C heap and carries AMQP properties; a \<open>ChannelHandler\<close> maps subscriptions to
  channel numbers and callbacks.

  \<^bold>\<open>How the program is modelled.\<close> Every function of the library is a HOL function over explicit
  state: the object (a record with the members of the class), the C heap and the world behind
  rabbitmq-c. A fault (null dereference, use after free, double free, read of an indeterminate
  value, access out of bounds, \<open>front()\<close> of an empty queue, \<open>std::terminate\<close>) is a result of its
  own, so a theorem of the form \<open>okr (f x) Q\<close> says that \<open>f x\<close> runs into none of them and that
  \<open>Q\<close> holds of its result. A value that the program has not initialised is \<open>None\<close>; copying it is
  harmless, using it is a fault. rabbitmq-c and the C++ runtime are parameters (the record
  \<open>platform\<close>); what the program relies on is stated as hypotheses with names
  (\<open>basic_flags_ok\<close>, \<open>amqp_codes_ok\<close>, \<open>bytes_api_ok\<close>, \<open>runtime_ok\<close>, \<open>connections_available\<close>,
  \<open>publishing_works\<close>, \<open>releases_only\<close>; for the consumer \<open>consumer_library\<close>, the contract on the memory
  that rabbitmq-c hands out, on filled-in envelopes and accepted queues; for progress \<open>granting\<close>, a
  broker that answers requests with success; for a whole process \<open>process_library\<close>), and
  \<open>Reference_Platform\<close>, \<open>Reference_Library\<close> and \<open>Loopback_Broker\<close> hold concrete instances, with the
  constants of rabbitmq-c, scripted brokers and one that returns what is published, on which the
  theorems are applied. What passes over the wire is read off the world by functions of the
  theorems' own (\<open>out\<close>, \<open>acc\<close>, \<open>arr\<close>), with the hypotheses \<open>records_publishes\<close>, \<open>tracks_consumers\<close>,
  \<open>records_arrivals\<close> and \<open>histories\<close> saying which calls add to them.

  \<^bold>\<open>Theories and sources.\<close>
  \<^item> \<open>Prelude\<close>: faults, results, total correctness, \<open>int\<close> increments, association lists for
    \<open>std::unordered_map\<close>. \<open>Memory\<close>: \<open>malloc\<close>, \<open>free\<close>, \<open>memcpy\<close>, \<open>strlen\<close> on a heap of blocks, with an
    oracle for failing allocations.
  \<^item> \<open>Amqp\<close>: the types, constants and functions of rabbitmq-c that the program uses, as parameters.
  \<^item> \<open>ErrorCodes\<close> (\<open>include/ErrorCodes.hpp\<close>), \<open>Utils\<close> (\<open>include/Utils.hpp\<close>), \<open>HelperStructs\<close>
    (\<open>include/HelperStructs.hpp\<close>), \<open>Logger\<close> (\<open>src/Logger.cpp\<close>).
  \<^item> \<open>Message\<close> (\<open>src/Message.cpp\<close>, \<open>include/Message.hpp\<close>): constructors, destructor, assignment,
    accessors. The properties say which contents come back out, that copies are independent, and
    where the class leaks, double frees or keeps a borrowed pointer. \<open>Message_Typing\<close> gives the type
    of a message object that every setter keeps and on which every accessor is defined.
  \<^item> \<open>ChannelHandler\<close> (\<open>src/ChannelHandler.cpp\<close>, \<open>include/ChannelHandler.hpp\<close>,
    \<open>include/HashableBindingPair.hpp\<close>): two lookup tables over a store of shared objects. The
    invariant \<open>handler_inv\<close> ties the tables together; the handler refines a map from pairs to
    callbacks (\<open>callback_of\<close>) and one from pairs to channels (\<open>channel_of\<close>).
  \<^item> \<open>ConnectionBase\<close> (\<open>src/ConnectionBase.cpp\<close>): connecting, closing, channels, queues, publishing,
    and the decoding of replies. The invariant \<open>conn_inv\<close> says that an object that claims to be
    connected holds an allocated connection state.
  \<^item> \<open>Producer\<close> (\<open>src/Producer_api.cpp\<close>, \<open>src/Producer_priv.cpp\<close>): exchanges, send queue, worker
    thread, life cycle. \<open>core_inv\<close> holds between any two steps (the queue owns its buffers alone
    and they are readable, channels are numbered densely, the connection satisfies \<open>conn_inv\<close>);
    \<open>thread_inv\<close> ties the thread to the running flag. \<open>Producer_System\<close> puts the method calls, the
    thread's steps and an arbitrary environment into one transition system, whose reachable
    states satisfy both, and proves what becomes of messages, memory and channels.
    \<open>Producer_Delivery\<close> shows that the producer refines the abstract \<open>Outbox\<close>, so that messages
    reach the broker in the order of sending; \<open>Producer_Memory\<close> that the heap outside its queue is
    never touched and nothing is left behind there; \<open>Producer_Stopping\<close> takes \<open>Stop\<close> apart at its
    join and lets other threads send in between. \<open>Producer_Interleaving\<close> takes \<open>Send\<close> and
    \<open>publishNextInQueue\<close> apart at their locks: no interleaving of the parts faults or changes the
    order of the messages, but a message for a new exchange can be published before its channel
    is opened.
  \<^item> \<open>Consumer\<close> (\<open>src/Consumer_api.cpp\<close>, \<open>src/Consumer_priv.cpp\<close>): subscriptions, channel set-up,
    pending channels, reception and dispatch, worker thread, life cycle. \<open>Library_Memory\<close> is the
    contract on rabbitmq-c's memory; \<open>Consumer_Invariant\<close> the invariant \<open>cons_inv\<close> (each queue name is
    a block of the program with one owner, pending channels are registered) and the steps of the
    worker thread; \<open>Consumer_System\<close> the methods, the destructor and the transition system.
    \<open>Consumer_Subscription\<close> takes \<open>Subscribe\<close> apart into its steps. \<open>Consumer_Serving\<close> shows that a
    registered channel is accepted by the broker or still pending while the consumer is connected,
    \<open>Consumer_Progress\<close> that the worker thread reopens a lost connection and works off the pending
    channels in a number of steps that is stated, \<open>Consumer_Interleaving\<close> what becomes of this when
    other threads act between the steps of \<open>Subscribe\<close>, and \<open>Consumer_Stopping\<close> takes \<open>Stop\<close> apart at its
    join. \<open>Consumer_Dispatch\<close> shows that what arrives is what the callbacks get, \<open>Consumer_Memory\<close>
    that the blocks of the program other than the consumer's own queue names are left alone.
  \<^item> \<open>Process\<close> is a process with a producer and a consumer over one heap and one library: by the two
    theorems on memory neither disturbs the other, so no interleaving of the two faults.
    \<open>End_To_End\<close> follows messages through both: over a broker that delivers in order, what a
    callback gets is, in this order and none twice, what \<open>Send\<close> accepted for its exchange and
    routing key, less what was lost on the way. \<open>Repository_Tests\<close> replays tests of the repository
    (\<open>test/src\<close>) on the model.

  \<^bold>\<open>Interfaces.\<close> \<open>Registry\<close> is the contract of handing out channel numbers; it is interpreted for
  \<open>ChannelHandler::AddChannelProcessor\<close> and for \<open>Producer::addExchange\<close>, which gives both the
  theorems on distinct and stable channels. \<open>Session\<close> is what a client may assume of a
  connection; it is interpreted for \<open>ConnectionBase\<close>. \<open>Lifecycle\<close> is the contract of starting and
  stopping a worker; it is interpreted for the producer and for the consumer. \<open>World_Relations\<close> and
  \<open>Consumer_Relations\<close> carry a relation on the world from the calls into rabbitmq-c to the
  functions of \<open>ConnectionBase\<close> and the consumer, \<open>Producer_Relations\<close> a relation on producer and
  state from the elementary changes to every action (\<open>producer_relation\<close>), and \<open>Consumer_Actions\<close> does
  the same for the consumer (\<open>consumer_relation\<close>); \<open>publisher_calls\<close> and \<open>receiver_calls\<close> give both from a
  relation on the world alone. Each history of the wire, the accounting of memory and the
  constancy of the tables is an interpretation. \<open>Outbox\<close> is the abstract sender, with the locale
  \<open>outbox_sender\<close> for what a program must show to refine it; the producer, the producer
  in its finer steps and the whole process interpret it. \<open>Winding_Down\<close> is the contract of a worker thread that has been asked to stop; it is
  interpreted for both.

  \<^bold>\<open>Threads.\<close> A method that holds the object's mutex is one step. A worker thread is a program
  counter, moved by a step function from one call in its loop to the next; \<open>join\<close> runs it to its
  end. The bound of four steps in \<open>join\<close> is enough because a thread that is not to run comes
  strictly closer to its exit with each step (\<open>pc_rank\<close>, \<open>run_thread_ok\<close>, \<open>cons_rank\<close>,
  \<open>run_consumer_ok\<close>), and more steps change nothing (\<open>join_enough\<close>). \<open>Send\<close>
  takes two locks one after the other, and \<open>publishNextInQueue\<close> publishes the front of the queue
  before it takes the mutex to remove it: \<open>Producer_System\<close> has each as one step,
  \<open>Producer_Interleaving\<close> as two. \<open>Subscribe\<close> takes three locks: \<open>Consumer_System\<close> has it as one step,
  \<open>Consumer_Interleaving\<close> as three. A single access to a container is atomic, and so is the whole
  of \<open>clearActiveSendQueue\<close>; the data races of accesses without the mutex are not represented.

  \<^bold>\<open>Integers.\<close> Channel numbers are C++ \<open>int\<close>s; the counters wrap at \<open>INT_MAX\<close>, and a channel
  reaches the wire modulo 65536 (\<open>wire_channel\<close>). Flags are 32-bit, timestamps 64-bit words, and
  \<open>Message::Length\<close> truncates to 32 bits.

  \<^bold>\<open>Not modelled.\<close> The inside of rabbitmq-c; the calls of \<open>LOG\<close> in the other components, which
  only write output; the effect of an application's callback, which is activity of the
  environment; sleeping; \<open>connectSSL\<close> and \<open>setDeliveryMode\<close>, which are declared and never defined;
  the fixtures of the tests, those of them that run for seconds against a broker, and the build.
  Every function of the library is modelled; the lines of the headers that no definition covers
  are declarations, comments and includes.
\<close>

end
